(* ===== verification/Go_Prelude.thy ===== *)
theory Go_Prelude
  imports Main "HOL-Library.Word"
begin

section \<open>Outcomes, errors, slices and machine integers of Go\<close>

text \<open>
  The vocabulary every component theory shares. A Go function that can return an error, panic
  or wait forever is a HOL function into \<open>'a go\<close>; errors are structured values (format
  string and arguments, unrendered), so that \<open>errors.Is\<close> can look through \<open>%w\<close>. Slice
  expressions check their bounds as the Go runtime does.
\<close>

named_theorems go_simps \<open>evaluation of the outcome monad and of slice expressions\<close>

type_synonym u8 = "8 word"
type_synonym u32 = "32 word"
type_synonym u64 = "64 word"

text \<open>
  \<open>errors.New\<close>, \<open>fmt.Errorf\<close> without and with a wrapped error. An argument is a string,
  an integer, or the \<open>Error()\<close> text of another error.
\<close>

datatype goerror =
    Errors_New string
  | Errorf string "fmtarg list"
  | Wrapf string "fmtarg list" goerror
and fmtarg = AStr string | AInt int | AErr goerror

fun errors_Is :: "goerror \<Rightarrow> goerror \<Rightarrow> bool" where
  "errors_Is (Wrapf f as e) t = (Wrapf f as e = t \<or> errors_Is e t)"
| "errors_Is e t = (e = t)"

datatype gopanic =
    IndexOutOfRange | SliceOutOfRange | NilDereference | SendOnClosed | CloseOfClosed
  | BigErrNaN | FailedTypeAssertion | ExternalPanic string

text \<open>
  \<open>Blocked\<close> is a goroutine that waits for ever (a receive that no sender will serve, a loop
  that does not end).
\<close>

datatype 'a go = Ret 'a | Fail goerror | Panic gopanic | Blocked

fun bind_go :: "'a go \<Rightarrow> ('a \<Rightarrow> 'b go) \<Rightarrow> 'b go" where
  "bind_go (Ret x) f = f x"
| "bind_go (Fail e) f = Fail e"
| "bind_go (Panic p) f = Panic p"
| "bind_go Blocked f = Blocked"

text \<open>The idiom \<open>if err != nil { return ..., g(err) }\<close>.\<close>

fun map_err :: "(goerror \<Rightarrow> goerror) \<Rightarrow> 'a go \<Rightarrow> 'a go" where
  "map_err g (Fail e) = Fail (g e)"
| "map_err g (Ret x) = Ret x"
| "map_err g (Panic p) = Panic p"
| "map_err g Blocked = Blocked"

fun fmap_go :: "('a \<Rightarrow> 'b) \<Rightarrow> 'a go \<Rightarrow> 'b go" where
  "fmap_go f (Ret x) = Ret (f x)"
| "fmap_go f (Fail e) = Fail e"
| "fmap_go f (Panic p) = Panic p"
| "fmap_go f Blocked = Blocked"

lemma bind_go_eq_Ret [simp]: "bind_go m f = Ret y \<longleftrightarrow> (\<exists>x. m = Ret x \<and> f x = Ret y)"
  by (cases m) auto

lemma bind_go_eq_Fail: "bind_go m f = Fail e \<longleftrightarrow> m = Fail e \<or> (\<exists>x. m = Ret x \<and> f x = Fail e)"
  by (cases m) auto

lemma bind_go_eq_Panic:
  "bind_go m f = Panic p \<longleftrightarrow> m = Panic p \<or> (\<exists>x. m = Ret x \<and> f x = Panic p)"
  by (cases m) auto

lemma bind_go_eq_Blocked: "bind_go m f = Blocked \<longleftrightarrow> m = Blocked \<or> (\<exists>x. m = Ret x \<and> f x = Blocked)"
  by (cases m) auto

lemma bind_go_assoc: "bind_go (bind_go m f) g = bind_go m (\<lambda>x. bind_go (f x) g)"
  by (cases m) auto

lemma bind_go_Ret_right [simp]: "bind_go m Ret = m"
  by (cases m) auto

lemma ex_bind_go:
  "(\<exists>y. bind_go m f = Ret y) \<longleftrightarrow> (\<exists>x. m = Ret x \<and> (\<exists>y. f x = Ret y))"
  by auto

lemma map_err_eq_Ret [simp]: "map_err g m = Ret x \<longleftrightarrow> m = Ret x"
  by (cases m) auto

lemma map_go_eq_Ret [simp]: "fmap_go f m = Ret y \<longleftrightarrow> (\<exists>x. m = Ret x \<and> y = f x)"
  by (cases m) auto

lemma fmap_go_comp [simp]: "fmap_go f (fmap_go g m) = fmap_go (\<lambda>x. f (g x)) m"
  by (cases m) auto

lemma fmap_go_bind: "fmap_go f (bind_go m g) = bind_go m (\<lambda>x. fmap_go f (g x))"
  by (cases m) auto

lemmas outcome_splits = go.splits option.splits if_splits prod.splits

text \<open>\<open>s[lo:hi]\<close>: panics unless \<open>0 \<le> lo \<le> hi \<le> len(s)\<close>.\<close>

definition go_slice :: "'a list \<Rightarrow> int \<Rightarrow> int \<Rightarrow> 'a list go" where
  "go_slice xs lo hi =
     (if 0 \<le> lo \<and> lo \<le> hi \<and> hi \<le> int (length xs)
      then Ret (take (nat (hi - lo)) (drop (nat lo) xs)) else Panic SliceOutOfRange)"

text \<open>\<open>s[1 : len(s)-1]\<close>, with which the code strips the quotes of a JSON string.\<close>

definition cut_quotes :: "'a list \<Rightarrow> 'a list go" where
  "cut_quotes s = go_slice s 1 (int (length s) - 1)"

text \<open>\<open>s[i]\<close>.\<close>

definition go_index :: "'a list \<Rightarrow> nat \<Rightarrow> 'a go" where
  "go_index xs i = (if i < length xs then Ret (xs ! i) else Panic IndexOutOfRange)"

lemma cut_quotes_quoted [go_simps]: "cut_quotes (a # s @ [b]) = Ret s"
  by (simp add: cut_quotes_def go_slice_def)

lemma cut_quotes_panics [go_simps]: "cut_quotes s = Panic SliceOutOfRange \<longleftrightarrow> length s < 2"
  by (auto simp: cut_quotes_def go_slice_def)

lemma cut_quotes_Nil [go_simps]: "cut_quotes [] = Panic SliceOutOfRange"
  by (simp add: cut_quotes_def go_slice_def)

lemma cut_quotes_cases: "(length s < 2 \<and> cut_quotes s = Panic SliceOutOfRange) \<or>
    (\<exists>a b t. s = a # t @ [b] \<and> cut_quotes s = Ret t)"
proof (cases "length s < 2")
  case False
  then obtain a u where s: "s = a # u" and "u \<noteq> []" by (cases s) auto
  then obtain t b where "u = t @ [b]" by (metis rev_exhaust)
  with s show ?thesis by (auto simp: cut_quotes_quoted)
qed (simp add: cut_quotes_panics)

lemma go_slice_eq_Ret:
  "go_slice xs lo hi = Ret ys \<longleftrightarrow>
     0 \<le> lo \<and> lo \<le> hi \<and> hi \<le> int (length xs) \<and> ys = take (nat (hi - lo)) (drop (nat lo) xs)"
  by (auto simp: go_slice_def)

lemma length_go_slice: "go_slice xs lo hi = Ret ys \<Longrightarrow> int (length ys) = hi - lo"
  by (auto simp: go_slice_eq_Ret)

text \<open>
  Association of a value with the first of its occurrences: the list without the elements whose
  key was met before. Two mappers use a Go map as a set of seen keys for this.
\<close>

fun firsts :: "('a \<Rightarrow> 'k) \<Rightarrow> 'k set \<Rightarrow> 'a list \<Rightarrow> 'a list" where
  "firsts k S [] = []"
| "firsts k S (x # xs) = (if k x \<in> S then firsts k S xs else x # firsts k (insert (k x) S) xs)"

lemma set_firsts_keys: "k ` set (firsts k S xs) = k ` set xs - S"
  by (induction xs arbitrary: S) auto

lemma set_map_firsts [simp]: "set (map k (firsts k S xs)) = k ` set xs - S"
  by (simp add: set_firsts_keys)

lemma distinct_firsts: "distinct (map k (firsts k S xs))"
proof (induction xs arbitrary: S)
  case (Cons x xs)
  have "k x \<notin> set (map k (firsts k (insert (k x) S) xs))"
    by (simp only: set_map_firsts) simp
  with Cons.IH show ?case by simp
qed simp

lemma firsts_subset: "set (firsts k S xs) \<subseteq> set xs"
proof (induction xs arbitrary: S)
  case (Cons x xs)
  then show ?case by (simp add: subset_insertI2)
qed simp

lemma firsts_disjoint_distinct:
  "distinct (map k xs) \<Longrightarrow> k ` set xs \<inter> S = {} \<Longrightarrow> firsts k S xs = xs"
  by (induction xs arbitrary: S) auto

lemma length_firsts_le: "length (firsts k S xs) \<le> length xs"
  by (induction xs arbitrary: S) (auto simp: le_SucI)

text \<open>A loop that stops at the first error, panic or block, collecting one result per element.\<close>

fun mapM_go :: "('a \<Rightarrow> 'b go) \<Rightarrow> 'a list \<Rightarrow> 'b list go" where
  "mapM_go f [] = Ret []"
| "mapM_go f (x # xs) = bind_go (f x) (\<lambda>y. fmap_go ((#) y) (mapM_go f xs))"

lemma mapM_go_eq_Ret: "mapM_go f xs = Ret ys \<longleftrightarrow> list_all2 (\<lambda>x y. f x = Ret y) xs ys"
  by (induction xs arbitrary: ys) (auto simp: list_all2_Cons1)

lemma mapM_go_nth:
  "mapM_go f xs = Ret ys \<Longrightarrow> i < length xs \<Longrightarrow> f (xs ! i) = Ret (ys ! i)"
  by (auto simp: mapM_go_eq_Ret list_all2_conv_all_nth)

lemma mapM_go_length: "mapM_go f xs = Ret ys \<Longrightarrow> length ys = length xs"
  by (auto simp: mapM_go_eq_Ret dest: list_all2_lengthD)

lemma mapM_go_map: "mapM_go f xs = Ret ys \<Longrightarrow> (\<And>x y. f x = Ret y \<Longrightarrow> h y = k x) \<Longrightarrow>
    map h ys = map k xs"
  by (auto simp: mapM_go_eq_Ret list_all2_conv_all_nth intro: nth_equalityI)

lemma list_all2_right:
  assumes "y \<in> set ys" and "list_all2 P xs ys"
  obtains x where "x \<in> set xs" and "P x y"
proof -
  from assms(2,1) have "\<exists>x \<in> set xs. P x y" by (induction rule: list_all2_induct) auto
  with that show thesis by blast
qed

lemma mapM_go_total: "(\<And>x. x \<in> set xs \<Longrightarrow> \<exists>y. f x = Ret y) \<Longrightarrow> \<exists>ys. mapM_go f xs = Ret ys"
proof (induction xs)
  case (Cons x xs)
  from Cons.prems[of x] obtain y where y: "f x = Ret y" by auto
  from Cons.IH Cons.prems obtain ys where "mapM_go f xs = Ret ys" by auto
  with y show ?case by simp
qed simp

section \<open>The contract of a Go map used as a set of seen keys\<close>

text \<open>
  \<open>if !unique(m, k) { continue }\<close> at the head of a loop: \<open>unique\<close> answers whether the key is
  new and records it.
\<close>

fun keep_unique :: "('m \<Rightarrow> 'k \<Rightarrow> bool \<times> 'm) \<Rightarrow> ('a \<Rightarrow> 'k) \<Rightarrow> 'm \<Rightarrow> 'a list \<Rightarrow> 'a list" where
  "keep_unique unique key m [] = []"
| "keep_unique unique key m (x # xs) =
     (case unique m (key x) of (new, m') \<Rightarrow>
        if new then x # keep_unique unique key m' xs else keep_unique unique key m' xs)"

locale seen_keys =
  fixes unique :: "'m \<Rightarrow> 'k \<Rightarrow> bool \<times> 'm"
    and seen :: "'m \<Rightarrow> 'k set"
    and nothing :: 'm
  assumes seen_nothing: "seen nothing = {}"
    and unique_new: "fst (unique m k) \<longleftrightarrow> k \<notin> seen m"
    and unique_seen: "seen (snd (unique m k)) = insert k (seen m)"
begin

lemma keep_unique_firsts: "keep_unique unique key m xs = firsts key (seen m) xs"
proof (induction xs arbitrary: m)
  case (Cons x xs)
  obtain b m' where u: "unique m (key x) = (b, m')" by (cases "unique m (key x)")
  with unique_new[of m "key x"] unique_seen[of m "key x"]
  have "b \<longleftrightarrow> key x \<notin> seen m" and "seen m' = insert (key x) (seen m)" by simp_all
  with u Cons.IH[of m'] show ?case by (simp add: insert_absorb)
qed simp

lemma keep_unique_nothing: "keep_unique unique key nothing xs = firsts key {} xs"
  by (simp add: keep_unique_firsts seen_nothing)

lemma keep_unique_distinct: "distinct (map key (keep_unique unique key nothing xs))"
  by (simp only: keep_unique_nothing distinct_firsts)

lemma keep_unique_keys: "key ` set (keep_unique unique key nothing xs) = key ` set xs"
  by (simp add: keep_unique_nothing set_firsts_keys)

end

end
