(* ===== verification/Go_Strings.thy ===== *)
theory Go_Strings
  imports Go_Prelude
begin

section \<open>The functions of Go's package strings that the program calls\<close>

text \<open>
  A Go string is its list of bytes. \<open>strings.ToLower\<close> is modelled on the ASCII letters (the
  names it is applied to, of pallets, methods and log levels, are ASCII); \<open>strings.Split\<close> is
  modelled for the one-byte separators the program passes, and \<open>strings.TrimSpace\<close> for the
  ASCII white space.
\<close>

definition lower_table :: "(char \<times> char) list" where
  "lower_table = zip ''ABCDEFGHIJKLMNOPQRSTUVWXYZ'' ''abcdefghijklmnopqrstuvwxyz''"

definition lower_char :: "char \<Rightarrow> char" where
  "lower_char c = (case map_of lower_table c of Some d \<Rightarrow> d | None \<Rightarrow> c)"

definition ToLower :: "string \<Rightarrow> string" where
  "ToLower s = map lower_char s"

text \<open>\<open>strings.Split(s, sep)\<close>: one element more than separators, also for the empty string.\<close>

fun Split :: "char \<Rightarrow> string \<Rightarrow> string list" where
  "Split sep [] = [[]]"
| "Split sep (c # s) =
     (if c = sep then [] # Split sep s
      else (case Split sep s of [] \<Rightarrow> [[c]] | w # ws \<Rightarrow> (c # w) # ws))"

text \<open>\<open>strings.Join(xs, sep)\<close>.\<close>

fun Join :: "string \<Rightarrow> string list \<Rightarrow> string" where
  "Join sep [] = []"
| "Join sep [x] = x"
| "Join sep (x # y # ys) = x @ sep @ Join sep (y # ys)"

definition is_space :: "char \<Rightarrow> bool" where
  "is_space c \<longleftrightarrow> c \<in> set [CHR 0x20, CHR 0x09, CHR 0x0A, CHR 0x0B, CHR 0x0C, CHR 0x0D]"

definition TrimSpace :: "string \<Rightarrow> string" where
  "TrimSpace s = rev (dropWhile is_space (rev (dropWhile is_space s)))"

definition HasPrefix :: "string \<Rightarrow> string \<Rightarrow> bool" where
  "HasPrefix s p \<longleftrightarrow> take (length p) s = p"

text \<open>\<open>strings.Replace(s, old, new, n)\<close> for a non-empty \<open>old\<close>; \<open>None\<close> is \<open>n = -1\<close>.\<close>

function Replace :: "string \<Rightarrow> string \<Rightarrow> string \<Rightarrow> nat option \<Rightarrow> string" where
  "Replace s old new n =
     (if s = [] \<or> old = [] \<or> n = Some 0 then s
      else if HasPrefix s old
      then new @ Replace (drop (length old) s) old new (map_option (\<lambda>k. k - 1) n)
      else hd s # Replace (tl s) old new n)"
  by pat_completeness auto
termination
  by (relation "measure (\<lambda>(s, _). length s)") auto

declare Replace.simps [simp del]

lemma Replace_Nil [simp]: "Replace [] old new n = []"
  by (simp add: Replace.simps)

lemma Replace_hit:
  "old \<noteq> [] \<Longrightarrow> n \<noteq> Some 0 \<Longrightarrow>
     Replace (old @ s) old new n = new @ Replace s old new (map_option (\<lambda>k. k - 1) n)"
  by (subst Replace.simps) (simp add: HasPrefix_def)

lemma Replace_zero [simp]: "Replace s old new (Some 0) = s"
  by (simp add: Replace.simps)

text \<open>A text in which the first byte of \<open>old\<close> does not occur is left alone.\<close>

lemma Replace_miss: "c \<notin> set s \<Longrightarrow> Replace s (c # old) new n = s"
proof (induction s)
  case (Cons d s)
  then have "\<not> HasPrefix (d # s) (c # old)" by (auto simp: HasPrefix_def)
  with Cons show ?case by (simp add: Replace.simps[of "d # s"])
qed simp

lemma Split_not_Nil [simp]: "Split sep s \<noteq> []"
  by (induction s) (auto split: list.splits)

lemma Join_Cons: "ys \<noteq> [] \<Longrightarrow> Join sep (x # ys) = x @ sep @ Join sep ys"
  by (cases ys) auto

lemma Join_Split: "Join [c] (Split c s) = s"
proof (induction s)
  case (Cons d s)
  then show ?case
    by (cases "Split c s"; cases "tl (Split c s)") auto
qed simp

lemma Split_no_sep: "c \<notin> set s \<Longrightarrow> Split c s = [s]"
  by (induction s) auto

lemma Split_append_sep: "c \<notin> set w \<Longrightarrow> Split c (w @ c # s) = w # Split c s"
  by (induction w) auto

lemma Split_Join: "ws \<noteq> [] \<Longrightarrow> (\<forall>w\<in>set ws. c \<notin> set w) \<Longrightarrow> Split c (Join [c] ws) = ws"
proof (induction ws rule: induct_list012)
  case (3 x y zs)
  then show ?case by (simp add: Split_append_sep)
qed (auto simp: Split_no_sep)

lemma Split_parts_no_sep: "w \<in> set (Split c s) \<Longrightarrow> c \<notin> set w"
proof (induction s arbitrary: w)
  case (Cons d s)
  then show ?case by (cases "Split c s") (auto split: if_splits)
qed simp

lemma length_Split: "length (Split c s) = Suc (count_list s c)"
proof (induction s)
  case (Cons d s)
  then show ?case by (cases "Split c s") auto
qed simp

lemma lower_table_idem: "list_all (\<lambda>(c, d). map_of lower_table d = None) lower_table"
  by (simp add: lower_table_def)

lemma lower_char_idem [simp]: "lower_char (lower_char c) = lower_char c"
proof (cases "map_of lower_table c")
  case (Some d)
  then have "(c, d) \<in> set lower_table" by (rule map_of_SomeD)
  with lower_table_idem have "map_of lower_table d = None" by (auto simp: list_all_iff)
  with Some show ?thesis by (simp add: lower_char_def)
qed (simp add: lower_char_def)

lemma ToLower_idem [simp]: "ToLower (ToLower s) = ToLower s"
  by (simp add: ToLower_def)

lemma length_ToLower [simp]: "length (ToLower s) = length s"
  by (simp add: ToLower_def)

lemma dropWhile_none: "\<forall>c\<in>set s. \<not> P c \<Longrightarrow> dropWhile P s = s"
  by (cases s) auto

lemma TrimSpace_id: "\<forall>c\<in>set s. \<not> is_space c \<Longrightarrow> TrimSpace s = s"
  by (simp add: TrimSpace_def dropWhile_none)

end
