(* ===== verification/Go_Numbers.thy ===== *)
theory Go_Numbers
  imports Go_Strings
begin

section \<open>Decimal and hexadecimal texts: strconv, fmt and big.Int\<close>

text \<open>
  Formatting of integers (\<open>%d\<close>, \<open>strconv.Itoa\<close>, \<open>strconv.FormatUint\<close>,
  \<open>big.Int.String\<close>) and their parsers (\<open>strconv.Atoi\<close>, \<open>strconv.ParseUint\<close>,
  \<open>big.Int.SetString\<close>), with the syntax and range errors of each.
\<close>

definition digit_char :: "nat \<Rightarrow> char" where
  "digit_char d = ''0123456789'' ! d"

fun show_nat :: "nat \<Rightarrow> string" where
  "show_nat n = (if n < 10 then [digit_char n] else show_nat (n div 10) @ [digit_char (n mod 10)])"

declare show_nat.simps [simp del]

definition show_int :: "int \<Rightarrow> string" where
  "show_int i = (if i < 0 then CHR ''-'' # show_nat (nat (- i)) else show_nat (nat i))"

definition show_u64 :: "u64 \<Rightarrow> string" where
  "show_u64 w = show_nat (unat w)"

text \<open>The value of a digit in base \<open>b \<le> 16\<close>.\<close>

definition digit_table :: "(char \<times> nat) list" where
  "digit_table = zip ''0123456789abcdef'' [0, 1, 2, 3, 4, 5, 6, 7, 8, 9, 10, 11, 12, 13, 14, 15]
     @ zip ''ABCDEF'' [10, 11, 12, 13, 14, 15]"

definition digit_val :: "nat \<Rightarrow> char \<Rightarrow> nat option" where
  "digit_val b c =
     (case map_of digit_table c of None \<Rightarrow> None | Some d \<Rightarrow> if d < b then Some d else None)"

fun digits_val :: "nat \<Rightarrow> nat \<Rightarrow> string \<Rightarrow> nat option" where
  "digits_val b acc [] = Some acc"
| "digits_val b acc (c # s) =
     (case digit_val b c of None \<Rightarrow> None | Some d \<Rightarrow> digits_val b (acc * b + d) s)"

definition parse_nat :: "nat \<Rightarrow> string \<Rightarrow> nat option" where
  "parse_nat b s = (if s = [] then None else digits_val b 0 s)"

text \<open>An optional sign, then at least one digit.\<close>

definition parse_int :: "nat \<Rightarrow> string \<Rightarrow> int option" where
  "parse_int b s =
     (case s of
        [] \<Rightarrow> None
      | c # t \<Rightarrow>
          if c = CHR ''-'' then map_option (\<lambda>n. - int n) (parse_nat b t)
          else if c = CHR ''+'' then map_option int (parse_nat b t)
          else map_option int (parse_nat b s))"

text \<open>\<open>strconv.Atoi\<close> on a 64-bit platform.\<close>

definition Atoi :: "string \<Rightarrow> int go" where
  "Atoi s =
     (case parse_int 10 s of
        None \<Rightarrow> Fail (Errorf ''strconv.Atoi: parsing %q: invalid syntax'' [AStr s])
      | Some i \<Rightarrow>
          if - (2 ^ 63) \<le> i \<and> i < 2 ^ 63 then Ret i
          else Fail (Errorf ''strconv.Atoi: parsing %q: value out of range'' [AStr s]))"

text \<open>\<open>strconv.ParseUint(s, 10, 64)\<close>.\<close>

definition ParseUint :: "string \<Rightarrow> u64 go" where
  "ParseUint s =
     (case parse_nat 10 s of
        None \<Rightarrow> Fail (Errorf ''strconv.ParseUint: parsing %q: invalid syntax'' [AStr s])
      | Some n \<Rightarrow>
          if n < 2 ^ 64 then Ret (of_nat n)
          else Fail (Errorf ''strconv.ParseUint: parsing %q: value out of range'' [AStr s]))"

text \<open>\<open>new(big.Int).SetString(s, b)\<close>; \<open>None\<close> is the answer \<open>(nil, false)\<close>.\<close>

definition BigInt_SetString :: "string \<Rightarrow> nat \<Rightarrow> int option" where
  "BigInt_SetString s b = parse_int b s"

lemma digit_val_all: "list_all (\<lambda>d. digit_val 10 (digit_char d) = Some d) [0, 1, 2, 3, 4, 5, 6, 7, 8, 9]"
  by (simp add: digit_val_def digit_char_def digit_table_def)

lemma digit_val_digit_char [simp]: "d < 10 \<Longrightarrow> digit_val 10 (digit_char d) = Some d"
proof -
  assume "d < 10"
  then have "d \<in> set [0, 1, 2, 3, 4, 5, 6, 7, 8, 9]" by auto
  then show ?thesis using digit_val_all unfolding list_all_iff by blast
qed

lemma digit_val_sign [simp]: "digit_val b CHR ''-'' = None" "digit_val b CHR ''+'' = None"
  by (simp_all add: digit_val_def digit_table_def)

lemma digits_val_append:
  "digits_val b acc (s @ t) =
     (case digits_val b acc s of None \<Rightarrow> None | Some a \<Rightarrow> digits_val b a t)"
  by (induction s arbitrary: acc) (auto split: option.splits)

lemma show_nat_not_Nil [simp]: "show_nat n \<noteq> []"
  by (subst show_nat.simps) simp

lemma digits_val_show_nat: "digits_val 10 0 (show_nat n) = Some n"
proof (induction n rule: show_nat.induct)
  case (1 n)
  then show ?case
    by (subst show_nat.simps) (auto simp: digits_val_append mult.commute)
qed

lemma parse_nat_show_nat [simp]: "parse_nat 10 (show_nat n) = Some n"
  by (simp add: parse_nat_def digits_val_show_nat)

lemma show_nat_digits: "c \<in> set (show_nat n) \<Longrightarrow> digit_val 10 c \<noteq> None"
proof (induction n rule: show_nat.induct)
  case (1 n)
  show ?case
  proof (cases "n < 10")
    case True
    with 1 show ?thesis by (simp add: show_nat.simps[of n])
  next
    case False
    then have "show_nat n = show_nat (n div 10) @ [digit_char (n mod 10)]"
      by (simp add: show_nat.simps[of n])
    with 1 False show ?thesis by auto
  qed
qed

lemma show_nat_hd_no_sign: "show_nat n = c # t \<Longrightarrow> c \<noteq> CHR ''-'' \<and> c \<noteq> CHR ''+''"
  using show_nat_digits[of c n] by auto

lemma parse_int_show_int [simp]: "parse_int 10 (show_int i) = Some i"
proof (cases "i < 0")
  case True
  then show ?thesis by (simp add: parse_int_def show_int_def)
next
  case False
  obtain c t where s: "show_nat (nat i) = c # t" by (cases "show_nat (nat i)") auto
  with show_nat_hd_no_sign[OF s] False parse_nat_show_nat[of "nat i"] show ?thesis
    by (simp add: parse_int_def show_int_def)
qed

lemma Atoi_show_int: "- (2 ^ 63) \<le> i \<Longrightarrow> i < 2 ^ 63 \<Longrightarrow> Atoi (show_int i) = Ret i"
  by (simp add: Atoi_def)

lemma ParseUint_show_u64 [simp]: "ParseUint (show_u64 w) = Ret w"
proof -
  have "unat w < 2 ^ 64" using unsigned_less[of w] by simp
  then show ?thesis by (simp add: ParseUint_def show_u64_def)
qed

lemma show_nat_inj: "show_nat m = show_nat n \<Longrightarrow> m = n"
  by (metis option.inject parse_nat_show_nat)

lemma show_nat_eq_iff [simp]: "show_nat m = show_nat n \<longleftrightarrow> m = n"
  by (auto dest: show_nat_inj)

lemma show_int_inj: "show_int m = show_int n \<Longrightarrow> m = n"
  by (metis option.inject parse_int_show_int)

lemma minus_notin_show_nat [simp]: "CHR ''-'' \<notin> set (show_nat n)"
  using show_nat_digits[of "CHR ''-''" n] by auto

lemma Atoi_eq_Ret: "Atoi s = Ret i \<longleftrightarrow> parse_int 10 s = Some i \<and> - (2 ^ 63) \<le> i \<and> i < 2 ^ 63"
  by (auto simp: Atoi_def split: option.splits if_splits)

text \<open>The text \<open>%d-%d\<close> of two numbers, the identifiers of events, determines both.\<close>

lemma dash_split: "CHR ''-'' \<notin> set a \<Longrightarrow> CHR ''-'' \<notin> set a' \<Longrightarrow>
    a @ CHR ''-'' # b = a' @ CHR ''-'' # b' \<longleftrightarrow> a = a' \<and> b = b'"
proof (induction a arbitrary: a')
  case Nil
  then show ?case by (cases a') auto
next
  case (Cons c a)
  then show ?case by (cases a') auto
qed

definition dash_id :: "u64 \<Rightarrow> int \<Rightarrow> string" where
  "dash_id h i = show_u64 h @ ''-'' @ show_int i"

lemma dash_id_inj: "dash_id h i = dash_id h' i' \<longleftrightarrow> h = h' \<and> i = i'"
proof
  assume "dash_id h i = dash_id h' i'"
  then have "show_u64 h = show_u64 h'" and i: "show_int i = show_int i'"
    by (simp_all add: dash_id_def show_u64_def dash_split)
  then have "unat h = unat h'" by (simp add: show_u64_def show_nat_inj)
  with i show "h = h' \<and> i = i'" by (simp add: show_int_inj word_unat_eq_iff)
qed simp

end
