(* ===== verification/Go_BigFloat.thy ===== *)
theory Go_BigFloat
  imports Go_Numbers
begin

section \<open>The part of math/big.Float behind currency amounts\<close>

text \<open>
  Currency texts are computed by \<open>big.Float\<close>: \<open>SetString\<close> of an integer (64 bits of
  precision), \<open>SetFloat64\<close> of the divider (53 bits), \<open>Quo\<close> and \<open>Text('f', -1)\<close>. A finite
  float is a sign, its precision, a mantissa of exactly that many bits and a binary exponent;
  rounding is to nearest, ties to even. The decimal conversion follows the library: the exact
  decimal of the float, cut to the shortest digits that read back as the same float, printed
  without exponent. Exponents are unbounded integers (the library's 32-bit exponent range is
  not modelled).
\<close>

fun bitlen :: "nat \<Rightarrow> nat" where
  "bitlen n = (if n = 0 then 0 else Suc (bitlen (n div 2)))"

declare bitlen.simps [simp del]

datatype bigfloat = FZero bool | FInf bool | FFin bool nat nat int

text \<open>Round to nearest, ties to even, of the quotient \<open>num / den\<close>.\<close>

definition rne :: "nat \<Rightarrow> nat \<Rightarrow> nat" where
  "rne num den =
     (let q = num div den; r = num mod den
      in if 2 * r < den \<or> (2 * r = den \<and> even q) then q else q + 1)"

text \<open>
  The rational \<open>n / d\<close> scaled by \<open>2 ^ (- e)\<close>, and the exponent \<open>e\<close> for which the scaled
  value has \<open>prec\<close> bits.
\<close>

definition scaled :: "nat \<Rightarrow> nat \<Rightarrow> int \<Rightarrow> nat \<times> nat" where
  "scaled n d e = (n * 2 ^ nat (- e), d * 2 ^ nat e)"

definition fexp :: "nat \<Rightarrow> nat \<Rightarrow> nat \<Rightarrow> int" where
  "fexp prec n d =
     (let e = int (bitlen n) - int (bitlen d) - int prec; (a, b) = scaled n d e
      in if a < b * 2 ^ prec then e else e + 1)"

definition round_float :: "bool \<Rightarrow> nat \<Rightarrow> nat \<Rightarrow> nat \<Rightarrow> bigfloat" where
  "round_float neg prec n d =
     (if n = 0 then FZero neg
      else (let e = fexp prec n d; (a, b) = scaled n d e; m = rne a b
            in if m = 2 ^ prec then FFin neg prec (2 ^ (prec - 1)) (e + 1) else FFin neg prec m e))"

text \<open>\<open>SetFloat64(float64(i))\<close> of an integer, and \<open>SetString\<close> of an integer text.\<close>

definition Float_of_int64 :: "int \<Rightarrow> bigfloat" where
  "Float_of_int64 i = (if i = 0 then FZero False else round_float (i < 0) 53 (nat \<bar>i\<bar>) 1)"

definition Float_SetString :: "string \<Rightarrow> bigfloat option" where
  "Float_SetString s =
     (case parse_int 10 s of
        None \<Rightarrow> None
      | Some i \<Rightarrow>
          if i = 0 then Some (FZero (take 1 s = ''-''))
          else Some (round_float (i < 0) 64 (nat \<bar>i\<bar>) 1))"

text \<open>\<open>x.Quo(a, b)\<close> into a fresh float: the precision is the larger one of the operands.\<close>

fun Float_Quo :: "bigfloat \<Rightarrow> bigfloat \<Rightarrow> bigfloat go" where
  "Float_Quo (FFin s p m e) (FFin s' p' m' e') =
     (let k = e - e'
      in Ret (round_float (s \<noteq> s') (max p p') (m * 2 ^ nat k) (m' * 2 ^ nat (- k))))"
| "Float_Quo (FZero s) (FZero s') = Panic BigErrNaN"
| "Float_Quo (FInf s) (FInf s') = Panic BigErrNaN"
| "Float_Quo (FZero s) (FFin s' _ _ _) = Ret (FZero (s \<noteq> s'))"
| "Float_Quo (FZero s) (FInf s') = Ret (FZero (s \<noteq> s'))"
| "Float_Quo (FFin s _ _ _) (FInf s') = Ret (FZero (s \<noteq> s'))"
| "Float_Quo (FFin s _ _ _) (FZero s') = Ret (FInf (s \<noteq> s'))"
| "Float_Quo (FInf s) (FZero s') = Ret (FInf (s \<noteq> s'))"
| "Float_Quo (FInf s) (FFin s' _ _ _) = Ret (FInf (s \<noteq> s'))"

subsection \<open>The library's decimal: digits of 0.ddd and a power of ten\<close>

type_synonym decimal = "nat list \<times> int"

fun dec_digits :: "nat \<Rightarrow> nat list" where
  "dec_digits n = (if n < 10 then [n] else dec_digits (n div 10) @ [n mod 10])"

declare dec_digits.simps [simp del]

definition dec_trim :: "nat list \<Rightarrow> nat list" where
  "dec_trim ds = rev (dropWhile (\<lambda>d. d = 0) (rev ds))"

text \<open>The exact decimal of \<open>m * 2 ^ shift\<close>.\<close>

definition dec_init :: "nat \<Rightarrow> int \<Rightarrow> decimal" where
  "dec_init m shift =
     (if m = 0 then ([], 0)
      else (let k = nat (- shift); ds = dec_digits (m * 2 ^ nat shift * 5 ^ k)
            in (dec_trim ds, int (length ds) - int k)))"

definition dec_at :: "decimal \<Rightarrow> int \<Rightarrow> nat" where
  "dec_at d i = (if 0 \<le> i \<and> i < int (length (fst d)) then fst d ! nat i else 0)"

definition dec_roundDown :: "decimal \<Rightarrow> nat \<Rightarrow> decimal" where
  "dec_roundDown d n =
     (if n \<ge> length (fst d) then d
      else let ds = dec_trim (take n (fst d)) in (ds, if ds = [] then 0 else snd d))"

definition dec_roundUp :: "decimal \<Rightarrow> nat \<Rightarrow> decimal" where
  "dec_roundUp d n =
     (if n \<ge> length (fst d) then d
      else (case rev (dropWhile (\<lambda>x. x \<ge> 9) (rev (take n (fst d)))) of
              [] \<Rightarrow> ([1], snd d + 1)
            | ds \<Rightarrow> (butlast ds @ [last ds + 1], snd d)))"

definition dec_shouldRoundUp :: "decimal \<Rightarrow> nat \<Rightarrow> bool" where
  "dec_shouldRoundUp d n =
     (if fst d ! n = 5 \<and> n + 1 = length (fst d) then n > 0 \<and> odd (fst d ! (n - 1))
      else fst d ! n \<ge> 5)"

definition dec_round :: "decimal \<Rightarrow> nat \<Rightarrow> decimal" where
  "dec_round d n =
     (if n \<ge> length (fst d) then d
      else if dec_shouldRoundUp d n then dec_roundUp d n else dec_roundDown d n)"

text \<open>The loop of \<open>roundShortest\<close>, over the digits of \<open>d\<close> from index \<open>i\<close> on.\<close>

fun shortest_loop ::
  "decimal \<Rightarrow> decimal \<Rightarrow> decimal \<Rightarrow> bool \<Rightarrow> nat \<Rightarrow> nat list \<Rightarrow> decimal" where
  "shortest_loop d lower upper incl i [] = d"
| "shortest_loop d lower upper incl i (m # ms) =
     (let l = dec_at lower (int i); u = dec_at upper (int i);
          okdown = (l \<noteq> m \<or> incl \<and> i + 1 = length (fst lower));
          okup = (m \<noteq> u \<and> (incl \<or> m + 1 < u \<or> i + 1 < length (fst upper)))
      in if okdown \<and> okup then dec_round d (i + 1)
         else if okdown then dec_roundDown d (i + 1)
         else if okup then dec_roundUp d (i + 1)
         else shortest_loop d lower upper incl (i + 1) ms)"

text \<open>
  \<open>roundShortest\<close>: the mantissa has \<open>prec\<close> bits, so that one more bit makes its unit half an
  ulp; the bounds belong to the rounding interval when the mantissa is even.
\<close>

definition roundShortest :: "decimal \<Rightarrow> nat \<Rightarrow> int \<Rightarrow> decimal" where
  "roundShortest d mant e =
     (if fst d = [] then d
      else shortest_loop d (dec_init (2 * mant - 1) (e - 1)) (dec_init (2 * mant + 1) (e - 1))
             (even mant) 0 (fst d))"

definition fmtF :: "decimal \<Rightarrow> nat \<Rightarrow> string" where
  "fmtF d prec =
     (if snd d > 0 then map (\<lambda>i. digit_char (dec_at d (int i))) [0..<nat (snd d)] else ''0'')
     @ (if prec > 0
        then ''.'' @ map (\<lambda>i. digit_char (dec_at d (snd d + int i))) [0..<prec] else [])"

text \<open>\<open>x.Text('f', -1)\<close>.\<close>

definition shortest_decimal :: "nat \<Rightarrow> int \<Rightarrow> decimal" where
  "shortest_decimal m e = roundShortest (dec_init m e) m e"

definition frac_len :: "decimal \<Rightarrow> nat" where
  "frac_len d = nat (max (int (length (fst d)) - snd d) 0)"

fun Float_Text :: "bigfloat \<Rightarrow> string" where
  "Float_Text (FZero s) = (if s then ''-'' else []) @ ''0''"
| "Float_Text (FInf s) = (if s then ''-Inf'' else ''+Inf'')"
| "Float_Text (FFin s p m e) =
     (let d = shortest_decimal m e in (if s then ''-'' else []) @ fmtF d (frac_len d))"

subsection \<open>Evaluation of closed floats by rewriting\<close>

lemma bitlen_eval:
  "bitlen 0 = 0" "bitlen 1 = 1"
  "bitlen (numeral Num.One) = 1"
  "bitlen (numeral (Num.Bit0 k)) = Suc (bitlen (numeral k))"
  "bitlen (numeral (Num.Bit1 k)) = Suc (bitlen (numeral k))"
  by (simp_all add: bitlen.simps[of 0] bitlen.simps[of "Suc 0"] bitlen.simps[of "numeral (Num.Bit0 k)"]
      bitlen.simps[of "numeral (Num.Bit1 k)"])

lemma dec_digits_eval:
  "n < 10 \<Longrightarrow> dec_digits n = [n]"
  "10 \<le> n \<Longrightarrow> dec_digits n = dec_digits (n div 10) @ [n mod 10]"
  by (simp_all add: dec_digits.simps[of n])

lemmas parse_eval = parse_int_def parse_nat_def digit_val_def digit_table_def

lemmas float_eval = bitlen_eval dec_digits_eval parse_eval Float_SetString_def Float_of_int64_def
  round_float_def fexp_def scaled_def rne_def Let_def shortest_decimal_def dec_init_def
  dec_trim_def dec_at_def dec_roundDown_def dec_roundUp_def dec_round_def dec_shouldRoundUp_def
  roundShortest_def fmtF_def frac_len_def digit_char_def

lemma round_float_finite: "round_float s p n d \<noteq> FInf b"
  by (simp add: round_float_def Let_def split: prod.splits)

lemma Float_SetString_finite:
  "parse_int 10 v = Some n \<Longrightarrow> \<exists>f. Float_SetString v = Some f \<and> (\<forall>b. f \<noteq> FInf b)"
  by (simp add: Float_SetString_def round_float_finite)

end
