(* ===== verification/Structs.thy ===== *)
theory Structs
  imports Go_BigFloat
begin

section \<open>The data the mappers read and write\<close>

text \<open>
  The records of the proxy's replies (\<open>blockpb\<close>, \<open>eventpb\<close>, \<open>transactionpb\<close>,
  \<open>accountpb\<close>) and of the indexing engine's results (\<open>structs\<close>), with the fields the
  program reads or writes. A pointer that may be nil is an option, and so is a Go map, whose nil
  value is not the empty map. Both \<open>int64\<close> and \<open>uint64\<close> values are 64-bit words: the
  conversions between them keep the bits, and \<open>sint\<close> reads the signed one.
\<close>

type_synonym go_time = "int \<times> int"

text \<open>\<open>time.Unix(sec, nsec)\<close> carries nanoseconds outside one second over to the seconds.\<close>

definition time_Unix :: "int \<Rightarrow> int \<Rightarrow> go_time" where
  "time_Unix sec nsec = (sec + nsec div 1000000000, nsec mod 1000000000)"

subsection \<open>Replies of the proxy\<close>

record EventData =
  ed_Name :: string
  ed_Value :: string

record Event =
  evp_Index :: u64
  evp_Section :: string
  evp_Method :: string
  evp_Description :: string
  evp_Error :: string
  evp_Raw :: string
  evp_Data :: "EventData list"

record ExtrinsicPb =
  ex_Hash :: string
  ex_Time :: string
  ex_Nonce :: u64
  ex_Method :: string
  ex_Section :: string
  ex_Events :: "Event list"
  ex_Signer :: string
  ex_PartialFee :: string
  ex_Tip :: string
  ex_IsSuccess :: bool
  ex_Epoch :: string
  ex_Raw :: string

record HeaderPb =
  hd_Height :: u64
  hd_Time :: go_time

record BlockPb =
  blk_BlockHash :: string
  blk_Header :: "HeaderPb option"
  blk_Extrinsics :: "ExtrinsicPb list"

text \<open>\<open>blockpb.GetByHeightResponse\<close> and \<open>accountpb.GetByHeightResponse\<close>.\<close>

record BlockResponse =
  br_Block :: "BlockPb option"

record AccountPb =
  acc_Free :: string

record AccountResponse =
  ar_Account :: "AccountPb option"

record DecodeResponse =
  dr_Block :: "BlockResponse option"
  dr_Epoch :: string

subsection \<open>Results of the indexing engine\<close>

record TransactionAmount =
  ta_Text :: string
  ta_Currency :: string
  ta_Numeric :: "int option"
  ta_Exp :: u32

definition zero_amount :: TransactionAmount where
  "zero_amount = \<lparr>ta_Text = [], ta_Currency = [], ta_Numeric = None, ta_Exp = 0\<rparr>"

type_synonym AccountID = string

record EventTransfer =
  et_Account :: AccountID
  et_Amounts :: "TransactionAmount list"

record SubsetEvent =
  se_ID :: string
  se_Type :: "string list"
  se_Module :: string
  se_Sender :: "EventTransfer list"
  se_Recipient :: "EventTransfer list"
  se_Node :: "(string \<rightharpoonup> AccountID list) option"
  se_Nonce :: string
  se_Completion :: "go_time option"
  se_Amount :: "(string \<rightharpoonup> TransactionAmount) option"
  se_Transfers :: "(string \<rightharpoonup> EventTransfer list) option"
  se_Error :: "string option"
  se_Additional :: "(string \<rightharpoonup> string list) option"

definition zero_subset_event :: SubsetEvent where
  "zero_subset_event =
     \<lparr>se_ID = [], se_Type = [], se_Module = [], se_Sender = [], se_Recipient = [],
      se_Node = None, se_Nonce = [], se_Completion = None, se_Amount = None,
      se_Transfers = None, se_Error = None, se_Additional = None\<rparr>"

record TransactionEvent =
  te_ID :: string
  te_Kind :: string
  te_Module :: string
  te_Type :: "string list"
  te_Sub :: "SubsetEvent list"

record Transaction =
  tx_Hash :: string
  tx_BlockHash :: string
  tx_Height :: u64
  tx_Epoch :: string
  tx_ChainID :: string
  tx_Time :: go_time
  tx_Fee :: "TransactionAmount list"
  tx_Version :: string
  tx_Events :: "TransactionEvent list"
  tx_HasErrors :: bool
  tx_Raw :: string
  tx_RawLog :: string

record Block =
  b_ChainID :: string
  b_Epoch :: string
  b_Hash :: string
  b_Height :: u64
  b_NumberOfTransactions :: nat
  b_Time :: go_time

record GetAccountBalanceResponse =
  gab_Height :: u64
  gab_Balances :: "TransactionAmount list"

definition deref :: "'a option \<Rightarrow> 'a go" where
  "deref p = (case p of Some x \<Rightarrow> Ret x | None \<Rightarrow> Panic NilDereference)"

lemma deref_simps [simp]: "deref (Some x) = Ret x" "deref None = Panic NilDereference"
  by (simp_all add: deref_def)

lemma deref_eq_Ret [simp]: "deref p = Ret x \<longleftrightarrow> p = Some x"
  by (auto simp: deref_def split: option.splits)

lemma time_Unix_normal: "0 \<le> snd (time_Unix s n) \<and> snd (time_Unix s n) < 1000000000"
  by (simp add: time_Unix_def)

end
