(* ===== verification/Event_Mapper.thy ===== *)
theory Event_Mapper
  imports Structs
begin

section \<open>The event mapper (mapper/event\_mapper.go)\<close>

text \<open>
  From an event of the proxy to a \<open>SubsetEvent\<close>: the parameter names are taken from the
  description, each datum is classified by its parameter name (or, past the named ones, by its
  data name), balances become amounts and accounts become nodes, senders and recipients. Writing
  to the log is not modelled.
\<close>

subsection \<open>Amounts\<close>

definition countCurrencyAmount :: "int \<Rightarrow> string \<Rightarrow> bigfloat \<Rightarrow> bigfloat go" where
  "countCurrencyAmount exp value divider =
     (case Float_SetString value of
        None \<Rightarrow> Fail (Errorf ''Could not create big float from value %s'' [AStr value])
      | Some amount \<Rightarrow> Float_Quo amount divider)"

definition getAmount ::
  "string \<Rightarrow> int \<Rightarrow> string \<Rightarrow> bigfloat \<Rightarrow> TransactionAmount option go" where
  "getAmount value exp currency divider =
     (if value = [] then Ret None
      else (case BigInt_SetString value 10 of
        None \<Rightarrow> Fail (Errorf ''Could not create big int from value %s'' [AStr value])
      | Some n \<Rightarrow>
          bind_go (map_err (\<lambda>_. Errors_New ''Could not count currency amount'')
                     (countCurrencyAmount exp value divider))
            (\<lambda>amount. Ret (Some
               \<lparr>ta_Text = Float_Text amount @ currency, ta_Currency = currency,
                ta_Numeric = Some n, ta_Exp = word_of_int exp\<rparr>))))"

subsection \<open>Data of an event\<close>

definition getValue :: "EventData \<Rightarrow> string \<Rightarrow> string go" where
  "getValue d expected =
     (if ed_Name d \<noteq> expected
      then Fail (Errorf ''unexpected data name %q expected %q value %q''
                   [AStr (ed_Name d), AStr expected, AStr (ed_Value d)])
      else Ret (ed_Value d))"

definition getAccountID :: "EventData \<Rightarrow> string go" where
  "getAccountID d = getValue d ''AccountId''"

definition getBalance :: "EventData \<Rightarrow> string go" where
  "getBalance d = getValue d ''Balance''"

text \<open>\<open>numRegexp\<close>, \<open>^[0-9]+$\<close>.\<close>

definition numRegexp :: "string \<Rightarrow> bool" where
  "numRegexp s \<longleftrightarrow> s \<noteq> [] \<and> list_all (\<lambda>c. c \<in> set ''0123456789'') s"

text \<open>
  The first rune of the value decides whether it is quoted. A rune is compared with ASCII
  characters only, so the first byte stands for it; \<open>[]rune("")[0]\<close> panics.
\<close>

definition stringifyEventData :: "EventData \<Rightarrow> string go" where
  "stringifyEventData d =
     (let val = ed_Value d in
      bind_go (go_index val 0) (\<lambda>c.
        let val' = (if c \<in> set ''{[-'' then val
                    else if numRegexp val then val else CHR 0x22 # val @ [CHR 0x22])
        in Ret (CHR 0x7B # CHR 0x22 # ''name'' @ CHR 0x22 # '': '' @ CHR 0x22 # ed_Name d @
                CHR 0x22 # '', '' @ CHR 0x22 # ''value'' @ CHR 0x22 # '': '' @ val' @ [CHR 0x7D])))"

text \<open>
  \<open>descRegexp\<close>, \<open>\\\[[a-z_, ]*\\\]\<close>, finds the first backslash and bracket whose text up to a
  backslash and closing bracket is made of the class's characters. The class has no backslash,
  so a match starting at a given place is unique. The value is the text between the brackets.
\<close>

definition desc_class :: "char \<Rightarrow> bool" where
  "desc_class c \<longleftrightarrow> c \<in> set ''abcdefghijklmnopqrstuvwxyz_, ''"

definition desc_match_here :: "string \<Rightarrow> string option" where
  "desc_match_here s =
     (if take 2 s = [CHR 0x5C, CHR ''['']
      then (let r = drop 2 s; body = takeWhile desc_class r
            in if take 2 (drop (length body) r) = [CHR 0x5C, CHR '']''] then Some body else None)
      else None)"

fun descRegexp_Find :: "string \<Rightarrow> string option" where
  "descRegexp_Find [] = None"
| "descRegexp_Find (c # s) =
     (case desc_match_here (c # s) of Some b \<Rightarrow> Some b | None \<Rightarrow> descRegexp_Find s)"

text \<open>\<open>len(vls) < 5\<close> holds for no match and for an empty body.\<close>

definition getValues :: "string \<Rightarrow> string list" where
  "getValues description =
     (case descRegexp_Find description of
        None \<Rightarrow> []
      | Some body \<Rightarrow>
          if length body + 4 < 5 then [] else map TrimSpace (Split (CHR '','') body))"

subsection \<open>The event under construction\<close>

record event =
  e_sub :: SubsetEvent
  e_accountIDs :: "string list"
  e_recipientAccountID :: string
  e_senderAccountID :: string
  e_signerID :: string
  e_values :: "string list"
  e_amount :: TransactionAmount
  e_eventType :: "string list"

definition zero_event :: event where
  "zero_event =
     \<lparr>e_sub = zero_subset_event, e_accountIDs = [], e_recipientAccountID = [],
      e_senderAccountID = [], e_signerID = [], e_values = [], e_amount = zero_amount,
      e_eventType = []\<rparr>"

text \<open>The cases of the switch on the parameter name.\<close>

definition account_params :: "string list" where
  "account_params =
     [''account'', ''approving'', ''authority_id'', ''multisig'', ''stash'', ''unvested'', ''target'',
      ''sub'', ''main'', ''cancelling'', ''lost'', ''rescuer'', ''sender'', ''voter'', ''founder'',
      ''candidate'', ''candidate_id'', ''vouching'', ''nominator'', ''validator'', ''finder'',
      ''real'', ''primary'', ''restorer'', ''dest'', ''deployer'', ''contract'', ''creator'',
      ''owner'', ''origin'']"

definition sender_params :: "string list" where
  "sender_params = [''from'', ''provider'']"

definition recipient_params :: "string list" where
  "recipient_params = [''to'', ''who'', ''beneficiary'', ''reaper'']"

definition balance_params :: "string list" where
  "balance_params =
     [''deposit'', ''free_balance'', ''value'', ''balance'', ''amount'', ''offer'',
      ''validator_payout'', ''bond'', ''remainder'', ''payout'', ''award'', ''slashed'',
      ''budget_remaining'', ''burn'', ''rent_allowance'']"

text \<open>
  The body of the switch: an error only leaves it for a sender; the names that are listed to be
  ignored and the names that are only logged change nothing.
\<close>

definition desc_value :: "string \<Rightarrow> string \<Rightarrow> EventData \<Rightarrow> event \<Rightarrow> event go" where
  "desc_value meth v d e =
     (if v \<in> set account_params then
        (case getAccountID d of
           Ret a \<Rightarrow>
             if ToLower meth = ''endowed'' then Ret (e\<lparr>e_recipientAccountID := a\<rparr>)
             else Ret (e\<lparr>e_accountIDs := e_accountIDs e @ [a]\<rparr>)
         | _ \<Rightarrow> Ret e)
      else if v \<in> set sender_params then
        bind_go (getAccountID d) (\<lambda>a. Ret (e\<lparr>e_senderAccountID := a\<rparr>))
      else if v \<in> set recipient_params then
        (if ed_Name d \<noteq> ''AccountIndex'' then
           (case getAccountID d of
              Ret a \<Rightarrow>
                if ToLower meth = ''delegated'' then Ret (e\<lparr>e_accountIDs := e_accountIDs e @ [a]\<rparr>)
                else Ret (e\<lparr>e_recipientAccountID := a\<rparr>)
            | _ \<Rightarrow> Ret e)
         else Ret e)
      else if v \<in> set balance_params then
        (case getBalance d of
           Ret b \<Rightarrow> Ret (e\<lparr>e_values := e_values e @ [b]\<rparr>)
         | _ \<Rightarrow> Ret e)
      else if v = ''error'' then Ret (e\<lparr>e_eventType := [''error'']\<rparr>)
      else Ret e)"

text \<open>The first loop: parameter \<open>i\<close> of the description names datum \<open>i\<close>.\<close>

fun desc_loop ::
  "string \<Rightarrow> EventData list \<Rightarrow> nat \<Rightarrow> string list \<Rightarrow> event \<times> string list \<Rightarrow> (event \<times> string list) go"
where
  "desc_loop meth data i [] st = Ret st"
| "desc_loop meth data i (v # vs) (e, attributes) =
     (if i \<ge> length data
      then Fail (Errors_New ''Not enough data to parse all event values'')
      else
        bind_go (map_err (\<lambda>err. Errorf ''%d Error while parsing event %s'' [AInt (int i), AErr err])
                   (desc_value meth v (data ! i) e)) (\<lambda>e'.
        bind_go (stringifyEventData (data ! i)) (\<lambda>s.
          desc_loop meth data (i + 1) vs (e', attributes[i := s]))))"

text \<open>The second loop, over the data past the named ones.\<close>

definition rest_value :: "EventData \<Rightarrow> event \<Rightarrow> event" where
  "rest_value d e =
     (if ed_Name d = ''Balance'' then
        (case getBalance d of Ret b \<Rightarrow> e\<lparr>e_values := e_values e @ [b]\<rparr> | _ \<Rightarrow> e)
      else if ed_Name d = ''AccountId'' then
        (case getAccountID d of Ret a \<Rightarrow> e\<lparr>e_accountIDs := e_accountIDs e @ [a]\<rparr> | _ \<Rightarrow> e)
      else e)"

fun rest_loop ::
  "EventData list \<Rightarrow> nat \<Rightarrow> event \<times> string list \<Rightarrow> (event \<times> string list) go"
where
  "rest_loop [] i st = Ret st"
| "rest_loop (d # ds) i (e, attributes) =
     bind_go (stringifyEventData d) (\<lambda>s. rest_loop ds (i + 1) (rest_value d e, attributes[i := s]))"

definition parseEventDescription :: "Event \<Rightarrow> event \<Rightarrow> event go" where
  "parseEventDescription ev e =
     (let data = evp_Data ev; values = getValues (evp_Description ev) in
      bind_go (desc_loop (evp_Method ev) data 0 values (e, replicate (length data) [])) (\<lambda>st.
      bind_go (rest_loop (drop (length values) data) (length values) st) (\<lambda>(e', attributes).
        Ret (if length attributes > 0
             then e'\<lparr>e_sub := (e_sub e')\<lparr>se_Additional := Some [''attributes'' \<mapsto> attributes]\<rparr>\<rparr>
             else e'))))"

definition handleError :: "string \<Rightarrow> string \<Rightarrow> event \<Rightarrow> event" where
  "handleError errMsg signer e =
     e\<lparr>e_sub := (e_sub e)\<lparr>se_Error := Some errMsg\<rparr>, e_signerID := signer\<rparr>"

subsection \<open>Amounts and accounts of the event\<close>

text \<open>\<open>*amount\<close> of a nil amount, which \<open>getAmount\<close> returns for an empty value, panics.\<close>

fun amount_loop ::
  "int \<Rightarrow> string \<Rightarrow> bigfloat \<Rightarrow> nat \<Rightarrow> nat \<Rightarrow> string list \<Rightarrow>
   (string \<rightharpoonup> TransactionAmount) \<times> TransactionAmount \<Rightarrow>
   ((string \<rightharpoonup> TransactionAmount) \<times> TransactionAmount) go"
where
  "amount_loop exp currency divider len i [] st = Ret st"
| "amount_loop exp currency divider len i (v # vs) (m, single) =
     bind_go (getAmount v exp currency divider) (\<lambda>p.
     bind_go (deref p) (\<lambda>a.
       amount_loop exp currency divider len (i + 1) vs
         (m(show_nat i \<mapsto> a), if len = 1 \<and> i = 0 then a else single)))"

definition appendAmounts :: "int \<Rightarrow> string \<Rightarrow> bigfloat \<Rightarrow> event \<Rightarrow> event go" where
  "appendAmounts exp currency divider e =
     (if e_values e = [] then Ret e
      else bind_go (amount_loop exp currency divider (length (e_values e)) 0 (e_values e)
                      (Map.empty, e_amount e)) (\<lambda>(m, single).
        Ret (e\<lparr>e_sub := (e_sub e)\<lparr>se_Amount := Some m\<rparr>, e_amount := single\<rparr>)))"

definition node_put :: "string \<Rightarrow> AccountID list \<Rightarrow> SubsetEvent \<Rightarrow> SubsetEvent" where
  "node_put k accs s = s\<lparr>se_Node := map_option (\<lambda>m. m(k \<mapsto> accs)) (se_Node s)\<rparr>"

definition event_transfer :: "event \<Rightarrow> string \<Rightarrow> EventTransfer" where
  "event_transfer e acc = \<lparr>et_Account = acc, et_Amounts = [e_amount e]\<rparr>"

definition appendSender :: "event \<Rightarrow> event" where
  "appendSender e =
     (if e_senderAccountID e = [] then e
      else e\<lparr>e_sub := node_put ''sender'' [e_senderAccountID e]
               ((e_sub e)\<lparr>se_Sender := [event_transfer e (e_senderAccountID e)]\<rparr>)\<rparr>)"

definition appendRecipient :: "event \<Rightarrow> event" where
  "appendRecipient e =
     (if e_recipientAccountID e = [] then e
      else e\<lparr>e_sub := (node_put ''recipient'' [e_recipientAccountID e]
               ((e_sub e)\<lparr>se_Recipient := [event_transfer e (e_recipientAccountID e)]\<rparr>))
             \<lparr>se_Transfers := Some [e_recipientAccountID e \<mapsto>
                [event_transfer e (e_recipientAccountID e)]]\<rparr>\<rparr>)"

definition appendSigner :: "event \<Rightarrow> event" where
  "appendSigner e =
     (if e_signerID e = [] then e
      else e\<lparr>e_sub := node_put ''signer'' [e_signerID e] (e_sub e)\<rparr>)"

definition appendAccounts :: "event \<Rightarrow> event" where
  "appendAccounts e =
     (if e_accountIDs e = [] \<and> e_senderAccountID e = [] \<and> e_recipientAccountID e = []
         \<and> e_signerID e = [] then e
      else (let e0 = e\<lparr>e_sub := (e_sub e)\<lparr>se_Node := Some Map.empty\<rparr>\<rparr>;
                e1 = (if e_accountIDs e0 = [] then e0
                      else e0\<lparr>e_sub := node_put ''versions'' (e_accountIDs e0) (e_sub e0)\<rparr>)
            in appendRecipient (appendSigner (appendSender e1))))"

definition getEvent ::
  "Event \<Rightarrow> bigfloat \<Rightarrow> int \<Rightarrow> string \<Rightarrow> string \<Rightarrow> SubsetEvent go" where
  "getEvent evpb divider exp currency signer =
     bind_go (parseEventDescription evpb zero_event) (\<lambda>e1.
     bind_go (appendAmounts exp currency divider
                (if evp_Error evpb \<noteq> [] then handleError (evp_Error evpb) signer e1 else e1)) (\<lambda>e2.
       let e3 = appendAccounts e2 in
       Ret ((e_sub e3)\<lparr>se_Module := evp_Section evpb,
                        se_Type := ToLower (evp_Method evpb) # e_eventType e3\<rparr>)))"

subsection \<open>The events of an extrinsic\<close>

type_synonym index_set = "u64 \<rightharpoonup> unit"

definition isEventUnique :: "index_set \<Rightarrow> u64 \<Rightarrow> bool \<times> index_set" where
  "isEventUnique m i = (case m i of None \<Rightarrow> (True, m(i \<mapsto> ())) | Some _ \<Rightarrow> (False, m))"

fun parseEvents_loop ::
  "bigfloat \<Rightarrow> go_time \<Rightarrow> int \<Rightarrow> u64 \<Rightarrow> string \<Rightarrow> string \<Rightarrow> string \<Rightarrow> index_set \<Rightarrow> Event list \<Rightarrow>
   (SubsetEvent list \<times> string list) go"
where
  "parseEvents_loop divider time exp height currency nonce signer m [] = Ret ([], [])"
| "parseEvents_loop divider time exp height currency nonce signer m (e # es) =
     (case isEventUnique m (evp_Index e) of (new, m') \<Rightarrow>
        if \<not> new then parseEvents_loop divider time exp height currency nonce signer m' es
        else bind_go (getEvent e divider exp currency signer) (\<lambda>sub.
          let sub' = sub\<lparr>se_ID := dash_id height (sint (evp_Index e)),
                         se_Completion := Some time, se_Nonce := nonce\<rparr> in
          fmap_go (\<lambda>(subs, raws). (sub' # subs, evp_Raw e # raws))
            (parseEvents_loop divider time exp height currency nonce signer m' es)))"

definition parseEvents ::
  "Event list \<Rightarrow> bigfloat \<Rightarrow> go_time \<Rightarrow> int \<Rightarrow> u64 \<Rightarrow> string \<Rightarrow> string \<Rightarrow> string \<Rightarrow>
   (SubsetEvent list \<times> string list) go" where
  "parseEvents rawEvents divider time exp height currency nonce signer =
     parseEvents_loop divider time exp height currency nonce signer Map.empty rawEvents"

subsection \<open>Every datum is stringified at its own place\<close>

lemma go_index_0: "go_index s 0 = (case s of [] \<Rightarrow> Panic IndexOutOfRange | c # _ \<Rightarrow> Ret c)"
  by (cases s) (auto simp: go_index_def)

lemma stringify_panics:
  "stringifyEventData d = Panic IndexOutOfRange \<longleftrightarrow> ed_Value d = []"
  by (auto simp: stringifyEventData_def go_index_0 Let_def split: list.splits)

lemma stringify_returns: "ed_Value d \<noteq> [] \<Longrightarrow> \<exists>s. stringifyEventData d = Ret s"
  by (auto simp: stringifyEventData_def go_index_0 Let_def split: list.splits)

lemma stringify_Ret_nonempty: "stringifyEventData d = Ret s \<Longrightarrow> ed_Value d \<noteq> []"
  using stringify_panics[of d] by auto

lemma stringify_Ret_iff: "(\<exists>s. stringifyEventData d = Ret s) \<longleftrightarrow> ed_Value d \<noteq> []"
  using stringify_returns[of d] stringify_Ret_nonempty[of d] by blast

lemma desc_loop_attributes:
  "desc_loop meth data i vs (e, attrs) = Ret (e', attrs') \<Longrightarrow> length attrs = length data \<Longrightarrow>
     (vs \<noteq> [] \<longrightarrow> i + length vs \<le> length data) \<and> length attrs' = length data \<and>
     (\<forall>j<length data. if i \<le> j \<and> j < i + length vs
        then stringifyEventData (data ! j) = Ret (attrs' ! j) else attrs' ! j = attrs ! j)"
proof (induction vs arbitrary: i e attrs)
  case (Cons v vs)
  then obtain e1 s where i: "i < length data"
    and s: "stringifyEventData (data ! i) = Ret s"
    and rest: "desc_loop meth data (i + 1) vs (e1, attrs[i := s]) = Ret (e', attrs')"
    by (auto simp: not_le split: if_splits)
  note IH = Cons.IH[OF rest]
  have "attrs' ! i = s" using IH i Cons.prems(2) by auto
  with IH i s Cons.prems(2) show ?case
    by (auto simp: nth_list_update le_Suc_eq less_Suc_eq_le dest: le_neq_implies_less
        intro: Suc_leI split: if_splits)
qed auto

lemma rest_loop_attributes:
  "rest_loop ds i (e, attrs) = Ret (e', attrs') \<Longrightarrow> i + length ds \<le> length attrs \<Longrightarrow>
     length attrs' = length attrs \<and>
     (\<forall>j<length attrs. if i \<le> j \<and> j < i + length ds
        then stringifyEventData (ds ! (j - i)) = Ret (attrs' ! j) else attrs' ! j = attrs ! j)"
proof (induction ds arbitrary: i e attrs)
  case (Cons d ds)
  then obtain s where s: "stringifyEventData d = Ret s"
    and rest: "rest_loop ds (i + 1) (rest_value d e, attrs[i := s]) = Ret (e', attrs')"
    by auto
  from Cons.IH[OF rest] Cons.prems(2)
  have l: "length attrs' = length attrs"
    and IH: "\<And>j. j < length attrs \<Longrightarrow> if i + 1 \<le> j \<and> j < i + 1 + length ds
        then stringifyEventData (ds ! (j - (i + 1))) = Ret (attrs' ! j)
        else attrs' ! j = attrs[i := s] ! j"
    by auto
  have "if i \<le> j \<and> j < i + length (d # ds)
        then stringifyEventData ((d # ds) ! (j - i)) = Ret (attrs' ! j)
        else attrs' ! j = attrs ! j" if "j < length attrs" for j
  proof (cases "j = i")
    case True
    with IH[OF that] that s show ?thesis by simp
  next
    case False
    then show ?thesis using IH[OF that] by (auto simp: nth_Cons' split: if_splits)
  qed
  with l show ?case by blast
qed auto

lemma parseEventDescription_cases:
  assumes "parseEventDescription ev e = Ret e'"
  obtains e1 a1 e2 a2 where
    "desc_loop (evp_Method ev) (evp_Data ev) 0 (getValues (evp_Description ev))
       (e, replicate (length (evp_Data ev)) []) = Ret (e1, a1)"
    "rest_loop (drop (length (getValues (evp_Description ev))) (evp_Data ev))
       (length (getValues (evp_Description ev))) (e1, a1) = Ret (e2, a2)"
    "e' = (if length a2 > 0
           then e2\<lparr>e_sub := (e_sub e2)\<lparr>se_Additional := Some [''attributes'' \<mapsto> a2]\<rparr>\<rparr> else e2)"
  using assms by (fastforce simp: parseEventDescription_def Let_def)

lemma described_le_data:
  "parseEventDescription ev e = Ret e' \<Longrightarrow>
     length (getValues (evp_Description ev)) \<le> length (evp_Data ev)"
  by (erule parseEventDescription_cases) (auto dest!: desc_loop_attributes)

lemma parsed_attributes:
  assumes "parseEventDescription ev e = Ret e'" and "evp_Data ev \<noteq> []"
  shows "\<exists>attrs. se_Additional (e_sub e') = Some [''attributes'' \<mapsto> attrs] \<and>
    mapM_go stringifyEventData (evp_Data ev) = Ret attrs"
  using assms(1)
proof (rule parseEventDescription_cases)
  fix e1 a1 e2 a2
  let ?n = "length (getValues (evp_Description ev))"
  let ?d = "evp_Data ev"
  assume A: "desc_loop (evp_Method ev) ?d 0 (getValues (evp_Description ev))
       (e, replicate (length ?d) []) = Ret (e1, a1)"
    and B: "rest_loop (drop ?n ?d) ?n (e1, a1) = Ret (e2, a2)"
    and C: "e' = (if length a2 > 0
       then e2\<lparr>e_sub := (e_sub e2)\<lparr>se_Additional := Some [''attributes'' \<mapsto> a2]\<rparr>\<rparr> else e2)"
  note n = described_le_data[OF assms(1)]
  note a = desc_loop_attributes[OF A, simplified]
  have b: "length a2 = length a1 \<and> (\<forall>j<length a1. if ?n \<le> j \<and> j < ?n + length (drop ?n ?d)
        then stringifyEventData (drop ?n ?d ! (j - ?n)) = Ret (a2 ! j) else a2 ! j = a1 ! j)"
    by (rule rest_loop_attributes[OF B]) (use a n in simp)
  have "stringifyEventData (?d ! j) = Ret (a2 ! j)" if "j < length ?d" for j
    using that a b n by (cases "j < ?n") auto
  moreover have "length a2 = length ?d" using a b by simp
  ultimately have "mapM_go stringifyEventData ?d = Ret a2"
    by (simp add: mapM_go_eq_Ret list_all2_conv_all_nth)
  with C assms(2) \<open>length a2 = length ?d\<close> show ?thesis by auto
qed

subsection \<open>What the description contributes to the event\<close>

text \<open>
  The specification of the two loops: what one datum contributes to the account list, the
  balance list, the sender and the recipient, given its parameter name (\<open>None\<close> past the named
  ones).
\<close>

definition datum_accounts :: "string \<Rightarrow> string option \<Rightarrow> EventData \<Rightarrow> string list" where
  "datum_accounts meth p d =
     (if ed_Name d \<noteq> ''AccountId'' then []
      else case p of
        None \<Rightarrow> [ed_Value d]
      | Some v \<Rightarrow>
          if v \<in> set account_params \<and> ToLower meth \<noteq> ''endowed''
             \<or> v \<in> set recipient_params \<and> ToLower meth = ''delegated''
          then [ed_Value d] else [])"

definition datum_recipients :: "string \<Rightarrow> string option \<Rightarrow> EventData \<Rightarrow> string list" where
  "datum_recipients meth p d =
     (if ed_Name d \<noteq> ''AccountId'' then []
      else case p of
        None \<Rightarrow> []
      | Some v \<Rightarrow>
          if v \<in> set account_params \<and> ToLower meth = ''endowed''
             \<or> v \<in> set recipient_params \<and> ToLower meth \<noteq> ''delegated''
          then [ed_Value d] else [])"

definition datum_senders :: "string option \<Rightarrow> EventData \<Rightarrow> string list" where
  "datum_senders p d =
     (case p of None \<Rightarrow> [] | Some v \<Rightarrow> if v \<in> set sender_params then [ed_Value d] else [])"

definition datum_balances :: "string option \<Rightarrow> EventData \<Rightarrow> string list" where
  "datum_balances p d =
     (if ed_Name d \<noteq> ''Balance'' then []
      else case p of None \<Rightarrow> [ed_Value d]
           | Some v \<Rightarrow> if v \<in> set balance_params then [ed_Value d] else [])"

definition param_names :: "Event \<Rightarrow> string option list" where
  "param_names ev =
     (let vs = getValues (evp_Description ev)
      in map Some vs @ replicate (length (evp_Data ev) - length vs) None)"

definition collect :: "('p \<Rightarrow> 'd \<Rightarrow> 'x list) \<Rightarrow> 'p list \<Rightarrow> 'd list \<Rightarrow> 'x list" where
  "collect f ps ds = concat (map2 f ps ds)"

definition last_or :: "'a \<Rightarrow> 'a list \<Rightarrow> 'a" where
  "last_or x xs = (if xs = [] then x else last xs)"

lemma collect_simps [simp]:
  "collect f [] ds = []" "collect f (p # ps) (d # ds) = f p d @ collect f ps ds"
  by (simp_all add: collect_def)

lemma collect_append:
  "length ps = length ds \<Longrightarrow> collect f (ps @ qs) (ds @ es) = collect f ps ds @ collect f qs es"
  by (simp add: collect_def)

lemma last_or_append [simp]: "last_or (last_or x xs) ys = last_or x (xs @ ys)"
  by (simp add: last_or_def)

lemma last_or_simps [simp]: "last_or x [] = x" "last_or x [y] = y"
  by (simp_all add: last_or_def)

lemma account_params_disjoint:
  "v \<in> set account_params \<Longrightarrow>
     v \<notin> set sender_params \<and> v \<notin> set recipient_params \<and> v \<notin> set balance_params"
proof -
  have "list_all (\<lambda>v. \<not> List.member (sender_params @ recipient_params @ balance_params) v)
          account_params"
    by (simp add: account_params_def sender_params_def recipient_params_def balance_params_def)
  then show "v \<in> set account_params \<Longrightarrow> ?thesis" by (auto simp: list_all_iff)
qed

lemma other_params_disjoint:
  "v \<in> set sender_params \<Longrightarrow> v \<notin> set recipient_params \<and> v \<notin> set balance_params"
  "v \<in> set recipient_params \<Longrightarrow> v \<notin> set balance_params"
proof -
  have "list_all (\<lambda>v. \<not> List.member (recipient_params @ balance_params) v) sender_params"
    by (simp add: sender_params_def recipient_params_def balance_params_def)
  then show "v \<in> set sender_params \<Longrightarrow> v \<notin> set recipient_params \<and> v \<notin> set balance_params"
    by (auto simp: list_all_iff)
  have "list_all (\<lambda>v. \<not> List.member balance_params v) recipient_params"
    by (simp add: recipient_params_def balance_params_def)
  then show "v \<in> set recipient_params \<Longrightarrow> v \<notin> set balance_params"
    by (auto simp: list_all_iff)
qed

lemmas datum_defs = datum_accounts_def datum_recipients_def datum_senders_def datum_balances_def

text \<open>The four fields of an event that the description determines, as one tuple.\<close>

definition fields :: "event \<Rightarrow> string list \<times> string \<times> string \<times> string list" where
  "fields e = (e_accountIDs e, e_recipientAccountID e, e_senderAccountID e, e_values e)"

definition add_datum ::
  "string \<Rightarrow> string option list \<Rightarrow> EventData list \<Rightarrow>
   string list \<times> string \<times> string \<times> string list \<Rightarrow> string list \<times> string \<times> string \<times> string list" where
  "add_datum meth ps ds = (\<lambda>(as, r, s, vs).
     (as @ collect (datum_accounts meth) ps ds, last_or r (collect (datum_recipients meth) ps ds),
      last_or s (collect datum_senders ps ds), vs @ collect datum_balances ps ds))"

lemma add_datum_append:
  "length ps = length ds \<Longrightarrow>
     add_datum meth qs es (add_datum meth ps ds t) = add_datum meth (ps @ qs) (ds @ es) t"
  by (cases t) (simp add: add_datum_def collect_append)

lemma add_datum_Nil [simp]: "add_datum meth [] [] t = t"
  by (cases t) (simp add: add_datum_def)

lemma getAccountID_cases: "getAccountID d = (if ed_Name d = ''AccountId'' then Ret (ed_Value d)
    else Fail (Errorf ''unexpected data name %q expected %q value %q''
      [AStr (ed_Name d), AStr ''AccountId'', AStr (ed_Value d)]))"
  by (simp add: getAccountID_def getValue_def)

lemma getBalance_cases: "getBalance d = (if ed_Name d = ''Balance'' then Ret (ed_Value d)
    else Fail (Errorf ''unexpected data name %q expected %q value %q''
      [AStr (ed_Name d), AStr ''Balance'', AStr (ed_Value d)]))"
  by (simp add: getBalance_def getValue_def)

lemma desc_value_fields:
  assumes "desc_value meth v d e = Ret e'"
  shows "fields e' = add_datum meth [Some v] [d] (fields e)"
proof -
  consider (acc) "v \<in> set account_params" | (snd) "v \<in> set sender_params"
    | (rec) "v \<in> set recipient_params" | (bal) "v \<in> set balance_params"
    | (other) "v \<notin> set account_params" "v \<notin> set sender_params" "v \<notin> set recipient_params"
        "v \<notin> set balance_params"
    by blast
  then show ?thesis
  proof cases
    case acc
    with assms account_params_disjoint[OF acc] show ?thesis
      by (auto simp: desc_value_def fields_def add_datum_def datum_defs getAccountID_cases
          split: if_splits)
  next
    case snd
    with assms account_params_disjoint[of v] other_params_disjoint[of v] show ?thesis
      by (auto simp: desc_value_def fields_def add_datum_def datum_defs getAccountID_cases
          split: if_splits)
  next
    case rec
    with assms account_params_disjoint[of v] other_params_disjoint[of v] show ?thesis
      by (auto simp: desc_value_def fields_def add_datum_def datum_defs getAccountID_cases
          split: if_splits)
  next
    case bal
    with assms account_params_disjoint[of v] other_params_disjoint[of v] show ?thesis
      by (auto simp: desc_value_def fields_def add_datum_def datum_defs getBalance_cases
          split: if_splits)
  next
    case other
    with assms show ?thesis
      by (auto simp: desc_value_def fields_def add_datum_def datum_defs split: if_splits)
  qed
qed

lemma rest_value_fields: "fields (rest_value d e) = add_datum meth [None] [d] (fields e)"
  by (auto simp: rest_value_def fields_def add_datum_def datum_defs getAccountID_cases
      getBalance_cases)

lemma desc_loop_fields:
  "desc_loop meth data i vs (e, attrs) = Ret (e', attrs') \<Longrightarrow>
     fields e' = add_datum meth (map Some vs) (take (length vs) (drop i data)) (fields e)"
proof (induction vs arbitrary: i e attrs)
  case (Cons v vs)
  then obtain e1 s where i: "i < length data" and v: "desc_value meth v (data ! i) e = Ret e1"
    and rest: "desc_loop meth data (i + 1) vs (e1, attrs[i := s]) = Ret (e', attrs')"
    by (auto simp: not_le split: if_splits)
  have "take (length (v # vs)) (drop i data)
      = [data ! i] @ take (length vs) (drop (i + 1) data)"
    using i by (simp add: Cons_nth_drop_Suc[symmetric])
  moreover have "map Some (v # vs) = [Some v] @ map Some vs" by simp
  ultimately show ?case
    using Cons.IH[OF rest] desc_value_fields[OF v] add_datum_append[of "[Some v]" "[data ! i]"]
    by (simp only: length_Cons list.size)
qed simp

lemma rest_loop_fields:
  "rest_loop ds i (e, attrs) = Ret (e', attrs') \<Longrightarrow>
     fields e' = add_datum meth (replicate (length ds) None) ds (fields e)"
proof (induction ds arbitrary: i e attrs)
  case (Cons d ds)
  then obtain s where "rest_loop ds (i + 1) (rest_value d e, attrs[i := s]) = Ret (e', attrs')"
    by auto
  from Cons.IH[OF this] show ?case
    using rest_value_fields[of d e meth] add_datum_append[of "[None]" "[d]"] by simp
qed simp

lemma parsed_fields:
  assumes "parseEventDescription ev e = Ret e'"
  shows "fields e' = add_datum (evp_Method ev) (param_names ev) (evp_Data ev) (fields e)"
  using assms
proof (rule parseEventDescription_cases)
  fix e1 a1 e2 a2
  let ?vs = "getValues (evp_Description ev)" and ?d = "evp_Data ev" and ?m = "evp_Method ev"
  assume A: "desc_loop ?m ?d 0 ?vs (e, replicate (length ?d) []) = Ret (e1, a1)"
    and B: "rest_loop (drop (length ?vs) ?d) (length ?vs) (e1, a1) = Ret (e2, a2)"
    and C: "e' = (if length a2 > 0
       then e2\<lparr>e_sub := (e_sub e2)\<lparr>se_Additional := Some [''attributes'' \<mapsto> a2]\<rparr>\<rparr> else e2)"
  have "fields e' = fields e2" using C by (simp add: fields_def)
  moreover have "length (map Some ?vs) = length (take (length ?vs) ?d)"
    using described_le_data[OF assms] by simp
  ultimately show ?thesis
    using desc_loop_fields[OF A] rest_loop_fields[OF B, of ?m]
      add_datum_append[of "map Some ?vs" "take (length ?vs) ?d" ?m
        "replicate (length ?d - length ?vs) None" "drop (length ?vs) ?d"]
    by (simp add: param_names_def Let_def)
qed

subsection \<open>When the parsing succeeds\<close>

lemma desc_value_returns:
  "(\<exists>e'. desc_value meth v d e = Ret e') \<longleftrightarrow>
     (v \<in> set sender_params \<longrightarrow> ed_Name d = ''AccountId'')"
  using account_params_disjoint[of v]
  by (auto simp: desc_value_def getAccountID_cases getBalance_cases)

lemma desc_loop_returns:
  "(\<exists>st'. desc_loop meth data i vs (e, attrs) = Ret st') \<longleftrightarrow>
     (vs \<noteq> [] \<longrightarrow> i + length vs \<le> length data) \<and>
     (\<forall>j<length vs. ed_Value (data ! (i + j)) \<noteq> [] \<and>
        (vs ! j \<in> set sender_params \<longrightarrow> ed_Name (data ! (i + j)) = ''AccountId''))"
proof (induction vs arbitrary: i e attrs)
  case (Cons v vs)
  let ?d = "data ! i"
  have "(\<exists>st'. desc_loop meth data i (v # vs) (e, attrs) = Ret st') \<longleftrightarrow>
    i < length data \<and> (\<exists>e'. desc_value meth v ?d e = Ret e' \<and> (\<exists>s. stringifyEventData ?d = Ret s \<and>
      (\<exists>st'. desc_loop meth data (i + 1) vs (e', attrs[i := s]) = Ret st')))"
    by (simp del: split_paired_Ex add: not_le) blast
  also have "\<dots> \<longleftrightarrow> i < length data \<and> (v \<in> set sender_params \<longrightarrow> ed_Name ?d = ''AccountId'') \<and>
    ed_Value ?d \<noteq> [] \<and> (vs \<noteq> [] \<longrightarrow> i + 1 + length vs \<le> length data) \<and>
    (\<forall>j<length vs. ed_Value (data ! (i + 1 + j)) \<noteq> [] \<and>
        (vs ! j \<in> set sender_params \<longrightarrow> ed_Name (data ! (i + 1 + j)) = ''AccountId''))"
    unfolding Cons.IH stringify_Ret_iff[symmetric] desc_value_returns[symmetric, of v ?d meth e]
    by blast
  finally show ?case
    by (auto simp: less_Suc_eq_0_disj nth_Cons' simp del: desc_loop.simps)
qed simp

lemma rest_loop_returns:
  "(\<exists>st'. rest_loop ds i (e, attrs) = Ret st') \<longleftrightarrow> (\<forall>d\<in>set ds. ed_Value d \<noteq> [])"
proof (induction ds arbitrary: i e attrs)
  case (Cons d ds)
  then show ?case using stringify_returns[of d] stringify_Ret_nonempty[of d] by auto blast
qed simp

definition well_described :: "Event \<Rightarrow> bool" where
  "well_described ev \<longleftrightarrow>
     (let vs = getValues (evp_Description ev); data = evp_Data ev in
      length vs \<le> length data \<and> (\<forall>d\<in>set data. ed_Value d \<noteq> []) \<and>
      (\<forall>i<length vs. vs ! i \<in> set sender_params \<longrightarrow> ed_Name (data ! i) = ''AccountId''))"

lemma all_set_take_drop:
  assumes "n \<le> length xs"
  shows "(\<forall>x\<in>set xs. P x) \<longleftrightarrow> (\<forall>i<n. P (xs ! i)) \<and> (\<forall>x\<in>set (drop n xs). P x)"
proof -
  have "set xs = set (take n xs) \<union> set (drop n xs)"
    by (metis append_take_drop_id set_append)
  moreover have "(\<forall>x\<in>set (take n xs). P x) \<longleftrightarrow> (\<forall>i<n. P (xs ! i))"
    using assms by (auto simp: all_set_conv_all_nth)
  ultimately show ?thesis by (simp add: ball_Un)
qed

lemma parse_returns:
  "(\<exists>e'. parseEventDescription ev e = Ret e') \<longleftrightarrow> well_described ev"
proof -
  let ?vs = "getValues (evp_Description ev)" and ?d = "evp_Data ev" and ?m = "evp_Method ev"
  have rest: "(\<exists>st'. rest_loop ds i st = Ret st') \<longleftrightarrow> (\<forall>d\<in>set ds. ed_Value d \<noteq> [])" for ds i st
    by (cases st) (simp only: rest_loop_returns)
  have "(\<exists>e'. parseEventDescription ev e = Ret e') \<longleftrightarrow>
    (\<exists>st. desc_loop ?m ?d 0 ?vs (e, replicate (length ?d) []) = Ret st \<and>
      (\<exists>st'. rest_loop (drop (length ?vs) ?d) (length ?vs) st = Ret st'))"
    by (simp only: parseEventDescription_def Let_def case_prod_beta ex_bind_go go.inject
        ex_simps simp_thms)
  also have "\<dots> \<longleftrightarrow>
    (\<exists>st'. desc_loop ?m ?d 0 ?vs (e, replicate (length ?d) []) = Ret st') \<and>
    (\<forall>x\<in>set (drop (length ?vs) ?d). ed_Value x \<noteq> [])"
    unfolding rest by blast
  also have "\<dots> \<longleftrightarrow> well_described ev"
    unfolding desc_loop_returns well_described_def Let_def
    by (cases "length ?vs \<le> length ?d") (auto simp: all_set_take_drop[of "length ?vs" ?d])
  finally show ?thesis .
qed

subsection \<open>When the parsing panics\<close>

text \<open>
  What is wrong at place \<open>k\<close>: a named parameter without a datum, or a named sender that is no
  account, is an error; a datum with an empty value is a panic.
\<close>

definition misfit :: "Event \<Rightarrow> nat \<Rightarrow> bool" where
  "misfit ev k \<longleftrightarrow>
     (let vs = getValues (evp_Description ev); data = evp_Data ev in
      k < length vs \<and> (length data \<le> k \<or> vs ! k \<in> set sender_params \<and> ed_Name (data ! k) \<noteq> ''AccountId''))"

definition valueless :: "Event \<Rightarrow> nat \<Rightarrow> bool" where
  "valueless ev k \<longleftrightarrow> k < length (evp_Data ev) \<and> ed_Value (evp_Data ev ! k) = []"

lemma well_described_iff: "well_described ev \<longleftrightarrow> (\<forall>k. \<not> misfit ev k \<and> \<not> valueless ev k)"
proof
  assume "well_described ev"
  then show "\<forall>k. \<not> misfit ev k \<and> \<not> valueless ev k"
    by (auto simp: well_described_def misfit_def valueless_def Let_def)
next
  let ?vs = "getValues (evp_Description ev)" and ?d = "evp_Data ev"
  assume none: "\<forall>k. \<not> misfit ev k \<and> \<not> valueless ev k"
  from none[rule_format, of "length ?d"] have "length ?vs \<le> length ?d"
    by (auto simp: misfit_def Let_def)
  with none show "well_described ev"
    by (auto simp: well_described_def misfit_def valueless_def Let_def in_set_conv_nth)
qed

lemma desc_value_Fail_or_Ret:
  "desc_value meth v d e \<noteq> Panic p" "desc_value meth v d e \<noteq> Blocked"
  by (auto simp: desc_value_def getAccountID_cases getBalance_cases)

lemma stringify_cases:
  obtains (empty) "ed_Value d = []" "stringifyEventData d = Panic IndexOutOfRange"
  | (full) s where "ed_Value d \<noteq> []" "stringifyEventData d = Ret s"
  using stringify_panics[of d] stringify_returns[of d] by blast

lemma desc_loop_panics:
  "desc_loop meth data i vs (e, attrs) = Panic p \<longleftrightarrow> p = IndexOutOfRange \<and>
     (\<exists>j<length vs. i + j < length data \<and> ed_Value (data ! (i + j)) = [] \<and>
        (\<forall>l\<le>j. vs ! l \<in> set sender_params \<longrightarrow> ed_Name (data ! (i + l)) = ''AccountId''))"
  (is "?L i vs e attrs \<longleftrightarrow> ?p \<and> ?R i vs")
proof (induction vs arbitrary: i e attrs)
  case (Cons v vs)
  let ?d = "data ! i"
  have R: "?R i (v # vs) \<longleftrightarrow> i < length data \<and> (v \<in> set sender_params \<longrightarrow> ed_Name ?d = ''AccountId'') \<and>
      (ed_Value ?d = [] \<or> ?R (i + 1) vs)"
  proof
    assume "?R i (v # vs)"
    then obtain j where j: "j < length (v # vs)" "i + j < length data" "ed_Value (data ! (i + j)) = []"
      and l: "\<And>l. l \<le> j \<Longrightarrow> (v # vs) ! l \<in> set sender_params \<longrightarrow> ed_Name (data ! (i + l)) = ''AccountId''" by blast
    from l[of 0] l[of "Suc _"] j show "i < length data \<and> (v \<in> set sender_params \<longrightarrow> ed_Name ?d = ''AccountId'') \<and>
      (ed_Value ?d = [] \<or> ?R (i + 1) vs)" by (cases j) auto
  next
    assume r: "i < length data \<and> (v \<in> set sender_params \<longrightarrow> ed_Name ?d = ''AccountId'') \<and>
      (ed_Value ?d = [] \<or> ?R (i + 1) vs)"
    then consider "ed_Value ?d = []" | j where "j < length vs" "i + 1 + j < length data"
      "ed_Value (data ! (i + 1 + j)) = []"
      "\<forall>l\<le>j. vs ! l \<in> set sender_params \<longrightarrow> ed_Name (data ! (i + 1 + l)) = ''AccountId''" by blast
    then show "?R i (v # vs)"
    proof cases
      case 1
      with r show ?thesis by (intro exI[of _ 0]) simp
    next
      case (2 j)
      have "(v # vs) ! l \<in> set sender_params \<longrightarrow> ed_Name (data ! (i + l)) = ''AccountId''" if "l \<le> Suc j" for l
        using 2(4) r that by (cases l) simp_all
      with 2 show ?thesis by (intro exI[of _ "Suc j"]) simp
    qed
  qed
  show ?case
  proof (cases "i < length data \<and> (v \<in> set sender_params \<longrightarrow> ed_Name ?d = ''AccountId'')")
    case True
    with desc_value_returns[of meth v ?d e] obtain e' where e': "desc_value meth v ?d e = Ret e'" by blast
    show ?thesis unfolding R by (cases ?d rule: stringify_cases) (use True e' Cons.IH in auto)
  next
    case False
    have "\<exists>err. desc_value meth v ?d e = Fail err" if "i < length data"
      using False that desc_value_returns[of meth v ?d e] desc_value_Fail_or_Ret[of meth v ?d e]
      by (cases "desc_value meth v ?d e") auto
    with False show ?thesis unfolding R by auto
  qed
qed simp

lemma desc_loop_not_Blocked: "desc_loop meth data i vs st \<noteq> Blocked"
proof (induction vs arbitrary: i st)
  case (Cons v vs)
  show ?case
  proof (cases st)
    case (Pair e attrs)
    with Cons show ?thesis using desc_value_Fail_or_Ret[of meth v "data ! i" e]
      by (cases "data ! i" rule: stringify_cases; cases "desc_value meth v (data ! i) e") auto
  qed
qed simp

lemma rest_loop_panics:
  "\<exists>d\<in>set ds. ed_Value d = [] \<Longrightarrow> rest_loop ds i st = Panic IndexOutOfRange"
proof (induction ds arbitrary: i st)
  case (Cons d ds)
  obtain e attrs where "st = (e, attrs)" by (cases st)
  with Cons show ?case by (cases d rule: stringify_cases) auto
qed simp

subsection \<open>Amounts\<close>

definition amount_of :: "int \<Rightarrow> string \<Rightarrow> bigfloat \<Rightarrow> string \<Rightarrow> TransactionAmount go" where
  "amount_of exp currency divider v = bind_go (getAmount v exp currency divider) deref"

text \<open>Amount number \<open>i\<close> under the key \<open>strconv.Itoa(i)\<close>.\<close>

definition keyed_by_index :: "(string \<rightharpoonup> 'a) \<Rightarrow> 'a list \<Rightarrow> bool" where
  "keyed_by_index m xs \<longleftrightarrow>
     (\<forall>j<length xs. m (show_nat j) = Some (xs ! j)) \<and> dom m = show_nat ` {..<length xs}"

lemma amount_loop_result:
  "amount_loop exp cur dv len i vs (m, single) = Ret (m', single') \<Longrightarrow>
     \<exists>as. mapM_go (amount_of exp cur dv) vs = Ret as \<and>
       (\<forall>j<length as. m' (show_nat (i + j)) = Some (as ! j)) \<and>
       (\<forall>k. (\<forall>j<length as. k \<noteq> show_nat (i + j)) \<longrightarrow> m' k = m k) \<and>
       single' = (if len = 1 \<and> i = 0 \<and> as \<noteq> [] then hd as else single)"
proof (induction vs arbitrary: i m single)
  case (Cons v vs)
  then obtain a where a: "amount_of exp cur dv v = Ret a"
    and rest: "amount_loop exp cur dv len (i + 1) vs
        (m(show_nat i \<mapsto> a), if len = 1 \<and> i = 0 then a else single) = Ret (m', single')"
    by (auto simp: amount_of_def)
  from Cons.IH[OF rest] obtain as where as: "mapM_go (amount_of exp cur dv) vs = Ret as"
    and at: "\<And>j. j < length as \<Longrightarrow> m' (show_nat (i + 1 + j)) = Some (as ! j)"
    and off: "\<And>k. \<forall>j<length as. k \<noteq> show_nat (i + 1 + j) \<Longrightarrow> m' k = (m(show_nat i \<mapsto> a)) k"
    and s: "single' = (if len = 1 \<and> i = 0 then a else single)"
    by auto
  have "m' (show_nat i) = Some a" using off[of "show_nat i"] by simp
  then have "m' (show_nat (i + j)) = Some ((a # as) ! j)" if "j < length (a # as)" for j
    using at[of "j - 1"] that by (cases j) auto
  moreover have "m' k = m k" if k: "\<forall>j<length (a # as). k \<noteq> show_nat (i + j)" for k
  proof -
    have "k \<noteq> show_nat i" and "\<forall>j<length as. k \<noteq> show_nat (i + 1 + j)"
      using k[rule_format, of 0] k[rule_format, of "Suc _"] by auto
    then show ?thesis using off[of k] by simp
  qed
  ultimately show ?case using a as s by (intro exI[of _ "a # as"]) auto
qed simp

lemma amount_loop_returns:
  "(\<exists>st'. amount_loop exp cur dv len i vs st = Ret st') \<longleftrightarrow>
     (\<forall>v\<in>set vs. \<exists>a. amount_of exp cur dv v = Ret a)"
proof (induction vs arbitrary: i st)
  case (Cons v vs)
  obtain m s where "st = (m, s)" by (cases st)
  with Cons show ?case by (auto simp: amount_of_def) blast+
qed simp

lemma appendAmounts_result:
  assumes "appendAmounts exp cur dv e = Ret e'"
  shows "\<exists>as m. mapM_go (amount_of exp cur dv) (e_values e) = Ret as \<and>
    e_amount e' = (if length as = 1 then hd as else e_amount e) \<and>
    (as \<noteq> [] \<longrightarrow> keyed_by_index m as) \<and>
    e_sub e' = (if as = [] then e_sub e else (e_sub e)\<lparr>se_Amount := Some m\<rparr>) \<and>
    fields e' = fields e \<and> e_signerID e' = e_signerID e \<and> e_eventType e' = e_eventType e"
proof (cases "e_values e = []")
  case False
  with assms obtain m s where
      loop: "amount_loop exp cur dv (length (e_values e)) 0 (e_values e) (Map.empty, e_amount e)
        = Ret (m, s)"
    and e': "e' = e\<lparr>e_sub := (e_sub e)\<lparr>se_Amount := Some m\<rparr>, e_amount := s\<rparr>"
    by (auto simp: appendAmounts_def)
  from amount_loop_result[OF loop] obtain as where
      as: "mapM_go (amount_of exp cur dv) (e_values e) = Ret as"
    and at: "\<forall>j<length as. m (show_nat j) = Some (as ! j)"
    and off: "\<And>k. \<forall>j<length as. k \<noteq> show_nat j \<Longrightarrow> m k = None"
    and s: "s = (if length (e_values e) = 1 \<and> as \<noteq> [] then hd as else e_amount e)"
    by auto
  have l: "length as = length (e_values e)" by (rule mapM_go_length[OF as])
  have "dom m = show_nat ` {..<length as}" using at off by (fastforce simp: dom_def)
  with at have "keyed_by_index m as" by (simp add: keyed_by_index_def)
  with False as s l e' show ?thesis
    by (intro exI[of _ as] exI[of _ m]) (auto simp: fields_def)
qed (use assms in \<open>auto simp: appendAmounts_def\<close>)

subsection \<open>The mapped event\<close>

text \<open>What the description does not touch.\<close>

definition frame :: "event \<Rightarrow> SubsetEvent \<times> string \<times> TransactionAmount" where
  "frame e = (e_sub e, e_signerID e, e_amount e)"

lemma error_no_param:
  "''error'' \<notin> set account_params" "''error'' \<notin> set sender_params"
  "''error'' \<notin> set recipient_params" "''error'' \<notin> set balance_params"
  by (simp_all add: account_params_def sender_params_def recipient_params_def balance_params_def)

lemma desc_value_frame:
  "desc_value meth v d e = Ret e' \<Longrightarrow> frame e' = frame e \<and>
     e_eventType e' = (if v = ''error'' then [''error''] else e_eventType e)"
  using error_no_param
  by (auto simp: desc_value_def frame_def getAccountID_cases getBalance_cases split: if_splits)

lemma desc_loop_frame:
  "desc_loop meth data i vs (e, attrs) = Ret (e', attrs') \<Longrightarrow> frame e' = frame e \<and>
     e_eventType e' = (if ''error'' \<in> set vs then [''error''] else e_eventType e)"
proof (induction vs arbitrary: i e attrs)
  case (Cons v vs)
  then obtain e1 s where v: "desc_value meth v (data ! i) e = Ret e1"
    and rest: "desc_loop meth data (i + 1) vs (e1, attrs[i := s]) = Ret (e', attrs')"
    by (auto simp: not_le split: if_splits)
  from Cons.IH[OF rest] desc_value_frame[OF v] show ?case by auto
qed simp

lemma rest_value_frame [simp]:
  "frame (rest_value d e) = frame e" "e_eventType (rest_value d e) = e_eventType e"
  by (auto simp: rest_value_def frame_def getAccountID_cases getBalance_cases)

lemma rest_loop_frame:
  "rest_loop ds i (e, attrs) = Ret (e', attrs') \<Longrightarrow>
     frame e' = frame e \<and> e_eventType e' = e_eventType e"
  by (induction ds arbitrary: i e attrs) fastforce+

lemma parsed_frame:
  assumes "parseEventDescription ev e = Ret e'"
  shows "(\<exists>x. e_sub e' = (e_sub e)\<lparr>se_Additional := x\<rparr>) \<and>
    e_signerID e' = e_signerID e \<and> e_amount e' = e_amount e \<and>
    e_eventType e' = (if ''error'' \<in> set (getValues (evp_Description ev)) then [''error'']
                      else e_eventType e)"
  using assms
proof (rule parseEventDescription_cases)
  fix e1 a1 e2 a2
  let ?vs = "getValues (evp_Description ev)" and ?d = "evp_Data ev" and ?m = "evp_Method ev"
  assume A: "desc_loop ?m ?d 0 ?vs (e, replicate (length ?d) []) = Ret (e1, a1)"
    and B: "rest_loop (drop (length ?vs) ?d) (length ?vs) (e1, a1) = Ret (e2, a2)"
    and C: "e' = (if length a2 > 0
       then e2\<lparr>e_sub := (e_sub e2)\<lparr>se_Additional := Some [''attributes'' \<mapsto> a2]\<rparr>\<rparr> else e2)"
  have X: "\<exists>x. e_sub e = (e_sub e)\<lparr>se_Additional := x\<rparr>"
    by (rule exI[of _ "se_Additional (e_sub e)"]) simp
  show ?thesis
    using C X desc_loop_frame[OF A] rest_loop_frame[OF B] by (auto simp: frame_def)
qed

text \<open>The node map of accounts, sender, signer and recipient; nil when there is none of them.\<close>

definition put_if :: "bool \<Rightarrow> 'k \<Rightarrow> 'v \<Rightarrow> ('k \<rightharpoonup> 'v) \<Rightarrow> ('k \<rightharpoonup> 'v)" where
  "put_if b k v m = (if b then m(k \<mapsto> v) else m)"

definition event_nodes ::
  "string list \<Rightarrow> string \<Rightarrow> string \<Rightarrow> string \<Rightarrow> (string \<rightharpoonup> AccountID list) option" where
  "event_nodes as r sd sig =
     (if as = [] \<and> sd = [] \<and> r = [] \<and> sig = [] then None
      else Some (put_if (r \<noteq> []) ''recipient'' [r] (put_if (sig \<noteq> []) ''signer'' [sig]
             (put_if (sd \<noteq> []) ''sender'' [sd] (put_if (as \<noteq> []) ''versions'' as Map.empty)))))"

definition transfers_of :: "string \<Rightarrow> TransactionAmount \<Rightarrow> EventTransfer list" where
  "transfers_of acc a = (if acc = [] then [] else [\<lparr>et_Account = acc, et_Amounts = [a]\<rparr>])"

lemmas append_defs = appendSender_def appendRecipient_def appendSigner_def node_put_def
  event_transfer_def

lemma appendAccounts_result:
  assumes "se_Node (e_sub e) = None" "se_Sender (e_sub e) = []" "se_Recipient (e_sub e) = []"
    "se_Transfers (e_sub e) = None"
  shows "e_sub (appendAccounts e) = (e_sub e)
    \<lparr>se_Node := event_nodes (e_accountIDs e) (e_recipientAccountID e) (e_senderAccountID e)
                 (e_signerID e),
     se_Sender := transfers_of (e_senderAccountID e) (e_amount e),
     se_Recipient := transfers_of (e_recipientAccountID e) (e_amount e),
     se_Transfers := (if e_recipientAccountID e = [] then None
        else Some [e_recipientAccountID e \<mapsto>
               transfers_of (e_recipientAccountID e) (e_amount e)])\<rparr>"
proof -
  obtain i t m n c a x d where s: "e_sub e = \<lparr>se_ID = i, se_Type = t, se_Module = m, se_Sender = [],
      se_Recipient = [], se_Node = None, se_Nonce = n, se_Completion = c, se_Amount = a,
      se_Transfers = None, se_Error = x, se_Additional = d\<rparr>"
    using assms by (cases "e_sub e") auto
  show ?thesis
    by (cases "e_accountIDs e = []"; cases "e_senderAccountID e = []";
        cases "e_recipientAccountID e = []"; cases "e_signerID e = []")
      (simp_all add: s appendAccounts_def Let_def append_defs event_nodes_def transfers_of_def
        put_if_def)
qed

lemma appendAccounts_eventType [simp]: "e_eventType (appendAccounts e) = e_eventType e"
  by (simp add: appendAccounts_def Let_def append_defs)

lemma getEvent_returns_iff_parts:
  "(\<exists>s. getEvent ev dv exp cur signer = Ret s) \<longleftrightarrow>
     (\<exists>e1. parseEventDescription ev zero_event = Ret e1 \<and>
        (\<forall>v\<in>set (e_values e1). \<exists>a. amount_of exp cur dv v = Ret a))"
proof -
  have am: "(\<exists>e2. appendAmounts exp cur dv e = Ret e2) \<longleftrightarrow>
      (\<forall>v\<in>set (e_values e). \<exists>a. amount_of exp cur dv v = Ret a)" for e
    using amount_loop_returns[of exp cur dv "length (e_values e)" 0 "e_values e"]
    by (cases "e_values e = []") (simp_all only: appendAmounts_def if_True if_False ex_bind_go
        case_prod_beta go.inject ex_simps simp_thms list.set ball_simps)
  have "e_values (if b then handleError x sg e else e) = e_values e" for b x sg e
    by (simp add: handleError_def)
  then show ?thesis
    by (simp only: getEvent_def ex_bind_go Let_def am go.inject ex_simps simp_thms)
qed

lemma getEvent_parts:
  assumes "getEvent ev dv exp cur signer = Ret s"
  obtains e1 e2 where "parseEventDescription ev zero_event = Ret e1"
    "appendAmounts exp cur dv
       (if evp_Error ev \<noteq> [] then handleError (evp_Error ev) signer e1 else e1) = Ret e2"
    "s = (e_sub (appendAccounts e2))\<lparr>se_Module := evp_Section ev,
           se_Type := ToLower (evp_Method ev) # e_eventType e2\<rparr>"
  using assms by (auto simp: getEvent_def Let_def)

lemma handleError_parts:
  "e_sub (if b then handleError x sg e else e) =
     (if b then (e_sub e)\<lparr>se_Error := Some x\<rparr> else e_sub e)"
  "e_signerID (if b then handleError x sg e else e) = (if b then sg else e_signerID e)"
  "fields (if b then handleError x sg e else e) = fields e"
  "e_amount (if b then handleError x sg e else e) = e_amount e"
  "e_eventType (if b then handleError x sg e else e) = e_eventType e"
  by (simp_all add: handleError_def fields_def)

lemma zero_event_simps [simp]:
  "fields zero_event = ([], [], [], [])" "e_sub zero_event = zero_subset_event"
  "e_signerID zero_event = []" "e_amount zero_event = zero_amount" "e_eventType zero_event = []"
  by (simp_all add: zero_event_def fields_def)

lemma parsed_no_data:
  assumes "parseEventDescription ev e = Ret e'" and "evp_Data ev = []"
  shows "e_sub e' = e_sub e"
  using assms(1)
proof (rule parseEventDescription_cases)
  have "getValues (evp_Description ev) = []" using described_le_data[OF assms(1)] assms(2) by simp
  moreover fix e1 a1 e2 a2
  assume "desc_loop (evp_Method ev) (evp_Data ev) 0 (getValues (evp_Description ev))
       (e, replicate (length (evp_Data ev)) []) = Ret (e1, a1)"
    and "rest_loop (drop (length (getValues (evp_Description ev))) (evp_Data ev))
       (length (getValues (evp_Description ev))) (e1, a1) = Ret (e2, a2)"
    and "e' = (if length a2 > 0
       then e2\<lparr>e_sub := (e_sub e2)\<lparr>se_Additional := Some [''attributes'' \<mapsto> a2]\<rparr>\<rparr> else e2)"
  ultimately show ?thesis using assms(2) by simp
qed

lemma parsed_event:
  assumes p: "parseEventDescription ev zero_event = Ret e1"
  shows "\<exists>attrs. mapM_go stringifyEventData (evp_Data ev) = Ret attrs \<and>
    e_sub e1 = zero_subset_event\<lparr>se_Additional :=
      (if evp_Data ev = [] then None else Some [''attributes'' \<mapsto> attrs])\<rparr> \<and>
    e_signerID e1 = [] \<and> e_amount e1 = zero_amount \<and>
    e_eventType e1 =
      (if ''error'' \<in> set (getValues (evp_Description ev)) then [''error''] else []) \<and>
    fields e1 = add_datum (evp_Method ev) (param_names ev) (evp_Data ev) ([], [], [], [])"
proof (cases "evp_Data ev = []")
  case True
  with parsed_no_data[OF p True] parsed_frame[OF p] parsed_fields[OF p]
  show ?thesis by (simp add: zero_subset_event_def)
next
  case False
  from parsed_attributes[OF p this] parsed_frame[OF p] parsed_fields[OF p] False
  show ?thesis by auto
qed

definition single_amount :: "TransactionAmount list \<Rightarrow> TransactionAmount" where
  "single_amount as = (if length as = 1 then hd as else zero_amount)"

lemma getEvent_record:
  assumes "getEvent ev dv exp cur signer = Ret s"
    and "add_datum (evp_Method ev) (param_names ev) (evp_Data ev) ([], [], [], []) = (as, r, sd, vs)"
  shows "\<exists>amts attrs m.
    mapM_go (amount_of exp cur dv) vs = Ret amts \<and> (amts \<noteq> [] \<longrightarrow> keyed_by_index m amts) \<and>
    mapM_go stringifyEventData (evp_Data ev) = Ret attrs \<and>
    s = \<lparr>se_ID = [],
         se_Type = ToLower (evp_Method ev) #
           (if ''error'' \<in> set (getValues (evp_Description ev)) then [''error''] else []),
         se_Module = evp_Section ev,
         se_Sender = transfers_of sd (single_amount amts),
         se_Recipient = transfers_of r (single_amount amts),
         se_Node = event_nodes as r sd (if evp_Error ev \<noteq> [] then signer else []),
         se_Nonce = [], se_Completion = None,
         se_Amount = (if amts = [] then None else Some m),
         se_Transfers =
           (if r = [] then None else Some [r \<mapsto> transfers_of r (single_amount amts)]),
         se_Error = (if evp_Error ev \<noteq> [] then Some (evp_Error ev) else None),
         se_Additional =
           (if evp_Data ev = [] then None else Some [''attributes'' \<mapsto> attrs])\<rparr>"
proof -
  from assms(1) obtain e1 e2 where p: "parseEventDescription ev zero_event = Ret e1"
    and am: "appendAmounts exp cur dv
       (if evp_Error ev \<noteq> [] then handleError (evp_Error ev) signer e1 else e1) = Ret e2"
    and s: "s = (e_sub (appendAccounts e2))\<lparr>se_Module := evp_Section ev,
           se_Type := ToLower (evp_Method ev) # e_eventType e2\<rparr>"
    by (rule getEvent_parts)
  from parsed_event[OF p] obtain attrs where
      attrs: "mapM_go stringifyEventData (evp_Data ev) = Ret attrs"
    and x: "e_sub e1 = zero_subset_event\<lparr>se_Additional :=
        (if evp_Data ev = [] then None else Some [''attributes'' \<mapsto> attrs])\<rparr>"
    and fr: "e_signerID e1 = []" "e_amount e1 = zero_amount" "e_eventType e1 =
      (if ''error'' \<in> set (getValues (evp_Description ev)) then [''error''] else [])"
    and f1: "fields e1 = (as, r, sd, vs)"
    unfolding assms(2) by blast
  from f1 have v1: "e_values (if evp_Error ev \<noteq> [] then handleError (evp_Error ev) signer e1 else e1) = vs"
    by (simp add: fields_def handleError_def)
  from appendAmounts_result[OF am] obtain amts m where
      amts: "mapM_go (amount_of exp cur dv) vs = Ret amts"
    and single: "e_amount e2 = single_amount amts"
    and key: "amts \<noteq> [] \<Longrightarrow> keyed_by_index m amts"
    and sub2: "e_sub e2 = (let s1 = (if evp_Error ev \<noteq> [] then (e_sub e1)\<lparr>se_Error := Some (evp_Error ev)\<rparr>
        else e_sub e1) in if amts = [] then s1 else s1\<lparr>se_Amount := Some m\<rparr>)"
    and f2: "fields e2 = (as, r, sd, vs)"
    and sg: "e_signerID e2 = (if evp_Error ev \<noteq> [] then signer else [])"
    and ty: "e_eventType e2 = e_eventType e1"
    unfolding v1 handleError_parts single_amount_def fr f1 Let_def by blast
  have acc: "e_accountIDs e2 = as" "e_recipientAccountID e2 = r" "e_senderAccountID e2 = sd"
    using f2 by (simp_all add: fields_def)
  have "se_Node (e_sub e2) = None" "se_Sender (e_sub e2) = []" "se_Recipient (e_sub e2) = []"
    "se_Transfers (e_sub e2) = None"
    by (simp_all add: sub2 x Let_def zero_subset_event_def)
  note res = appendAccounts_result[OF this, unfolded acc sg single]
  show ?thesis
    using amts attrs key
    by (intro exI[of _ amts] exI[of _ attrs] exI[of _ m])
      (simp add: s res sub2 x Let_def zero_subset_event_def ty fr)
qed

text \<open>
  A successful transfer under its real description, the event every balance transfer emits.
\<close>

definition transfer_event :: "u64 \<Rightarrow> string \<Rightarrow> string \<Rightarrow> string \<Rightarrow> Event" where
  "transfer_event i src dst v =
     \<lparr>evp_Index = i, evp_Section = ''balances'', evp_Method = ''Transfer'',
      evp_Description = ''[ Transfer succeeded. '' @ [CHR 0x5C] @ ''[from, to, value'' @ [CHR 0x5C] @ '']]'',
      evp_Error = [], evp_Raw = ''{}'',
      evp_Data = [\<lparr>ed_Name = ''AccountId'', ed_Value = src\<rparr>, \<lparr>ed_Name = ''AccountId'', ed_Value = dst\<rparr>,
                  \<lparr>ed_Name = ''Balance'', ed_Value = v\<rparr>]\<rparr>"

lemmas desc_eval = getValues_def desc_match_here_def desc_class_def TrimSpace_def is_space_def

lemma transfer_values:
  "getValues (evp_Description (transfer_event i src dst v)) = [''from'', ''to'', ''value'']"
  by (simp add: transfer_event_def desc_eval Let_def)

lemma transfer_datum:
  "add_datum ''Transfer'' (param_names (transfer_event i src dst v))
     (evp_Data (transfer_event i src dst v)) ([], [], [], []) = ([], dst, src, [v])"
  unfolding param_names_def transfer_values Let_def
  by (simp add: transfer_event_def add_datum_def datum_defs account_params_def sender_params_def
      recipient_params_def balance_params_def ToLower_def lower_char_def lower_table_def)

lemma amount_of_returns:
  "(\<exists>a. amount_of exp cur (FFin sg p m e) v = Ret a) \<longleftrightarrow> parse_int 10 v \<noteq> None"
proof -
  have "\<exists>q. countCurrencyAmount exp v (FFin sg p m e) = Ret q" if "parse_int 10 v = Some n" for n
  proof -
    from Float_SetString_finite[OF that] obtain f where "Float_SetString v = Some f"
      and "\<forall>b. f \<noteq> FInf b" by blast
    then show ?thesis by (cases f) (auto simp: countCurrencyAmount_def Let_def)
  qed
  moreover have "v \<noteq> []" if "parse_int 10 v = Some n" for n
    using that by (auto simp: parse_int_def)
  ultimately show ?thesis
    by (cases "parse_int 10 v"; cases "v = []")
      (force simp: amount_of_def getAmount_def BigInt_SetString_def)+
qed

lemma amount_of_cases:
  assumes "amount_of exp cur dv v = Ret a"
  shows "ta_Numeric a = parse_int 10 v \<and> parse_int 10 v \<noteq> None \<and> ta_Currency a = cur \<and>
    ta_Exp a = word_of_int exp \<and>
    (\<exists>q. countCurrencyAmount exp v dv = Ret q \<and> ta_Text a = Float_Text q @ cur)"
  using assms
  by (auto simp: amount_of_def getAmount_def BigInt_SetString_def split: if_splits option.splits)

lemma transfer_datum_method:
  "add_datum (evp_Method (transfer_event i src dst v)) (param_names (transfer_event i src dst v))
     (evp_Data (transfer_event i src dst v)) ([], [], [], []) = ([], dst, src, [v])"
proof -
  have "evp_Method (transfer_event i src dst v) = ''Transfer''" by (simp add: transfer_event_def)
  then show ?thesis using transfer_datum by simp
qed

lemma transfer_returns:
  assumes "src \<noteq> []" "dst \<noteq> []" "amount_of exp cur dv v = Ret a"
  shows "\<exists>s. getEvent (transfer_event i src dst v) dv exp cur signer = Ret s"
proof -
  let ?ev = "transfer_event i src dst v"
  have "v \<noteq> []" using amount_of_cases[OF assms(3)] by (auto simp: parse_int_def)
  with assms have "well_described ?ev"
    unfolding well_described_def Let_def transfer_values
    by (auto simp: transfer_event_def less_Suc_eq sender_params_def)
  then obtain e1 where e1: "parseEventDescription ?ev zero_event = Ret e1"
    using parse_returns by blast
  with parsed_fields[OF e1] have "fields e1 = ([], dst, src, [v])"
    by (simp add: transfer_datum_method)
  then have "e_values e1 = [v]" by (simp add: fields_def)
  with e1 assms(3) show ?thesis
    using getEvent_returns_iff_parts[of ?ev dv exp cur signer] by auto
qed

text \<open>
  C7: An event that maps without error is exactly this record: accounts, recipient, sender and
  balances are those the data contribute under their parameter names, in their order; every
  balance becomes an amount under its index; sender and recipient carry the amount when it is
  the only one; every datum is stringified at its place in the attributes; a failed event
  carries its message and its signer.
\<close>

theorem getEvent_result:
  assumes "getEvent ev dv exp cur signer = Ret s"
    and "add_datum (evp_Method ev) (param_names ev) (evp_Data ev) ([], [], [], []) = (as, r, sd, vs)"
  shows "\<exists>amts attrs m.
    mapM_go (amount_of exp cur dv) vs = Ret amts \<and> (amts \<noteq> [] \<longrightarrow> keyed_by_index m amts) \<and>
    mapM_go stringifyEventData (evp_Data ev) = Ret attrs \<and>
    s = \<lparr>se_ID = [],
         se_Type = ToLower (evp_Method ev) #
           (if ''error'' \<in> set (getValues (evp_Description ev)) then [''error''] else []),
         se_Module = evp_Section ev,
         se_Sender = transfers_of sd (single_amount amts),
         se_Recipient = transfers_of r (single_amount amts),
         se_Node = event_nodes as r sd (if evp_Error ev \<noteq> [] then signer else []),
         se_Nonce = [], se_Completion = None,
         se_Amount = (if amts = [] then None else Some m),
         se_Transfers =
           (if r = [] then None else Some [r \<mapsto> transfers_of r (single_amount amts)]),
         se_Error = (if evp_Error ev \<noteq> [] then Some (evp_Error ev) else None),
         se_Additional =
           (if evp_Data ev = [] then None else Some [''attributes'' \<mapsto> attrs])\<rparr>"
  by (rule getEvent_record[OF assms])

theorem getEvent_result_witness:
  "\<exists>s amts attrs m. getEvent (transfer_event 1 ''a'' ''b'' ''62'') (FFin False 53 1 0) 10 ''DOT'' ''a'' = Ret s \<and>
     mapM_go (amount_of 10 ''DOT'' (FFin False 53 1 0)) [''62''] = Ret amts \<and> keyed_by_index m amts \<and>
     mapM_go stringifyEventData (evp_Data (transfer_event 1 ''a'' ''b'' ''62'')) = Ret attrs \<and>
     se_Node s = event_nodes [] ''b'' ''a'' [] \<and> se_Amount s = Some m"
proof -
  have "parse_int 10 ''62'' \<noteq> None" by (simp add: parse_eval)
  then obtain a where a: "amount_of 10 ''DOT'' (FFin False 53 1 0) ''62'' = Ret a"
    using amount_of_returns by blast
  obtain s where s: "getEvent (transfer_event 1 ''a'' ''b'' ''62'') (FFin False 53 1 0) 10 ''DOT'' ''a'' = Ret s"
    using transfer_returns[OF _ _ a, of "''a''" "''b''"] by blast
  have "evp_Error (transfer_event 1 ''a'' ''b'' ''62'') = []" by (simp add: transfer_event_def)
  with s getEvent_result[OF s transfer_datum_method] show ?thesis by (auto simp: a)
qed

text \<open>
  A balance transfer maps to an event whose sender and recipient are the two accounts, both
  with the transferred amount as their only amount, and with no other account.
\<close>

theorem transfer_mapped:
  assumes "src \<noteq> []" "dst \<noteq> []" "amount_of exp cur dv v = Ret a"
  shows "\<exists>s m. getEvent (transfer_event i src dst v) dv exp cur signer = Ret s \<and>
    se_Sender s = [\<lparr>et_Account = src, et_Amounts = [a]\<rparr>] \<and>
    se_Recipient s = [\<lparr>et_Account = dst, et_Amounts = [a]\<rparr>] \<and>
    se_Node s = Some [''sender'' \<mapsto> [src], ''recipient'' \<mapsto> [dst]] \<and>
    se_Transfers s = Some [dst \<mapsto> [\<lparr>et_Account = dst, et_Amounts = [a]\<rparr>]] \<and>
    se_Amount s = Some m \<and> m ''0'' = Some a \<and> dom m = {''0''} \<and> se_Error s = None"
proof -
  let ?ev = "transfer_event i src dst v"
  note dat = transfer_datum_method[of i src dst v]
  from transfer_returns[OF assms] obtain s where s: "getEvent ?ev dv exp cur signer = Ret s" ..
  have "evp_Error ?ev = []" "show_nat 0 = ''0''"
    by (simp_all add: transfer_event_def show_nat.simps digit_char_def)
  with getEvent_record[OF s dat] assms show ?thesis
    by (intro exI[of _ s]) (auto simp: s transfers_of_def single_amount_def event_nodes_def
        put_if_def keyed_by_index_def)
qed

theorem transfer_mapped_witness:
  "\<exists>s a. getEvent (transfer_event 1 ''a'' ''b'' ''62'') (FFin False 53 1 0) 10 ''DOT'' ''a'' = Ret s \<and>
     se_Sender s = [\<lparr>et_Account = ''a'', et_Amounts = [a]\<rparr>] \<and> ta_Numeric a = Some 62"
proof -
  have "parse_int 10 ''62'' = Some 62" by (simp add: parse_eval)
  moreover from this obtain a where a: "amount_of 10 ''DOT'' (FFin False 53 1 0) ''62'' = Ret a"
    using amount_of_returns[of 10 "''DOT''" False 53 1 0 "''62''"] by auto
  ultimately have "ta_Numeric a = Some 62" using amount_of_cases[OF a] by simp
  with transfer_mapped[OF _ _ a, of "''a''" "''b''" 1 "''a''"] show ?thesis by auto
qed

lemma getEvent_returns:
  "(\<exists>s. getEvent ev (FFin sg p m e) exp cur signer = Ret s) \<longleftrightarrow>
     well_described ev \<and>
     list_all (\<lambda>v. parse_int 10 v \<noteq> None) (collect datum_balances (param_names ev) (evp_Data ev))"
proof -
  have "e_values e1 = collect datum_balances (param_names ev) (evp_Data ev)"
    if "parseEventDescription ev zero_event = Ret e1" for e1
    using parsed_fields[OF that] by (auto simp: fields_def add_datum_def zero_event_def)
  then show ?thesis
    unfolding getEvent_returns_iff_parts amount_of_returns list_all_iff
    using parse_returns[of ev zero_event] by auto
qed

lemma amount_of_total:
  assumes "v \<noteq> []"
  shows "amount_of exp cur (FFin sg p m e) v \<noteq> Panic x" "amount_of exp cur (FFin sg p m e) v \<noteq> Blocked"
proof -
  have "(\<exists>a. amount_of exp cur (FFin sg p m e) v = Ret a) \<or> (\<exists>err. amount_of exp cur (FFin sg p m e) v = Fail err)"
  proof (cases "parse_int 10 v")
    case None
    with assms show ?thesis by (simp add: amount_of_def getAmount_def BigInt_SetString_def)
  next
    case (Some n)
    then show ?thesis unfolding amount_of_returns by simp
  qed
  then show "amount_of exp cur (FFin sg p m e) v \<noteq> Panic x" "amount_of exp cur (FFin sg p m e) v \<noteq> Blocked" by auto
qed

lemma amount_loop_total:
  "\<forall>v\<in>set vs. v \<noteq> [] \<Longrightarrow> amount_loop exp cur (FFin sg p m e) len i vs st \<noteq> Panic x \<and>
     amount_loop exp cur (FFin sg p m e) len i vs st \<noteq> Blocked"
proof (induction vs arbitrary: i st)
  case (Cons v vs)
  obtain mm single where st: "st = (mm, single)" by (cases st)
  have "amount_loop exp cur (FFin sg p m e) len i (v # vs) st =
    bind_go (amount_of exp cur (FFin sg p m e) v) (\<lambda>a. amount_loop exp cur (FFin sg p m e) len (i + 1) vs
       (mm(show_nat i \<mapsto> a), if len = 1 \<and> i = 0 then a else single))"
    by (simp add: st amount_of_def bind_go_assoc)
  with Cons amount_of_total[of v exp cur sg p m e] show ?case
    by (cases "amount_of exp cur (FFin sg p m e) v") simp_all
qed simp

text \<open>The first place where something is wrong decides.\<close>

lemma first_wrong:
  fixes bad empty :: "nat \<Rightarrow> bool"
  shows "\<not> ((\<forall>k. \<not> bad k \<and> \<not> empty k) \<and> ok) \<and> \<not> (\<exists>k. empty k \<and> (\<forall>j\<le>k. \<not> bad j)) \<longleftrightarrow>
    (\<exists>k. bad k \<and> (\<forall>j<k. \<not> empty j)) \<or> (\<forall>k. \<not> bad k \<and> \<not> empty k) \<and> \<not> ok"
proof (cases "\<exists>k. bad k \<or> empty k")
  case True
  then obtain k where k: "bad k \<or> empty k" and least: "\<forall>j<k. \<not> (bad j \<or> empty j)"
    using exists_least_iff[of "\<lambda>k. bad k \<or> empty k"] by blast
  have "(\<exists>k. empty k \<and> (\<forall>j\<le>k. \<not> bad j)) \<longleftrightarrow> \<not> bad k"
    using k least by (metis le_less_linear order.order_iff_strict)
  moreover have "(\<exists>k. bad k \<and> (\<forall>j<k. \<not> empty j)) \<longleftrightarrow> bad k"
    using k least by (metis linorder_neqE_nat)
  ultimately show ?thesis using True by blast
qed blast

text \<open>Once the description is parsed no amount panics, for no value is empty.\<close>

lemma getEvent_panics_in_parse:
  "getEvent ev (FFin sg p m e) exp cur signer = Panic x \<longleftrightarrow> parseEventDescription ev zero_event = Panic x"
  "getEvent ev (FFin sg p m e) exp cur signer = Blocked \<longleftrightarrow> parseEventDescription ev zero_event = Blocked"
proof -
  have no: "appendAmounts exp cur (FFin sg p m e) (if b then handleError err signer e1 else e1) \<noteq> Panic y \<and>
      appendAmounts exp cur (FFin sg p m e) (if b then handleError err signer e1 else e1) \<noteq> Blocked"
    if e1: "parseEventDescription ev zero_event = Ret e1" for e1 b err y
  proof -
    have "well_described ev" using parse_returns e1 by blast
    then have "\<forall>d\<in>set (evp_Data ev). ed_Value d \<noteq> []" by (simp add: well_described_def Let_def)
    moreover have "e_values e1 = collect datum_balances (param_names ev) (evp_Data ev)"
      using parsed_fields[OF e1] by (auto simp: fields_def add_datum_def zero_event_def)
    ultimately have "\<forall>v\<in>set (e_values e1). v \<noteq> []"
      by (auto simp: collect_def datum_balances_def dest!: set_zip_rightD split: if_splits option.splits)
    moreover have "e_values (if b then handleError err signer e1 else e1) = e_values e1"
      by (simp add: handleError_def)
    ultimately show ?thesis using amount_loop_total[of "e_values e1" exp cur sg p m e "length (e_values e1)" 0]
      by (auto simp: appendAmounts_def bind_go_eq_Panic bind_go_eq_Blocked)
  qed
  let ?am = "\<lambda>e1. appendAmounts exp cur (FFin sg p m e)
    (if evp_Error ev \<noteq> [] then handleError (evp_Error ev) signer e1 else e1)"
  have "getEvent ev (FFin sg p m e) exp cur signer = Panic x \<longleftrightarrow> parseEventDescription ev zero_event = Panic x \<or>
      (\<exists>e1. parseEventDescription ev zero_event = Ret e1 \<and> ?am e1 = Panic x)"
    by (simp only: getEvent_def Let_def bind_go_eq_Panic go.distinct simp_thms)
  then show "getEvent ev (FFin sg p m e) exp cur signer = Panic x \<longleftrightarrow> parseEventDescription ev zero_event = Panic x"
    using no by blast
  have "getEvent ev (FFin sg p m e) exp cur signer = Blocked \<longleftrightarrow> parseEventDescription ev zero_event = Blocked \<or>
      (\<exists>e1. parseEventDescription ev zero_event = Ret e1 \<and> ?am e1 = Blocked)"
    by (simp only: getEvent_def Let_def bind_go_eq_Blocked go.distinct simp_thms)
  then show "getEvent ev (FFin sg p m e) exp cur signer = Blocked \<longleftrightarrow> parseEventDescription ev zero_event = Blocked"
    using no by blast
qed

lemma valueless_drop:
  "(\<exists>x\<in>set (drop n (evp_Data ev)). ed_Value x = []) \<longleftrightarrow> (\<exists>k\<ge>n. valueless ev k)"
proof
  assume "\<exists>x\<in>set (drop n (evp_Data ev)). ed_Value x = []"
  then obtain i where "i < length (drop n (evp_Data ev))" "ed_Value (drop n (evp_Data ev) ! i) = []"
    by (metis in_set_conv_nth)
  then have "valueless ev (n + i)" by (simp add: valueless_def)
  then show "\<exists>k\<ge>n. valueless ev k" by (intro exI[of _ "n + i"]) simp
next
  assume "\<exists>k\<ge>n. valueless ev k"
  then obtain k where k: "n \<le> k" "valueless ev k" by blast
  then have "drop n (evp_Data ev) ! (k - n) = evp_Data ev ! k" "k - n < length (drop n (evp_Data ev))"
    by (auto simp: valueless_def)
  then have "evp_Data ev ! k \<in> set (drop n (evp_Data ev))" by (metis nth_mem)
  with k(2) show "\<exists>x\<in>set (drop n (evp_Data ev)). ed_Value x = []" by (auto simp: valueless_def)
qed

text \<open>An empty value before any misfit is met by one of the two loops.\<close>

lemma panic_places:
  "(\<exists>j<length (getValues (evp_Description ev)). j < length (evp_Data ev) \<and> ed_Value (evp_Data ev ! j) = [] \<and>
      (\<forall>l\<le>j. getValues (evp_Description ev) ! l \<in> set sender_params \<longrightarrow> ed_Name (evp_Data ev ! l) = ''AccountId'')) \<or>
   ((getValues (evp_Description ev) \<noteq> [] \<longrightarrow> length (getValues (evp_Description ev)) \<le> length (evp_Data ev)) \<and>
    (\<forall>j<length (getValues (evp_Description ev)). ed_Value (evp_Data ev ! j) \<noteq> [] \<and>
      (getValues (evp_Description ev) ! j \<in> set sender_params \<longrightarrow> ed_Name (evp_Data ev ! j) = ''AccountId''))) \<and>
   (\<exists>k\<ge>length (getValues (evp_Description ev)). valueless ev k) \<longleftrightarrow>
   (\<exists>k. valueless ev k \<and> (\<forall>j\<le>k. \<not> misfit ev j))"
  (is "?named \<or> ?ok \<and> ?past \<longleftrightarrow> ?r")
proof -
  let ?vs = "getValues (evp_Description ev)" and ?d = "evp_Data ev"
  show ?thesis
  proof
    assume "?named \<or> ?ok \<and> (\<exists>k\<ge>length ?vs. valueless ev k)"
    then show "\<exists>k. valueless ev k \<and> (\<forall>j\<le>k. \<not> misfit ev j)"
    proof
      assume ?named
      then obtain k where "k < length ?vs" "valueless ev k"
        "\<forall>l\<le>k. ?vs ! l \<in> set sender_params \<longrightarrow> ed_Name (?d ! l) = ''AccountId''"
        by (auto simp: valueless_def)
      then show ?thesis by (intro exI[of _ k]) (auto simp: misfit_def valueless_def Let_def)
    next
      assume "?ok \<and> (\<exists>k\<ge>length ?vs. valueless ev k)"
      then obtain k where "valueless ev k" and r: ?ok by blast
      moreover from r have "\<not> misfit ev j" for j by (auto simp: misfit_def Let_def)
      ultimately show ?thesis by blast
    qed
  next
    assume "\<exists>k. valueless ev k \<and> (\<forall>j\<le>k. \<not> misfit ev j)"
    then obtain k where k: "k < length ?d" "ed_Value (?d ! k) = []" and fit: "\<And>j. j \<le> k \<Longrightarrow> \<not> misfit ev j"
      by (auto simp: valueless_def)
    have sender: "?vs ! l \<in> set sender_params \<longrightarrow> ed_Name (?d ! l) = ''AccountId''"
      if "l \<le> k" "l < length ?vs" for l using fit[OF that(1)] that(2) by (auto simp: misfit_def Let_def)
    show "?named \<or> ?ok \<and> (\<exists>k\<ge>length ?vs. valueless ev k)"
    proof (cases "\<exists>j<length ?vs. j \<le> k \<and> ed_Value (?d ! j) = []")
      case True
      then obtain j where "j < length ?vs" "j \<le> k" "ed_Value (?d ! j) = []" by blast
      with k(1) sender have ?named by (intro exI[of _ j]) auto
      then show ?thesis ..
    next
      case False
      with k(2) have "length ?vs \<le> k" by (meson linorder_not_less order_refl)
      with False k sender show ?thesis by (auto simp: valueless_def)
    qed
qed
  qed

lemma parse_panics:
  "parseEventDescription ev e = Panic p \<longleftrightarrow>
     p = IndexOutOfRange \<and> (\<exists>k. valueless ev k \<and> (\<forall>j\<le>k. \<not> misfit ev j))"
  "parseEventDescription ev e \<noteq> Blocked"
proof -
  let ?vs = "getValues (evp_Description ev)" and ?d = "evp_Data ev"
  let ?desc = "desc_loop (evp_Method ev) ?d 0 ?vs (e, replicate (length ?d) [])"
  let ?rest = "\<lambda>st. rest_loop (drop (length ?vs) ?d) (length ?vs) st"
  let ?in = "\<exists>j<length ?vs. j < length ?d \<and> ed_Value (?d ! j) = [] \<and>
    (\<forall>l\<le>j. ?vs ! l \<in> set sender_params \<longrightarrow> ed_Name (?d ! l) = ''AccountId'')"
  have split: "parseEventDescription ev e = Panic p \<longleftrightarrow> ?desc = Panic p \<or> (\<exists>st. ?desc = Ret st \<and> ?rest st = Panic p)"
    "parseEventDescription ev e = Blocked \<longleftrightarrow> ?desc = Blocked \<or> (\<exists>st. ?desc = Ret st \<and> ?rest st = Blocked)"
    by (auto simp: parseEventDescription_def Let_def bind_go_eq_Panic bind_go_eq_Blocked)
  have rest: "?rest st = Panic q \<longleftrightarrow> q = IndexOutOfRange \<and> (\<exists>x\<in>set (drop (length ?vs) ?d). ed_Value x = [])"
    "?rest st \<noteq> Blocked" for st q
  proof -
    have "?rest st = Panic IndexOutOfRange \<and> (\<exists>x\<in>set (drop (length ?vs) ?d). ed_Value x = []) \<or>
      (\<exists>st'. ?rest st = Ret st') \<and> \<not> (\<exists>x\<in>set (drop (length ?vs) ?d). ed_Value x = [])"
      using rest_loop_panics[of "drop (length ?vs) ?d" "length ?vs" st]
        rest_loop_returns[of "drop (length ?vs) ?d" "length ?vs" "fst st" "snd st"] unfolding prod.collapse by blast
    then show "?rest st = Panic q \<longleftrightarrow> q = IndexOutOfRange \<and> (\<exists>x\<in>set (drop (length ?vs) ?d). ed_Value x = [])"
      "?rest st \<noteq> Blocked" by auto
  qed
  show "parseEventDescription ev e \<noteq> Blocked"
    unfolding split using desc_loop_not_Blocked rest(2) by blast
  have desc: "?desc = Panic p \<longleftrightarrow> p = IndexOutOfRange \<and> ?in"
    using desc_loop_panics[of "evp_Method ev" ?d 0 ?vs e "replicate (length ?d) []" p] by simp
  have ret: "(\<exists>st. ?desc = Ret st) \<longleftrightarrow> (?vs \<noteq> [] \<longrightarrow> length ?vs \<le> length ?d) \<and>
      (\<forall>j<length ?vs. ed_Value (?d ! j) \<noteq> [] \<and>
        (?vs ! j \<in> set sender_params \<longrightarrow> ed_Name (?d ! j) = ''AccountId''))"
    using desc_loop_returns[of "evp_Method ev" ?d 0 ?vs e "replicate (length ?d) []"] by simp
  have "parseEventDescription ev e = Panic p \<longleftrightarrow> p = IndexOutOfRange \<and>
      (?in \<or> (\<exists>st. ?desc = Ret st) \<and> (\<exists>k\<ge>length ?vs. valueless ev k))"
    unfolding split desc rest(1) valueless_drop by blast
  also have "\<dots> \<longleftrightarrow> p = IndexOutOfRange \<and> (\<exists>k. valueless ev k \<and> (\<forall>j\<le>k. \<not> misfit ev j))"
    unfolding ret panic_places ..
  finally show "parseEventDescription ev e = Panic p \<longleftrightarrow>
     p = IndexOutOfRange \<and> (\<exists>k. valueless ev k \<and> (\<forall>j\<le>k. \<not> misfit ev j))" .
qed

text \<open>
  C34: How the mapping of an event ends under a finite divider other than zero, by the first place
  where something is wrong. A parameter
  without a datum or a named sender that is no account is a misfit, and an empty value a panic: an
  event with neither and with integers as balances maps; it panics exactly when an empty value
  comes before any misfit, its own place included; and it fails exactly when a misfit comes before
  or at the first empty value, or with nothing wrong when some balance is no integer.
\<close>

theorem getEvent_outcomes:
  "((\<exists>s. getEvent ev (FFin sg p m e) exp cur signer = Ret s) \<longleftrightarrow>
      (\<forall>k. \<not> misfit ev k \<and> \<not> valueless ev k) \<and>
      list_all (\<lambda>v. parse_int 10 v \<noteq> None) (collect datum_balances (param_names ev) (evp_Data ev))) \<and>
   ((\<exists>err. getEvent ev (FFin sg p m e) exp cur signer = Fail err) \<longleftrightarrow>
      (\<exists>k. misfit ev k \<and> (\<forall>j<k. \<not> valueless ev j)) \<or>
      (\<forall>k. \<not> misfit ev k \<and> \<not> valueless ev k) \<and>
      \<not> list_all (\<lambda>v. parse_int 10 v \<noteq> None) (collect datum_balances (param_names ev) (evp_Data ev))) \<and>
   (\<forall>x. getEvent ev (FFin sg p m e) exp cur signer = Panic x \<longleftrightarrow>
      x = IndexOutOfRange \<and> (\<exists>k. valueless ev k \<and> (\<forall>j\<le>k. \<not> misfit ev j))) \<and>
   getEvent ev (FFin sg p m e) exp cur signer \<noteq> Blocked"
  (is "(?ret \<longleftrightarrow> ?none \<and> ?ints) \<and> (?fail \<longleftrightarrow> ?mis \<or> ?none \<and> \<not> ?ints) \<and> ?panics \<and> ?run \<noteq> Blocked")
proof -
  let ?emp = "\<exists>k. valueless ev k \<and> (\<forall>j\<le>k. \<not> misfit ev j)"
  have ret: "?ret \<longleftrightarrow> ?none \<and> ?ints" unfolding getEvent_returns well_described_iff ..
  have panic: "?run = Panic x \<longleftrightarrow> x = IndexOutOfRange \<and> ?emp" for x
    unfolding getEvent_panics_in_parse(1) by (rule parse_panics(1))
  have blocked: "?run \<noteq> Blocked" unfolding getEvent_panics_in_parse(2) by (rule parse_panics(2))
  have "?fail \<longleftrightarrow> \<not> ?ret \<and> \<not> ?emp" using panic blocked by (cases ?run) auto
  also have "\<dots> \<longleftrightarrow> ?mis \<or> ?none \<and> \<not> ?ints" unfolding ret by (rule first_wrong)
  finally show ?thesis using ret panic blocked by blast
qed

theorem getEvent_outcomes_witness:
  "getEvent (transfer_event 1 ''a'' [] ''62'') (FFin False 53 1 0) 10 ''DOT'' ''a'' = Panic IndexOutOfRange \<and>
   (\<exists>err. getEvent (transfer_event 1 ''a'' ''b'' ''x'') (FFin False 53 1 0) 10 ''DOT'' ''a'' = Fail err)"
proof
  let ?ev = "transfer_event 1 ''a'' [] ''62''"
  have "valueless ?ev 1 \<and> (\<forall>j\<le>1. \<not> misfit ?ev j)"
    unfolding misfit_def valueless_def Let_def transfer_values
    by (auto simp: transfer_event_def le_Suc_eq sender_params_def)
  then show "getEvent ?ev (FFin False 53 1 0) 10 ''DOT'' ''a'' = Panic IndexOutOfRange"
    using getEvent_outcomes[of ?ev False 53 1 0 10 "''DOT''" "''a''"] by blast
next
  let ?ev = "transfer_event 1 ''a'' ''b'' ''x''"
  have "\<not> misfit ?ev k \<and> \<not> valueless ?ev k" for k
    unfolding misfit_def valueless_def Let_def transfer_values
    by (auto simp: transfer_event_def sender_params_def nth_Cons' split: if_splits)
  moreover have "collect datum_balances (param_names ?ev) (evp_Data ?ev) = [''x'']"
    using transfer_datum[of 1 "''a''" "''b''" "''x''"] by (simp add: add_datum_def)
  moreover have "parse_int 10 ''x'' = None" by (simp add: parse_eval)
  ultimately have "(\<forall>k. \<not> misfit ?ev k \<and> \<not> valueless ?ev k) \<and>
      \<not> list_all (\<lambda>v. parse_int 10 v \<noteq> None) (collect datum_balances (param_names ?ev) (evp_Data ?ev))" by simp
  then show "\<exists>err. getEvent ?ev (FFin False 53 1 0) 10 ''DOT'' ''a'' = Fail err"
    using getEvent_outcomes[of ?ev False 53 1 0 10 "''DOT''" "''a''"] by blast
qed

subsection \<open>The events of an extrinsic, one per index\<close>

interpretation event_index: seen_keys isEventUnique dom Map.empty
  by unfold_locales (auto simp: isEventUnique_def split: option.splits)

definition finish_event :: "go_time \<Rightarrow> u64 \<Rightarrow> string \<Rightarrow> Event \<Rightarrow> SubsetEvent \<Rightarrow> SubsetEvent" where
  "finish_event time height nonce e sub =
     sub\<lparr>se_ID := dash_id height (sint (evp_Index e)), se_Completion := Some time, se_Nonce := nonce\<rparr>"

lemma parseEvents_loop_mapM:
  "parseEvents_loop dv time exp height cur nonce signer m es =
     fmap_go (\<lambda>subs. (subs, map evp_Raw (keep_unique isEventUnique evp_Index m es)))
       (mapM_go (\<lambda>e. fmap_go (finish_event time height nonce e) (getEvent e dv exp cur signer))
          (keep_unique isEventUnique evp_Index m es))"
proof (induction es arbitrary: m)
  case (Cons e es)
  obtain b m' where u: "isEventUnique m (evp_Index e) = (b, m')" by fastforce
  show ?case
  proof (cases b)
    case True
    then show ?thesis
      by (cases "getEvent e dv exp cur signer")
        (simp_all add: u Cons.IH case_prod_beta flip: finish_event_def)
  next
    case False
    then show ?thesis by (simp add: u Cons.IH)
  qed
qed simp

lemma parseEvents_eq:
  "parseEvents es dv time exp height cur nonce signer =
     fmap_go (\<lambda>subs. (subs, map evp_Raw (firsts evp_Index {} es)))
       (mapM_go (\<lambda>e. fmap_go (finish_event time height nonce e) (getEvent e dv exp cur signer))
          (firsts evp_Index {} es))"
  by (simp add: parseEvents_def parseEvents_loop_mapM event_index.keep_unique_nothing)

text \<open>
  The events of an extrinsic are mapped one by one, each index once (its first occurrence),
  in order; the first event that fails or panics decides the result of the whole list.
\<close>

theorem parseEvents_mapM:
  "parseEvents es dv time exp height cur nonce signer =
     fmap_go (\<lambda>subs. (subs, map evp_Raw (firsts evp_Index {} es)))
       (mapM_go (\<lambda>e. fmap_go (finish_event time height nonce e) (getEvent e dv exp cur signer))
          (firsts evp_Index {} es))"
  by (rule parseEvents_eq)

lemma parseEvents_parts:
  assumes "parseEvents es dv time exp height cur nonce signer = Ret (subs, raws)"
  shows "raws = map evp_Raw (firsts evp_Index {} es) \<and>
    mapM_go (\<lambda>e. fmap_go (finish_event time height nonce e) (getEvent e dv exp cur signer))
      (firsts evp_Index {} es) = Ret subs"
  using assms by (auto simp: parseEvents_eq)

text \<open>
  C27: The identifiers of the mapped events are height and index, one for each index of the
  input, and no two events of an extrinsic share one.
\<close>

theorem parseEvents_ids:
  assumes "parseEvents es dv time exp height cur nonce signer = Ret (subs, raws)"
  shows "distinct (map se_ID subs) \<and>
    map se_ID subs = map (\<lambda>e. dash_id height (sint (evp_Index e))) (firsts evp_Index {} es) \<and>
    set (map se_ID subs) = (\<lambda>e. dash_id height (sint (evp_Index e))) ` set es"
proof -
  let ?f = "firsts evp_Index {} es" and ?id = "\<lambda>i. dash_id height (sint (i :: u64))"
  have ids: "map se_ID subs = map (\<lambda>e. ?id (evp_Index e)) ?f"
    using parseEvents_parts[OF assms]
    by (auto elim!: mapM_go_map simp: finish_event_def)
  have "inj ?id" by (auto intro!: injI intro: signed_word_eqI simp: dash_id_inj)
  then have "distinct (map ?id (map evp_Index ?f))"
    by (subst distinct_map) (auto simp: distinct_firsts intro: inj_on_subset)
  moreover have "?id ` evp_Index ` set ?f = ?id ` evp_Index ` set es"
    by (simp only: set_firsts_keys) simp
  ultimately show ?thesis by (simp add: ids comp_def image_image)
qed

theorem parseEvents_ids_witness:
  "\<exists>subs raws. parseEvents [transfer_event 1 ''a'' ''b'' ''62'', transfer_event 1 ''c'' ''d'' ''7'',
       transfer_event 2 ''a'' ''b'' ''62''] (FFin False 53 1 0) (0, 0) 10 7 ''DOT'' ''4'' ''a'' = Ret (subs, raws) \<and>
     distinct (map se_ID subs) \<and> map se_ID subs = [dash_id 7 1, dash_id 7 2]"
proof -
  let ?es = "[transfer_event 1 ''a'' ''b'' ''62'', transfer_event 1 ''c'' ''d'' ''7'',
       transfer_event 2 ''a'' ''b'' ''62'']"
  have f: "firsts evp_Index {} ?es = [transfer_event 1 ''a'' ''b'' ''62'', transfer_event 2 ''a'' ''b'' ''62'']"
    by (simp add: transfer_event_def)
  have "parse_int 10 ''62'' \<noteq> None" by (simp add: parse_eval)
  then obtain a where a: "amount_of 10 ''DOT'' (FFin False 53 1 0) ''62'' = Ret a"
    using amount_of_returns by blast
  have each: "\<exists>s. fmap_go (finish_event (0, 0) 7 ''4'' e) (getEvent e (FFin False 53 1 0) 10 ''DOT'' ''a'') = Ret s"
    if "e \<in> set (firsts evp_Index {} ?es)" for e
    using that transfer_returns[OF _ _ a, of "''a''" "''b''"] unfolding f by auto
  obtain subs where "mapM_go (\<lambda>e. fmap_go (finish_event (0, 0) 7 ''4'' e)
      (getEvent e (FFin False 53 1 0) 10 ''DOT'' ''a'')) (firsts evp_Index {} ?es) = Ret subs"
    using mapM_go_total[OF each] ..
  then have p: "parseEvents ?es (FFin False 53 1 0) (0, 0) 10 7 ''DOT'' ''4'' ''a''
      = Ret (subs, map evp_Raw (firsts evp_Index {} ?es))"
    by (simp only: parseEvents_eq fmap_go.simps)
  have "evp_Index (transfer_event i x y v) = i" for i x y v by (simp add: transfer_event_def)
  with p parseEvents_ids[OF p] show ?thesis unfolding f by auto
qed

end
