(* ===== verification/Transaction_Mapper.thy ===== *)
theory Transaction_Mapper
  imports Event_Mapper
begin

section \<open>The transaction mapper (mapper/transaction\_mapper.go)\<close>

text \<open>
  From the extrinsics of a decoded block to the engine's transactions: one per hash, with the
  time, the fee (partial fee plus tip) and the mapped events of the extrinsic. Metrics are not
  modelled.
\<close>

definition chain_version :: string where
  "chain_version = ''0.0.1''"

text \<open>
  \<open>new(big.Int).Exp(10, precision, nil)\<close> is 1 for a precision that is not positive;
  \<open>Int64()\<close> keeps the low 64 bits (the documentation leaves the value open when it does not fit).
\<close>

definition initExpDivider :: "int \<Rightarrow> bigfloat" where
  "initExpDivider precision = Float_of_int64 (sint (word_of_int (10 ^ nat precision) :: u64))"

record TransactionMapper =
  tm_exp :: int
  tm_div :: bigfloat
  tm_chainID :: string
  tm_currency :: string

definition NewTransactionMapper :: "int \<Rightarrow> string \<Rightarrow> string \<Rightarrow> TransactionMapper" where
  "NewTransactionMapper exp chainID currency =
     \<lparr>tm_exp = exp, tm_div = initExpDivider exp, tm_chainID = chainID, tm_currency = currency\<rparr>"

subsection \<open>Time\<close>

definition parseInt :: "string \<Rightarrow> int go" where
  "parseInt str = map_err (Wrapf ''Could not parse transaction time: %w'' []) (Atoi str)"

definition parseTime :: "string \<Rightarrow> go_time go" where
  "parseTime timeStr =
     (if CHR ''.'' \<in> set timeStr
      then (case Split (CHR ''.'') timeStr of
              s0 # s1 # _ \<Rightarrow>
                bind_go (parseInt s1) (\<lambda>nsec. bind_go (parseInt s0) (\<lambda>sec. Ret (time_Unix sec nsec)))
            | _ \<Rightarrow> bind_go (parseInt timeStr) (\<lambda>sec. Ret (time_Unix sec 0)))
      else bind_go (parseInt timeStr) (\<lambda>sec. Ret (time_Unix sec 0)))"

subsection \<open>Fee\<close>

definition parse_fee_part :: "string \<Rightarrow> string \<Rightarrow> int option go" where
  "parse_fee_part msg str =
     (if str = [] then Ret None
      else (case BigInt_SetString str 10 of
              None \<Rightarrow> Fail (Errorf msg [AStr str])
            | Some n \<Rightarrow> Ret (Some n)))"

definition getTransactionFee ::
  "TransactionMapper \<Rightarrow> string \<Rightarrow> string \<Rightarrow> TransactionAmount list go" where
  "getTransactionFee tm partialFeeStr tipStr =
     (if partialFeeStr = [] \<and> tipStr = [] then Ret []
      else
        bind_go (parse_fee_part ''Could not parse transaction partial fee %q'' partialFeeStr) (\<lambda>fee.
        bind_go (parse_fee_part ''Could not parse transaction tip %q'' tipStr) (\<lambda>tip.
          let amount = (case tip of
                None \<Rightarrow> (case fee of None \<Rightarrow> 0 | Some f \<Rightarrow> f)
              | Some t \<Rightarrow> (case fee of None \<Rightarrow> t | Some f \<Rightarrow> f + t)) in
        bind_go (map_err (\<lambda>_. Errors_New ''Could not count currency amount'')
                   (countCurrencyAmount (tm_exp tm) (show_int amount) (tm_div tm))) (\<lambda>textAmount.
          Ret (if amount = 0 then []
               else [\<lparr>ta_Text = Float_Text textAmount @ tm_currency tm,
                      ta_Currency = tm_currency tm, ta_Numeric = Some amount,
                      ta_Exp = word_of_int (tm_exp tm)\<rparr>])))))"

subsection \<open>The extrinsics of a block\<close>

type_synonym hash_set = "string \<rightharpoonup> unit"

definition isTransactionUnique :: "hash_set \<Rightarrow> string \<Rightarrow> bool \<times> hash_set" where
  "isTransactionUnique m h = (case m h of None \<Rightarrow> (True, m(h \<mapsto> ())) | Some _ \<Rightarrow> (False, m))"

text \<open>The body of the loop for an extrinsic that was not met before.\<close>

definition map_extrinsic :: "TransactionMapper \<Rightarrow> BlockPb \<Rightarrow> ExtrinsicPb \<Rightarrow> Transaction go" where
  "map_extrinsic tm blk t =
     bind_go (parseTime (ex_Time t)) (\<lambda>time.
     bind_go (deref (blk_Header blk)) (\<lambda>header.
     bind_go (parseEvents (ex_Events t) (tm_div tm) time (tm_exp tm) (hd_Height header)
                (tm_currency tm) (show_u64 (ex_Nonce t)) (ex_Signer t)) (\<lambda>(subs, logs).
     bind_go (getTransactionFee tm (ex_PartialFee t) (ex_Tip t)) (\<lambda>fee.
       Ret \<lparr>tx_Hash = ex_Hash t, tx_BlockHash = blk_BlockHash blk,
            tx_Height = hd_Height header, tx_Epoch = ex_Epoch t, tx_ChainID = tm_chainID tm,
            tx_Time = time, tx_Fee = fee, tx_Version = chain_version,
            tx_Events = [\<lparr>te_ID = [], te_Kind = ''Extrinsic'', te_Module = ToLower (ex_Section t),
                          te_Type = [ToLower (ex_Method t)], te_Sub = subs\<rparr>],
            tx_HasErrors = (\<not> ex_IsSuccess t), tx_Raw = ex_Raw t,
            tx_RawLog = ''['' @ Join '','' logs @ '']''\<rparr>))))"

fun extrinsics_loop ::
  "TransactionMapper \<Rightarrow> BlockPb \<Rightarrow> hash_set \<Rightarrow> ExtrinsicPb list \<Rightarrow> Transaction list go" where
  "extrinsics_loop tm blk m [] = Ret []"
| "extrinsics_loop tm blk m (t # ts) =
     (case isTransactionUnique m (ex_Hash t) of (new, m') \<Rightarrow>
        if \<not> new then extrinsics_loop tm blk m' ts
        else bind_go (map_extrinsic tm blk t) (\<lambda>tx.
               fmap_go ((#) tx) (extrinsics_loop tm blk m' ts)))"

definition TransactionsMapper :: "TransactionMapper \<Rightarrow> BlockResponse option \<Rightarrow> Transaction list go" where
  "TransactionsMapper tm blockRes =
     (case blockRes of
        None \<Rightarrow> Fail (Errors_New ''Block response is empty'')
      | Some r \<Rightarrow> bind_go (deref (br_Block r)) (\<lambda>blk.
          extrinsics_loop tm blk Map.empty (blk_Extrinsics blk)))"

subsection \<open>Time and fee\<close>

lemma parseInt_Ret [simp]:
  "parseInt s = Ret i \<longleftrightarrow> parse_int 10 s = Some i \<and> - (2 ^ 63) \<le> i \<and> i < 2 ^ 63"
  by (simp add: parseInt_def Atoi_eq_Ret)

text \<open>
  A time with a fraction is the time of its whole seconds plus as many nanoseconds as the
  fraction's digits say when read as a number: the fraction .001 is one nanosecond.
\<close>

theorem parseTime_fraction:
  assumes "CHR ''.'' \<notin> set a" "CHR ''.'' \<notin> set f" "Atoi a = Ret sec" "Atoi f = Ret nsec"
  shows "parseTime (a @ ''.'' @ f) = Ret (sec + nsec div 1000000000, nsec mod 1000000000)"
proof -
  have "Split (CHR ''.'') (a @ ''.'' @ f) = [a, f]"
    using assms(1,2) by (simp add: Split_append_sep Split_no_sep)
  then show ?thesis using assms(3,4) by (simp add: parseTime_def parseInt_def time_Unix_def)
qed

theorem parseTime_fraction_witness: "parseTime ''1623058068.001'' = Ret (1623058068, 1)"
proof -
  have "Atoi ''1623058068'' = Ret 1623058068" "Atoi ''001'' = Ret 1"
    by (simp_all add: Atoi_def parse_eval)
  then show ?thesis
    using parseTime_fraction[of "''1623058068''" "''001''" 1623058068 1] by simp
qed

text \<open>The value a fee part stands for.\<close>

definition fee_part :: "string \<Rightarrow> int option" where
  "fee_part s = (if s = [] then Some 0 else parse_int 10 s)"

lemma parse_fee_part_Ret:
  "parse_fee_part msg s = Ret p \<longleftrightarrow>
     (if s = [] then p = None else \<exists>n. parse_int 10 s = Some n \<and> p = Some n)"
  by (auto simp: parse_fee_part_def BigInt_SetString_def split: option.splits)

lemma parse_fee_part_Fail:
  "s \<noteq> [] \<Longrightarrow> parse_int 10 s = None \<Longrightarrow> parse_fee_part msg s = Fail (Errorf msg [AStr s])"
  by (simp add: parse_fee_part_def BigInt_SetString_def)

lemma countCurrencyAmount_show_int:
  "\<exists>q. countCurrencyAmount e (show_int n) (FFin sg p m k) = Ret q"
proof -
  obtain f where "Float_SetString (show_int n) = Some f" and "\<forall>b. f \<noteq> FInf b"
    using Float_SetString_finite[OF parse_int_show_int] by blast
  then show ?thesis by (cases f) (auto simp: countCurrencyAmount_def Let_def)
qed

lemma getTransactionFee_cases:
  assumes "fee_part pf = Some f" "fee_part tip = Some t" "tm_div tm = FFin sg p m k"
  shows "\<exists>q. countCurrencyAmount (tm_exp tm) (show_int (f + t)) (tm_div tm) = Ret q \<and>
    getTransactionFee tm pf tip =
      Ret (if f + t = 0 then []
           else [\<lparr>ta_Text = Float_Text q @ tm_currency tm, ta_Currency = tm_currency tm,
                  ta_Numeric = Some (f + t), ta_Exp = word_of_int (tm_exp tm)\<rparr>])"
proof -
  obtain q where q: "countCurrencyAmount (tm_exp tm) (show_int (f + t)) (tm_div tm) = Ret q"
    using countCurrencyAmount_show_int assms(3) by metis
  with assms(1,2) show ?thesis
    by (auto simp: getTransactionFee_def fee_part_def parse_fee_part_def BigInt_SetString_def
        Let_def split: if_splits)
qed

text \<open>
  The fee of an extrinsic is the sum of its partial fee and its tip, an absent part counting
  as zero; no amount is reported when the sum is zero, and otherwise exactly one, whose number is
  the sum and whose text is the sum divided by the currency's divider, followed by the currency.
\<close>

theorem getTransactionFee_sum:
  assumes "fee_part pf = Some f" "fee_part tip = Some t" "tm_div tm = FFin sg p m k"
  shows "\<exists>q. countCurrencyAmount (tm_exp tm) (show_int (f + t)) (tm_div tm) = Ret q \<and>
    getTransactionFee tm pf tip =
      Ret (if f + t = 0 then []
           else [\<lparr>ta_Text = Float_Text q @ tm_currency tm, ta_Currency = tm_currency tm,
                  ta_Numeric = Some (f + t), ta_Exp = word_of_int (tm_exp tm)\<rparr>])"
  by (rule getTransactionFee_cases[OF assms])

text \<open>The divider of a currency with ten decimals, such as DOT, is exactly \<open>10 ^ 10\<close>.\<close>

lemma initExpDivider_10: "initExpDivider 10 = FFin False 53 5242880000000000 (- 19)"
  by (simp add: initExpDivider_def float_eval)

definition dot_mapper :: TransactionMapper where
  "dot_mapper = NewTransactionMapper 10 ''mainnet'' ''DOT''"

lemma dot_mapper_div: "tm_div dot_mapper = FFin False 53 5242880000000000 (- 19)"
  by (simp add: dot_mapper_def NewTransactionMapper_def initExpDivider_10)

theorem getTransactionFee_sum_witness:
  "\<exists>x. getTransactionFee dot_mapper ''155000016'' ''4'' = Ret [x] \<and> ta_Numeric x = Some 155000020"
proof -
  have f: "fee_part ''155000016'' = Some 155000016" and t: "fee_part ''4'' = Some 4"
    by (simp_all add: fee_part_def parse_eval)
  show ?thesis
    using getTransactionFee_sum[OF f t dot_mapper_div] by auto
qed

text \<open>
  A part of the fee that is present and is not an integer is an error that names the part;
  the partial fee is looked at first.
\<close>

theorem getTransactionFee_errors:
  "(pf \<noteq> [] \<and> parse_int 10 pf = None \<longrightarrow> getTransactionFee tm pf tip =
      Fail (Errorf ''Could not parse transaction partial fee %q'' [AStr pf])) \<and>
   (fee_part pf \<noteq> None \<and> tip \<noteq> [] \<and> parse_int 10 tip = None \<longrightarrow> getTransactionFee tm pf tip =
      Fail (Errorf ''Could not parse transaction tip %q'' [AStr tip]))"
  by (auto simp: getTransactionFee_def fee_part_def parse_fee_part_def BigInt_SetString_def
      split: if_splits)

theorem getTransactionFee_errors_witness:
  "getTransactionFee dot_mapper ''bad'' ''0'' =
      Fail (Errorf ''Could not parse transaction partial fee %q'' [AStr ''bad'']) \<and>
   getTransactionFee dot_mapper [] ''bad'' =
      Fail (Errorf ''Could not parse transaction tip %q'' [AStr ''bad''])"
proof -
  have "parse_int 10 ''bad'' = None" "fee_part [] \<noteq> None"
    by (simp_all add: parse_eval fee_part_def)
  then show ?thesis
    using getTransactionFee_errors[of "''bad''" dot_mapper "''0''"]
      getTransactionFee_errors[of "[]" dot_mapper "''bad''"] by simp
qed

subsection \<open>One transaction per hash\<close>

interpretation tx_hash: seen_keys isTransactionUnique dom Map.empty
  by unfold_locales (auto simp: isTransactionUnique_def split: option.splits)

lemma extrinsics_loop_mapM:
  "extrinsics_loop tm blk m ts =
     mapM_go (map_extrinsic tm blk) (keep_unique isTransactionUnique ex_Hash m ts)"
proof (induction ts arbitrary: m)
  case (Cons t ts)
  obtain b m' where "isTransactionUnique m (ex_Hash t) = (b, m')" by fastforce
  with Cons.IH show ?case by simp
qed simp

lemma TransactionsMapper_eq:
  "TransactionsMapper tm (Some r) =
     bind_go (deref (br_Block r)) (\<lambda>blk.
       mapM_go (map_extrinsic tm blk) (firsts ex_Hash {} (blk_Extrinsics blk)))"
  by (simp add: TransactionsMapper_def extrinsics_loop_mapM tx_hash.keep_unique_nothing)

lemma map_extrinsic_fields:
  assumes "map_extrinsic tm blk t = Ret tx"
  shows "tx_Hash tx = ex_Hash t \<and> tx_BlockHash tx = blk_BlockHash blk \<and>
    tx_ChainID tx = tm_chainID tm \<and> tx_HasErrors tx = (\<not> ex_IsSuccess t) \<and>
    parseTime (ex_Time t) = Ret (tx_Time tx) \<and>
    getTransactionFee tm (ex_PartialFee t) (ex_Tip t) = Ret (tx_Fee tx) \<and>
    (\<exists>h subs logs. blk_Header blk = Some h \<and> tx_Height tx = hd_Height h \<and>
       parseEvents (ex_Events t) (tm_div tm) (tx_Time tx) (tm_exp tm) (hd_Height h)
         (tm_currency tm) (show_u64 (ex_Nonce t)) (ex_Signer t) = Ret (subs, logs) \<and>
       tx_RawLog tx = ''['' @ Join '','' logs @ '']'' \<and>
       tx_Events tx = [\<lparr>te_ID = [], te_Kind = ''Extrinsic'', te_Module = ToLower (ex_Section t),
         te_Type = [ToLower (ex_Method t)], te_Sub = subs\<rparr>])"
  using assms by (auto simp: map_extrinsic_def)

text \<open>
  The transactions of a block are its extrinsics mapped one by one, each hash once (its first
  occurrence), in order; the first extrinsic that cannot be mapped decides the result.
\<close>

theorem TransactionsMapper_mapM:
  "TransactionsMapper tm (Some \<lparr>br_Block = Some blk\<rparr>) =
     mapM_go (map_extrinsic tm blk) (firsts ex_Hash {} (blk_Extrinsics blk))"
  by (simp add: TransactionsMapper_eq)

text \<open>The fee with the number \<open>n\<close>: none when it is zero, else one amount.\<close>

definition fee_amount :: "TransactionMapper \<Rightarrow> int \<Rightarrow> TransactionAmount list \<Rightarrow> bool" where
  "fee_amount tm n fee \<longleftrightarrow>
     (if n = 0 then fee = []
      else \<exists>q. countCurrencyAmount (tm_exp tm) (show_int n) (tm_div tm) = Ret q \<and>
        fee = [\<lparr>ta_Text = Float_Text q @ tm_currency tm, ta_Currency = tm_currency tm,
                ta_Numeric = Some n, ta_Exp = word_of_int (tm_exp tm)\<rparr>])"

lemma getTransactionFee_Ret:
  assumes "getTransactionFee tm pf tip = Ret fee"
  shows "\<exists>f t. fee_part pf = Some f \<and> fee_part tip = Some t \<and> fee_amount tm (f + t) fee"
proof (cases "pf = [] \<and> tip = []")
  case True
  with assms show ?thesis by (simp add: getTransactionFee_def fee_part_def fee_amount_def)
next
  case False
  with assms obtain p q where p: "parse_fee_part ''Could not parse transaction partial fee %q'' pf = Ret p"
    and q: "parse_fee_part ''Could not parse transaction tip %q'' tip = Ret q"
    unfolding getTransactionFee_def by (simp only: if_False bind_go_eq_Ret) blast
  from p have f: "fee_part pf = Some (case p of None \<Rightarrow> 0 | Some n \<Rightarrow> n)"
    unfolding parse_fee_part_Ret fee_part_def by (auto split: if_splits)
  from q have t: "fee_part tip = Some (case q of None \<Rightarrow> 0 | Some n \<Rightarrow> n)"
    unfolding parse_fee_part_Ret fee_part_def by (auto split: if_splits)
  from assms False p q have "fee_amount tm ((case p of None \<Rightarrow> 0 | Some n \<Rightarrow> n) + (case q of None \<Rightarrow> 0 | Some n \<Rightarrow> n)) fee"
    by (cases p; cases q) (auto simp: getTransactionFee_def fee_amount_def Let_def split: if_splits)
  with f t show ?thesis by blast
qed

text \<open>
  What the transaction of an extrinsic carries: the hash, epoch, raw form and outcome of the
  extrinsic, its time read as seconds and nanoseconds, as fee the sum of its partial fee and tip,
  one event of its section and method whose parts are its events mapped one by one with the raw
  forms of these as log, the hash and height of the block, and the mapper's chain.
\<close>

definition carries :: "TransactionMapper \<Rightarrow> BlockPb \<Rightarrow> ExtrinsicPb \<Rightarrow> Transaction \<Rightarrow> bool" where
  "carries tm blk t tx \<longleftrightarrow> (\<exists>h time f tip fee subs. blk_Header blk = Some h \<and>
     parseTime (ex_Time t) = Ret time \<and>
     fee_part (ex_PartialFee t) = Some f \<and> fee_part (ex_Tip t) = Some tip \<and>
     fee_amount tm (f + tip) fee \<and>
     list_all2 (\<lambda>e sub. \<exists>s. getEvent e (tm_div tm) (tm_exp tm) (tm_currency tm) (ex_Signer t) = Ret s \<and>
        sub = finish_event time (hd_Height h) (show_u64 (ex_Nonce t)) e s)
       (firsts evp_Index {} (ex_Events t)) subs \<and>
     tx = \<lparr>tx_Hash = ex_Hash t, tx_BlockHash = blk_BlockHash blk, tx_Height = hd_Height h,
           tx_Epoch = ex_Epoch t, tx_ChainID = tm_chainID tm, tx_Time = time, tx_Fee = fee,
           tx_Version = ''0.0.1'',
           tx_Events = [\<lparr>te_ID = [], te_Kind = ''Extrinsic'', te_Module = ToLower (ex_Section t),
                         te_Type = [ToLower (ex_Method t)], te_Sub = subs\<rparr>],
           tx_HasErrors = (\<not> ex_IsSuccess t), tx_Raw = ex_Raw t,
           tx_RawLog = ''['' @ Join '','' (map evp_Raw (firsts evp_Index {} (ex_Events t))) @ '']''\<rparr>)"

lemma map_extrinsic_carries:
  assumes "map_extrinsic tm blk t = Ret tx"
  shows "carries tm blk t tx"
proof -
  from assms obtain time h subs logs fee where time: "parseTime (ex_Time t) = Ret time"
    and h: "blk_Header blk = Some h"
    and ev: "parseEvents (ex_Events t) (tm_div tm) time (tm_exp tm) (hd_Height h)
        (tm_currency tm) (show_u64 (ex_Nonce t)) (ex_Signer t) = Ret (subs, logs)"
    and fee: "getTransactionFee tm (ex_PartialFee t) (ex_Tip t) = Ret fee"
    and tx: "tx = \<lparr>tx_Hash = ex_Hash t, tx_BlockHash = blk_BlockHash blk, tx_Height = hd_Height h,
           tx_Epoch = ex_Epoch t, tx_ChainID = tm_chainID tm, tx_Time = time, tx_Fee = fee,
           tx_Version = chain_version,
           tx_Events = [\<lparr>te_ID = [], te_Kind = ''Extrinsic'', te_Module = ToLower (ex_Section t),
                         te_Type = [ToLower (ex_Method t)], te_Sub = subs\<rparr>],
           tx_HasErrors = (\<not> ex_IsSuccess t), tx_Raw = ex_Raw t,
           tx_RawLog = ''['' @ Join '','' logs @ '']''\<rparr>"
    by (auto simp: map_extrinsic_def)
  note parts = parseEvents_parts[OF ev]
  then have logs: "logs = map evp_Raw (firsts evp_Index {} (ex_Events t))" by (rule conjunct1)
  have subs: "list_all2 (\<lambda>e sub. \<exists>s. getEvent e (tm_div tm) (tm_exp tm) (tm_currency tm) (ex_Signer t) = Ret s \<and>
        sub = finish_event time (hd_Height h) (show_u64 (ex_Nonce t)) e s)
       (firsts evp_Index {} (ex_Events t)) subs"
    using conjunct2[OF parts] unfolding mapM_go_eq_Ret by (rule list_all2_mono) auto
  from getTransactionFee_Ret[OF fee] obtain f tip where "fee_part (ex_PartialFee t) = Some f"
    "fee_part (ex_Tip t) = Some tip" "fee_amount tm (f + tip) fee" by blast
  with time h subs show ?thesis unfolding carries_def tx logs chain_version_def
    by (intro exI conjI) (assumption | rule refl)+
qed

text \<open>
  C9: The transactions of a block have distinct hashes, every extrinsic's hash among them and no
  other, and each is, in the order of the block, the transaction of the first extrinsic of its hash:
  every field is the one the extrinsic determines.
\<close>

theorem TransactionsMapper_result:
  assumes "TransactionsMapper tm (Some r) = Ret txs"
  shows "\<exists>blk. br_Block r = Some blk \<and> distinct (map tx_Hash txs) \<and>
    tx_Hash ` set txs = ex_Hash ` set (blk_Extrinsics blk) \<and>
    list_all2 (carries tm blk) (firsts ex_Hash {} (blk_Extrinsics blk)) txs"
proof -
  from assms obtain blk where blk: "br_Block r = Some blk"
    and m: "mapM_go (map_extrinsic tm blk) (firsts ex_Hash {} (blk_Extrinsics blk)) = Ret txs"
    by (auto simp: TransactionsMapper_eq)
  have hash: "map tx_Hash txs = map ex_Hash (firsts ex_Hash {} (blk_Extrinsics blk))"
    by (rule mapM_go_map[OF m]) (simp add: map_extrinsic_fields)
  have "tx_Hash ` set txs = ex_Hash ` set (blk_Extrinsics blk)"
    by (metis Diff_empty hash list.set_map set_firsts_keys)
  moreover have "list_all2 (carries tm blk) (firsts ex_Hash {} (blk_Extrinsics blk)) txs"
    using m unfolding mapM_go_eq_Ret by (rule list_all2_mono) (rule map_extrinsic_carries)
  ultimately show ?thesis using blk hash by (simp add: distinct_firsts)
qed

text \<open>A block with two extrinsics of one hash.\<close>

definition set_extrinsic :: "string \<Rightarrow> bool \<Rightarrow> ExtrinsicPb" where
  "set_extrinsic h ok = \<lparr>ex_Hash = h, ex_Time = ''1623058068.001'', ex_Nonce = 0, ex_Method = ''set'',
     ex_Section = ''timestamp'', ex_Events = [], ex_Signer = ''a'', ex_PartialFee = [], ex_Tip = ''0'',
     ex_IsSuccess = ok, ex_Epoch = ''370'', ex_Raw = ''{}''\<rparr>"

definition set_block :: BlockPb where
  "set_block = \<lparr>blk_BlockHash = ''0xcf'', blk_Header = Some \<lparr>hd_Height = 5400570, hd_Time = (1623058068, 0)\<rparr>,
     blk_Extrinsics = [set_extrinsic ''0xdc'' True, set_extrinsic ''0xdc'' False, set_extrinsic ''0xa1'' True]\<rparr>"

lemma set_extrinsic_maps: "\<exists>tx. map_extrinsic dot_mapper set_block (set_extrinsic h ok) = Ret tx"
proof -
  have "parseTime ''1623058068.001'' = Ret (1623058068, 1)"
    by (simp add: parseTime_def parseInt_def Atoi_def parse_eval time_Unix_def)
  moreover have "fee_part [] = Some 0" "fee_part ''0'' = Some 0"
    by (simp_all add: fee_part_def parse_eval)
  note getTransactionFee_cases[OF this dot_mapper_div]
  moreover have "parseEvents [] dv t e h c n sg = Ret ([], [])" for dv t e h c n sg
    by (simp add: parseEvents_def)
  ultimately show ?thesis
    by (auto simp: map_extrinsic_def set_extrinsic_def set_block_def)
qed

lemma set_block_hashes:
  "blk_Extrinsics set_block =
     [set_extrinsic ''0xdc'' True, set_extrinsic ''0xdc'' False, set_extrinsic ''0xa1'' True]"
  "ex_Hash (set_extrinsic k ok) = k"
  by (simp_all add: set_block_def set_extrinsic_def)

lemma set_block_maps: "\<exists>txs. TransactionsMapper dot_mapper (Some \<lparr>br_Block = Some set_block\<rparr>) = Ret txs"
proof -
  have "\<exists>tx. map_extrinsic dot_mapper set_block t = Ret tx"
    if "t \<in> set (firsts ex_Hash {} (blk_Extrinsics set_block))" for t
    using that set_extrinsic_maps by (auto simp: set_block_hashes)
  from mapM_go_total[OF this] show ?thesis by (simp add: TransactionsMapper_eq)
qed

lemma set_carries:
  assumes "carries dot_mapper set_block (set_extrinsic k ok) tx"
  shows "tx_Hash tx = k" "tx_HasErrors tx = (\<not> ok)" "tx_Fee tx = []" "tx_Epoch tx = ''370''"
    "tx_Height tx = 5400570" "tx_RawLog tx = ''[]''" "parseTime ''1623058068.001'' = Ret (tx_Time tx)"
  using assms
  by (auto simp: carries_def set_extrinsic_def set_block_def fee_part_def fee_amount_def parse_eval)

theorem TransactionsMapper_result_witness:
  "\<exists>a b. TransactionsMapper dot_mapper (Some \<lparr>br_Block = Some set_block\<rparr>) = Ret [a, b] \<and>
     tx_Hash a = ''0xdc'' \<and> \<not> tx_HasErrors a \<and> tx_Hash b = ''0xa1'' \<and> tx_Fee b = [] \<and>
     tx_Epoch b = ''370'' \<and> tx_Height b = 5400570 \<and> tx_RawLog b = ''[]'' \<and> tx_Time b = (1623058068, 1)"
proof -
  obtain txs where t: "TransactionsMapper dot_mapper (Some \<lparr>br_Block = Some set_block\<rparr>) = Ret txs"
    using set_block_maps ..
  have f: "firsts ex_Hash {} (blk_Extrinsics set_block) = [set_extrinsic ''0xdc'' True, set_extrinsic ''0xa1'' True]"
    by (simp add: set_block_hashes)
  from TransactionsMapper_result[OF t] have "list_all2 (carries dot_mapper set_block)
      [set_extrinsic ''0xdc'' True, set_extrinsic ''0xa1'' True] txs" by (simp add: f)
  then obtain a b where ab: "txs = [a, b]" and a: "carries dot_mapper set_block (set_extrinsic ''0xdc'' True) a"
    and b: "carries dot_mapper set_block (set_extrinsic ''0xa1'' True) b"
    by (auto simp: list_all2_Cons1)
  have "parseTime ''1623058068.001'' = Ret (1623058068, 1)"
    by (simp add: parseTime_def parseInt_def Atoi_def parse_eval time_Unix_def)
  with set_carries(7)[OF b] have "tx_Time b = (1623058068, 1)" by simp
  with t ab set_carries[OF a] set_carries[OF b] show ?thesis by (intro exI[of _ a] exI[of _ b]) simp
qed

end
