(* ===== verification/Block_Balance_Mapper.thy ===== *)
theory Block_Balance_Mapper
  imports Transaction_Mapper
begin

section \<open>The block and account balance mappers (mapper/block\_mapper.go, account\_balance\_mapper.go)\<close>

text \<open>Headers of blocks and free balances of accounts, with their error branches.\<close>

definition BlockMapper :: "BlockResponse option \<Rightarrow> string \<Rightarrow> string \<Rightarrow> Block go" where
  "BlockMapper block chainID epoch =
     (case block of
        None \<Rightarrow> Fail (Errors_New ''Empty block response'')
      | Some r \<Rightarrow>
          bind_go (deref (br_Block r)) (\<lambda>blk.
          bind_go (deref (blk_Header blk)) (\<lambda>h.
            Ret \<lparr>b_ChainID = chainID, b_Epoch = epoch, b_Hash = blk_BlockHash blk,
                 b_Height = hd_Height h, b_NumberOfTransactions = length (blk_Extrinsics blk),
                 b_Time = hd_Time h\<rparr>)))"

record AccountBalanceMapper =
  abm_exp :: int
  abm_div :: bigfloat
  abm_currency :: string

definition NewAccountBalanceMapper :: "int \<Rightarrow> string \<Rightarrow> AccountBalanceMapper" where
  "NewAccountBalanceMapper exp currency =
     \<lparr>abm_exp = exp, abm_div = initExpDivider exp, abm_currency = currency\<rparr>"

definition map_balance ::
  "AccountBalanceMapper \<Rightarrow> AccountResponse option \<Rightarrow> u64 \<Rightarrow> GetAccountBalanceResponse go" where
  "map_balance m resp height =
     (case resp of
        None \<Rightarrow> Fail (Errors_New ''Empty account balance response'')
      | Some r \<Rightarrow>
          if height = 0 then Fail (Errors_New ''Empty account balance response'')
          else bind_go (deref (ar_Account r)) (\<lambda>acc.
            let amount = acc_Free acc in
            if amount \<noteq> [] \<and> amount \<noteq> ''0'' then
              bind_go (map_err (\<lambda>err. Errorf ''Could not create transaction free amount from value %q %s''
                                   [AStr amount, AErr err])
                         (getAmount amount (abm_exp m) (abm_currency m) (abm_div m))) (\<lambda>trAmount.
              bind_go (deref trAmount) (\<lambda>a.
                Ret \<lparr>gab_Height = height, gab_Balances = [a]\<rparr>))
            else Ret \<lparr>gab_Height = height, gab_Balances = []\<rparr>))"

text \<open>
  The balance of an account is reported at the requested height: no amount for an empty or
  zero balance, one amount with the balance's number and the currency for any other integer, and
  an error for a text that is no integer.
\<close>

theorem map_balance_result:
  assumes "height \<noteq> 0" "abm_div m = FFin sg p k e"
  shows "map_balance m (Some \<lparr>ar_Account = Some \<lparr>acc_Free = free\<rparr>\<rparr>) height =
      (if free = [] \<or> free = ''0'' then Ret \<lparr>gab_Height = height, gab_Balances = []\<rparr>
       else if parse_int 10 free = None then
         Fail (Errorf ''Could not create transaction free amount from value %q %s''
           [AStr free, AErr (Errorf ''Could not create big int from value %s'' [AStr free])])
       else Ret \<lparr>gab_Height = height, gab_Balances =
         [\<lparr>ta_Text = Float_Text (case countCurrencyAmount (abm_exp m) free (abm_div m) of Ret q \<Rightarrow> q)
                       @ abm_currency m,
           ta_Currency = abm_currency m, ta_Numeric = parse_int 10 free,
           ta_Exp = word_of_int (abm_exp m)\<rparr>]\<rparr>)"
proof -
  have q: "\<exists>q. countCurrencyAmount (abm_exp m) free (abm_div m) = Ret q"
    if pn: "parse_int 10 free = Some n" for n
  proof -
    obtain a where "amount_of (abm_exp m) (abm_currency m) (FFin sg p k e) free = Ret a"
      using amount_of_returns[of "abm_exp m" "abm_currency m" sg p k e free] pn by auto
    from amount_of_cases[OF this] assms(2) show ?thesis by auto
  qed
  show ?thesis
  proof (cases "parse_int 10 free")
    case None
    then show ?thesis using assms
      by (auto simp: map_balance_def getAmount_def BigInt_SetString_def Let_def)
  next
    case (Some n)
    with q obtain q' where "countCurrencyAmount (abm_exp m) free (abm_div m) = Ret q'" by blast
    then show ?thesis using assms Some
      by (auto simp: map_balance_def getAmount_def BigInt_SetString_def Let_def)
  qed
qed

theorem map_balance_result_witness:
  "\<exists>a. map_balance (NewAccountBalanceMapper 10 ''DOT'') (Some \<lparr>ar_Account = Some \<lparr>acc_Free = ''1234''\<rparr>\<rparr>) 23452
     = Ret \<lparr>gab_Height = 23452, gab_Balances = [a]\<rparr> \<and> ta_Numeric a = Some 1234"
proof -
  have "abm_div (NewAccountBalanceMapper 10 ''DOT'') = FFin False 53 5242880000000000 (- 19)"
    by (simp add: NewAccountBalanceMapper_def initExpDivider_10)
  moreover have "parse_int 10 ''1234'' = Some 1234" by (simp add: parse_eval)
  ultimately show ?thesis
    using map_balance_result[of 23452 "NewAccountBalanceMapper 10 ''DOT''" False 53 _ _ "''1234''"]
    by simp
qed

lemma BlockMapper_eq_Ret:
  "BlockMapper block c ep = Ret b \<longleftrightarrow>
     (\<exists>blk h. block = Some \<lparr>br_Block = Some blk\<rparr> \<and> blk_Header blk = Some h \<and>
        b = \<lparr>b_ChainID = c, b_Epoch = ep, b_Hash = blk_BlockHash blk, b_Height = hd_Height h,
             b_NumberOfTransactions = length (blk_Extrinsics blk), b_Time = hd_Time h\<rparr>)"
proof (cases block)
  case (Some r)
  then show ?thesis by (cases r) (auto simp: BlockMapper_def)
qed (simp add: BlockMapper_def)

text \<open>
  A mapped block counts the extrinsics of the block, so it never announces fewer transactions
  than the transaction mapper returns for it, and exactly as many when no two extrinsics share a
  hash.
\<close>

theorem block_counts_transactions:
  assumes "BlockMapper (Some \<lparr>br_Block = Some blk\<rparr>) c ep = Ret b"
    and "TransactionsMapper tm (Some \<lparr>br_Block = Some blk\<rparr>) = Ret txs"
  shows "length txs \<le> b_NumberOfTransactions b \<and>
    (distinct (map ex_Hash (blk_Extrinsics blk)) \<longrightarrow> length txs = b_NumberOfTransactions b)"
proof -
  have n: "b_NumberOfTransactions b = length (blk_Extrinsics blk)"
    using assms(1) by (auto simp: BlockMapper_eq_Ret)
  have "mapM_go (map_extrinsic tm blk) (firsts ex_Hash {} (blk_Extrinsics blk)) = Ret txs"
    using assms(2) by (simp add: TransactionsMapper_eq)
  then have "length txs = length (firsts ex_Hash {} (blk_Extrinsics blk))" by (rule mapM_go_length)
  then show ?thesis
    using length_firsts_le firsts_disjoint_distinct[of ex_Hash "blk_Extrinsics blk" "{}"]
    by (simp add: n)
qed

theorem block_counts_transactions_witness:
  "\<exists>b txs. BlockMapper (Some \<lparr>br_Block = Some set_block\<rparr>) ''mainnet'' ''370'' = Ret b \<and>
     TransactionsMapper dot_mapper (Some \<lparr>br_Block = Some set_block\<rparr>) = Ret txs \<and>
     b_NumberOfTransactions b = 3 \<and> length txs \<le> 3"
proof -
  obtain h where "blk_Header set_block = Some h" by (simp add: set_block_def)
  then obtain b where b: "BlockMapper (Some \<lparr>br_Block = Some set_block\<rparr>) ''mainnet'' ''370'' = Ret b"
    and n: "b_NumberOfTransactions b = 3"
    by (simp add: BlockMapper_def) (simp add: set_block_def)
  obtain txs where t: "TransactionsMapper dot_mapper (Some \<lparr>br_Block = Some set_block\<rparr>) = Ret txs"
    using set_block_maps ..
  from block_counts_transactions[OF b t] b t n show ?thesis by auto
qed

end
