(* ===== verification/Chan_Pool.thy ===== *)
theory Chan_Pool
  imports Go_Prelude
begin

section \<open>Channel pools (indexer/pool.go)\<close>

text \<open>
  Buffered Go channels live in a heap, since a pool stores references to channels its clients
  keep using. A pool is itself a buffered channel of references, taken from and put back without
  waiting. Each operation runs under the pool's lock and is one step here.
\<close>

subsection \<open>Channels\<close>

record 'a gochan =
  ch_buf :: "'a list"
  ch_cap :: nat
  ch_closed :: bool

record 'a chheap =
  cells :: "nat \<rightharpoonup> 'a gochan"
  next_ref :: nat

definition make_chan :: "nat \<Rightarrow> 'a chheap \<Rightarrow> nat \<times> 'a chheap" where
  "make_chan c h =
     (next_ref h, h\<lparr>cells := (cells h)(next_ref h \<mapsto> \<lparr>ch_buf = [], ch_cap = c, ch_closed = False\<rparr>),
                   next_ref := Suc (next_ref h)\<rparr>)"

text \<open>
  \<open>for { select { case <-c: default: return } }\<close>: on a closed channel a receive is always ready,
  so that the loop does not end.
\<close>

fun drain_loop :: "bool \<Rightarrow> 'a list \<Rightarrow> 'a list go" where
  "drain_loop closed [] = (if closed then Blocked else Ret [])"
| "drain_loop closed (x # xs) = drain_loop closed xs"

definition drain :: "nat \<Rightarrow> 'a chheap \<Rightarrow> 'a chheap go" where
  "drain r h =
     (case cells h r of
        None \<Rightarrow> Ret h
      | Some c \<Rightarrow> bind_go (drain_loop (ch_closed c) (ch_buf c)) (\<lambda>b.
          Ret (h\<lparr>cells := (cells h)(r \<mapsto> c\<lparr>ch_buf := b\<rparr>)\<rparr>)))"

definition close_chan :: "nat option \<Rightarrow> 'a chheap \<Rightarrow> 'a chheap go" where
  "close_chan r h =
     (case r of
        None \<Rightarrow> Panic NilDereference
      | Some a \<Rightarrow>
          (case cells h a of
             None \<Rightarrow> Panic NilDereference
           | Some c \<Rightarrow>
               if ch_closed c then Panic CloseOfClosed
               else Ret (h\<lparr>cells := (cells h)(a \<mapsto> c\<lparr>ch_closed := True\<rparr>)\<rparr>)))"

text \<open>\<open>hBTxDrain\<close>, \<open>outRespDrain\<close>, \<open>getBlockPoolDrain\<close>; a nil channel is never ready.\<close>

definition hBTxDrain :: "nat option \<Rightarrow> 'a chheap \<Rightarrow> 'a chheap go" where
  "hBTxDrain c h = (case c of None \<Rightarrow> Ret h | Some r \<Rightarrow> drain r h)"

definition outRespDrain :: "nat option \<Rightarrow> 'a chheap \<Rightarrow> 'a chheap go" where
  "outRespDrain c h = (case c of None \<Rightarrow> Ret h | Some r \<Rightarrow> drain r h)"

definition getBlockPoolDrain :: "nat option \<Rightarrow> 'a chheap \<Rightarrow> 'a chheap go" where
  "getBlockPoolDrain c h = (case c of None \<Rightarrow> Ret h | Some r \<Rightarrow> drain r h)"

subsection \<open>The three pools\<close>

record pool =
  stor :: "nat option list"
  pool_cap :: nat

definition NewOutRespPool :: "nat \<Rightarrow> pool" where
  "NewOutRespPool c = \<lparr>stor = [], pool_cap = c\<rparr>"

definition NewHBTxPool :: "nat \<Rightarrow> pool" where
  "NewHBTxPool c = \<lparr>stor = [], pool_cap = c\<rparr>"

definition NewGetBlockPool :: "nat \<Rightarrow> pool" where
  "NewGetBlockPool c = \<lparr>stor = [], pool_cap = c\<rparr>"

definition fresh_chan :: "nat \<Rightarrow> pool \<Rightarrow> 'a chheap \<Rightarrow> (nat option \<times> pool \<times> 'a chheap) go" where
  "fresh_chan c p h = (case make_chan c h of (r, h') \<Rightarrow> Ret (Some r, p, h'))"

text \<open>Only the first pool looks for a stored nil channel.\<close>

definition outRespPool_Get :: "pool \<Rightarrow> 'a chheap \<Rightarrow> (nat option \<times> pool \<times> 'a chheap) go" where
  "outRespPool_Get p h =
     (case stor p of
        [] \<Rightarrow> fresh_chan 1000 p h
      | a # rest \<Rightarrow>
          if a = None then fresh_chan 1000 (p\<lparr>stor := rest\<rparr>) h
          else bind_go (outRespDrain a h) (\<lambda>h'. Ret (a, p\<lparr>stor := rest\<rparr>, h')))"

definition outRespPool_Put :: "nat option \<Rightarrow> pool \<Rightarrow> 'a chheap \<Rightarrow> (pool \<times> 'a chheap) go" where
  "outRespPool_Put r p h =
     (if length (stor p) < pool_cap p then Ret (p\<lparr>stor := stor p @ [r]\<rparr>, h)
      else bind_go (close_chan r h) (\<lambda>h'. Ret (p, h')))"

definition hBTxPool_Get :: "pool \<Rightarrow> 'a chheap \<Rightarrow> (nat option \<times> pool \<times> 'a chheap) go" where
  "hBTxPool_Get p h =
     (case stor p of
        [] \<Rightarrow> fresh_chan 10 p h
      | a # rest \<Rightarrow> bind_go (hBTxDrain a h) (\<lambda>h'. Ret (a, p\<lparr>stor := rest\<rparr>, h')))"

definition hBTxPool_Put :: "nat option \<Rightarrow> pool \<Rightarrow> 'a chheap \<Rightarrow> (pool \<times> 'a chheap) go" where
  "hBTxPool_Put r p h =
     (if length (stor p) < pool_cap p then Ret (p\<lparr>stor := stor p @ [r]\<rparr>, h)
      else bind_go (close_chan r h) (\<lambda>h'. Ret (p, h')))"

definition getBlockPool_Get :: "pool \<Rightarrow> 'a chheap \<Rightarrow> (nat option \<times> pool \<times> 'a chheap) go" where
  "getBlockPool_Get p h =
     (case stor p of
        [] \<Rightarrow> fresh_chan 20 p h
      | a # rest \<Rightarrow> bind_go (getBlockPoolDrain a h) (\<lambda>h'. Ret (a, p\<lparr>stor := rest\<rparr>, h')))"

definition getBlockPool_Put :: "nat option \<Rightarrow> pool \<Rightarrow> 'a chheap \<Rightarrow> (pool \<times> 'a chheap) go" where
  "getBlockPool_Put r p h =
     (if length (stor p) < pool_cap p then Ret (p\<lparr>stor := stor p @ [r]\<rparr>, h)
      else bind_go (close_chan r h) (\<lambda>h'. Ret (p, h')))"

lemmas pool_defs = outRespPool_Get_def outRespPool_Put_def hBTxPool_Get_def hBTxPool_Put_def
  getBlockPool_Get_def getBlockPool_Put_def outRespDrain_def hBTxDrain_def getBlockPoolDrain_def
  fresh_chan_def make_chan_def

lemma drain_loop_open [simp]: "drain_loop False xs = Ret []"
  by (induction xs) auto

lemma drain_loop_closed [simp]: "drain_loop True xs = Blocked"
  by (induction xs) auto

text \<open>
  Draining an open channel ends and leaves it empty, whatever it held; draining a closed
  channel never ends, so a channel that was closed must not reach a pool.
\<close>

theorem drain_ends_iff_open:
  "cells h r = Some \<lparr>ch_buf = b, ch_cap = c, ch_closed = cl\<rparr> \<Longrightarrow>
     drain r h = (if cl then Blocked
       else Ret (h\<lparr>cells := (cells h)(r \<mapsto> \<lparr>ch_buf = [], ch_cap = c, ch_closed = False\<rparr>)\<rparr>))"
  by (cases cl) (simp_all add: drain_def)

theorem drain_ends_iff_open_witness:
  "drain 0 \<lparr>cells = [0 \<mapsto> \<lparr>ch_buf = [7, 8 :: nat], ch_cap = 20, ch_closed = False\<rparr>], next_ref = 1\<rparr>
     = Ret \<lparr>cells = [0 \<mapsto> \<lparr>ch_buf = [], ch_cap = 20, ch_closed = False\<rparr>], next_ref = 1\<rparr>"
  using drain_ends_iff_open[of "\<lparr>cells = [0 \<mapsto> \<lparr>ch_buf = [7, 8 :: nat], ch_cap = 20, ch_closed = False\<rparr>],
    next_ref = 1\<rparr>" 0 "[7, 8]" 20 False] by simp

subsection \<open>The contract of a pool\<close>

text \<open>
  A channel is \<^emph>\<open>owned\<close> by the pool while its reference is stored. The invariant: references
  are to open channels, stored once, and the store is within its capacity.
\<close>

definition open_chan :: "'a chheap \<Rightarrow> nat \<Rightarrow> bool" where
  "open_chan h r \<longleftrightarrow> (\<exists>c. cells h r = Some c \<and> \<not> ch_closed c)"

definition heap_wf :: "'a chheap \<Rightarrow> bool" where
  "heap_wf h \<longleftrightarrow> (\<forall>r. next_ref h \<le> r \<longrightarrow> cells h r = None)"

definition pool_inv :: "pool \<Rightarrow> 'a chheap \<Rightarrow> bool" where
  "pool_inv p h \<longleftrightarrow> heap_wf h \<and> distinct (stor p) \<and> length (stor p) \<le> pool_cap p \<and>
     (\<forall>x\<in>set (stor p). \<exists>r. x = Some r \<and> open_chan h r)"

definition empty_chan :: "'a chheap \<Rightarrow> nat \<Rightarrow> bool" where
  "empty_chan h r \<longleftrightarrow> (\<exists>c. cells h r = Some c \<and> ch_buf c = [] \<and> \<not> ch_closed c)"

lemma pool_inv_cell:
  "pool_inv p h \<Longrightarrow> cells h r = Some c \<Longrightarrow> \<not> ch_closed d \<Longrightarrow>
     pool_inv p (h\<lparr>cells := (cells h)(r \<mapsto> d)\<rparr>)"
  by (fastforce simp: pool_inv_def heap_wf_def open_chan_def split: if_splits)

locale chan_pool =
  fixes get :: "pool \<Rightarrow> 'a chheap \<Rightarrow> (nat option \<times> pool \<times> 'a chheap) go"
    and put :: "nat option \<Rightarrow> pool \<Rightarrow> 'a chheap \<Rightarrow> (pool \<times> 'a chheap) go"
  assumes get_ok: "pool_inv p h \<Longrightarrow> \<exists>r p' h'. get p h = Ret (Some r, p', h') \<and> pool_inv p' h' \<and>
      empty_chan h' r \<and> Some r \<notin> set (stor p') \<and>
      (Some r \<in> set (stor p) \<or> cells h r = None) \<and> set (stor p') \<subseteq> set (stor p) \<and>
      (\<forall>q. q \<noteq> r \<longrightarrow> cells h' q = cells h q)"
    and put_ok: "pool_inv p h \<Longrightarrow> open_chan h r \<Longrightarrow> Some r \<notin> set (stor p) \<Longrightarrow>
      \<exists>p' h'. put (Some r) p h = Ret (p', h') \<and> pool_inv p' h' \<and>
        set (stor p') \<subseteq> insert (Some r) (set (stor p)) \<and> (\<forall>q. q \<noteq> r \<longrightarrow> cells h' q = cells h q)"
begin

text \<open>Two clients that hold a channel at the same time hold different channels.\<close>

lemma two_gets:
  assumes "pool_inv p h"
  shows "\<exists>r p' h' r' p'' h''. get p h = Ret (Some r, p', h') \<and> get p' h' = Ret (Some r', p'', h'') \<and>
    r \<noteq> r' \<and> pool_inv p'' h'' \<and> empty_chan h'' r \<and> empty_chan h'' r'"
proof -
  from get_ok[OF assms] obtain r p' h' where g: "get p h = Ret (Some r, p', h')" "pool_inv p' h'"
    and e: "empty_chan h' r" and n: "Some r \<notin> set (stor p')" by blast
  from get_ok[OF g(2)] obtain r' p'' h'' where g': "get p' h' = Ret (Some r', p'', h'')"
      "pool_inv p'' h''" and e': "empty_chan h'' r'"
    and s: "Some r' \<in> set (stor p') \<or> cells h' r' = None"
    and fr: "\<forall>q. q \<noteq> r' \<longrightarrow> cells h'' q = cells h' q" by blast
  have "r \<noteq> r'" using s n e by (auto simp: empty_chan_def)
  moreover have "empty_chan h'' r" using fr e \<open>r \<noteq> r'\<close> by (simp add: empty_chan_def)
  ultimately show ?thesis using g g' e' by blast
qed

text \<open>Whatever a client leaves in a channel it gives back, the next client gets an empty one.\<close>

lemma get_use_put:
  assumes "pool_inv p h" and "get p h = Ret (Some r, p', h')"
  shows "\<exists>p'' h''. put (Some r) p'
      (h'\<lparr>cells := (cells h')(r \<mapsto> \<lparr>ch_buf = left, ch_cap = k, ch_closed = False\<rparr>)\<rparr>) = Ret (p'', h'') \<and>
    pool_inv p'' h'' \<and> (\<exists>r2 p3 h3. get p'' h'' = Ret (Some r2, p3, h3) \<and> empty_chan h3 r2)"
proof -
  let ?h = "h'\<lparr>cells := (cells h')(r \<mapsto> \<lparr>ch_buf = left, ch_cap = k, ch_closed = False\<rparr>)\<rparr>"
  from get_ok[OF assms(1)] assms(2) have i: "pool_inv p' h'" "empty_chan h' r"
    and n: "Some r \<notin> set (stor p')" by auto
  then have "pool_inv p' ?h" by (auto simp: empty_chan_def intro: pool_inv_cell)
  moreover have "open_chan ?h r" by (simp add: open_chan_def)
  ultimately obtain p'' h'' where "put (Some r) p' ?h = Ret (p'', h'')" and i2: "pool_inv p'' h''"
    using put_ok n by blast
  with get_ok[OF i2] show ?thesis by blast
qed

end

subsection \<open>The three pools keep the contract\<close>

lemma pool_inv_ConsD:
  "pool_inv p h \<Longrightarrow> stor p = x # rest \<Longrightarrow>
     \<exists>r c. x = Some r \<and> cells h r = Some c \<and> \<not> ch_closed c \<and> Some r \<notin> set rest \<and>
       pool_inv (p\<lparr>stor := rest\<rparr>) h"
  by (auto simp: pool_inv_def open_chan_def)

lemma pool_inv_fresh:
  assumes "pool_inv p h" "make_chan k h = (r, h')"
  shows "pool_inv p h' \<and> empty_chan h' r \<and> Some r \<notin> set (stor p) \<and> cells h r = None \<and>
    (\<forall>q. q \<noteq> r \<longrightarrow> cells h' q = cells h q)"
  using assms
  by (force simp: pool_inv_def make_chan_def heap_wf_def open_chan_def empty_chan_def)

lemma pool_inv_close:
  "pool_inv p h \<Longrightarrow> cells h r = Some c \<Longrightarrow> Some r \<notin> set (stor p) \<Longrightarrow>
     pool_inv p (h\<lparr>cells := (cells h)(r \<mapsto> d)\<rparr>)"
  by (fastforce simp: pool_inv_def heap_wf_def open_chan_def split: if_splits)

lemma pool_inv_snoc:
  "pool_inv p h \<Longrightarrow> open_chan h r \<Longrightarrow> Some r \<notin> set (stor p) \<Longrightarrow> length (stor p) < pool_cap p \<Longrightarrow>
     pool_inv (p\<lparr>stor := stor p @ [Some r]\<rparr>) h"
  by (auto simp: pool_inv_def)

lemma drain_open:
  "cells h r = Some c \<Longrightarrow> \<not> ch_closed c \<Longrightarrow>
     drain r h = Ret (h\<lparr>cells := (cells h)(r \<mapsto> c\<lparr>ch_buf := []\<rparr>)\<rparr>)"
  by (simp add: drain_def)

lemma stored_get_ok:
  assumes "pool_inv p h" "stor p = a # rest"
  shows "\<exists>r h'. a = Some r \<and> drain r h = Ret h' \<and> pool_inv (p\<lparr>stor := rest\<rparr>) h' \<and>
    empty_chan h' r \<and> Some r \<notin> set rest \<and> (\<forall>q. q \<noteq> r \<longrightarrow> cells h' q = cells h q)"
proof -
  from pool_inv_ConsD[OF assms] obtain r c where a: "a = Some r" "cells h r = Some c"
      "\<not> ch_closed c" "Some r \<notin> set rest" "pool_inv (p\<lparr>stor := rest\<rparr>) h" by blast
  then show ?thesis using pool_inv_cell[OF a(5,2), of "c\<lparr>ch_buf := []\<rparr>"]
    by (simp add: drain_open empty_chan_def)
qed

lemma fresh_get_ok:
  assumes "pool_inv p h"
  shows "\<exists>r h'. fresh_chan k p h = Ret (Some r, p, h') \<and> pool_inv p h' \<and> empty_chan h' r \<and>
    Some r \<notin> set (stor p) \<and> cells h r = None \<and> (\<forall>q. q \<noteq> r \<longrightarrow> cells h' q = cells h q)"
proof -
  obtain r h' where "make_chan k h = (r, h')" by fastforce
  then show ?thesis using pool_inv_fresh[OF assms] by (simp add: fresh_chan_def)
qed

lemma put_open_ok:
  assumes "pool_inv p h" "open_chan h r" "Some r \<notin> set (stor p)"
  shows "\<exists>p' h'. (if length (stor p) < pool_cap p then Ret (p\<lparr>stor := stor p @ [Some r]\<rparr>, h)
      else bind_go (close_chan (Some r) h) (\<lambda>h'. Ret (p, h'))) = Ret (p', h') \<and> pool_inv p' h' \<and>
    set (stor p') \<subseteq> insert (Some r) (set (stor p)) \<and> (\<forall>q. q \<noteq> r \<longrightarrow> cells h' q = cells h q)"
proof (cases "length (stor p) < pool_cap p")
  case True
  with pool_inv_snoc[OF assms True] show ?thesis by auto
next
  case False
  from assms(2) obtain c where c: "cells h r = Some c" "\<not> ch_closed c"
    by (auto simp: open_chan_def)
  with False pool_inv_close[OF assms(1) c(1) assms(3), of "c\<lparr>ch_closed := True\<rparr>"]
  show ?thesis by (auto simp: close_chan_def)
qed

interpretation outResp: chan_pool outRespPool_Get outRespPool_Put
proof unfold_locales
  fix p :: pool and h :: "'a chheap"
  assume i: "pool_inv p h"
  show "\<exists>r p' h'. outRespPool_Get p h = Ret (Some r, p', h') \<and> pool_inv p' h' \<and>
      empty_chan h' r \<and> Some r \<notin> set (stor p') \<and> (Some r \<in> set (stor p) \<or> cells h r = None) \<and>
      set (stor p') \<subseteq> set (stor p) \<and> (\<forall>q. q \<noteq> r \<longrightarrow> cells h' q = cells h q)"
  proof (cases "stor p")
    case Nil
    with fresh_get_ok[OF i, of 1000] show ?thesis by (auto simp: outRespPool_Get_def)
  next
    case (Cons a rest)
    with stored_get_ok[OF i Cons] show ?thesis
      by (auto simp: outRespPool_Get_def outRespDrain_def)
  qed
qed (unfold outRespPool_Put_def, rule put_open_ok)

interpretation hBTx: chan_pool hBTxPool_Get hBTxPool_Put
proof unfold_locales
  fix p :: pool and h :: "'a chheap"
  assume i: "pool_inv p h"
  show "\<exists>r p' h'. hBTxPool_Get p h = Ret (Some r, p', h') \<and> pool_inv p' h' \<and>
      empty_chan h' r \<and> Some r \<notin> set (stor p') \<and> (Some r \<in> set (stor p) \<or> cells h r = None) \<and>
      set (stor p') \<subseteq> set (stor p) \<and> (\<forall>q. q \<noteq> r \<longrightarrow> cells h' q = cells h q)"
  proof (cases "stor p")
    case Nil
    with fresh_get_ok[OF i, of 10] show ?thesis by (auto simp: hBTxPool_Get_def)
  next
    case (Cons a rest)
    with stored_get_ok[OF i Cons] show ?thesis by (auto simp: hBTxPool_Get_def hBTxDrain_def)
  qed
qed (unfold hBTxPool_Put_def, rule put_open_ok)

interpretation gbPool: chan_pool getBlockPool_Get getBlockPool_Put
proof unfold_locales
  fix p :: pool and h :: "'a chheap"
  assume i: "pool_inv p h"
  show "\<exists>r p' h'. getBlockPool_Get p h = Ret (Some r, p', h') \<and> pool_inv p' h' \<and>
      empty_chan h' r \<and> Some r \<notin> set (stor p') \<and> (Some r \<in> set (stor p) \<or> cells h r = None) \<and>
      set (stor p') \<subseteq> set (stor p) \<and> (\<forall>q. q \<noteq> r \<longrightarrow> cells h' q = cells h q)"
  proof (cases "stor p")
    case Nil
    with fresh_get_ok[OF i, of 20] show ?thesis by (auto simp: getBlockPool_Get_def)
  next
    case (Cons a rest)
    with stored_get_ok[OF i Cons] show ?thesis
      by (auto simp: getBlockPool_Get_def getBlockPoolDrain_def)
  qed
qed (unfold getBlockPool_Put_def, rule put_open_ok)

text \<open>
  C19: Two requests that take a channel from the block pool one after the other hold different
  channels, both open and empty, and the pool keeps its invariant.
\<close>

theorem getBlockPool_exclusive:
  assumes "pool_inv p h"
  shows "\<exists>r p' h' r' p'' h''. getBlockPool_Get p h = Ret (Some r, p', h') \<and>
    getBlockPool_Get p' h' = Ret (Some r', p'', h'') \<and> r \<noteq> r' \<and> pool_inv p'' h'' \<and>
    empty_chan h'' r \<and> empty_chan h'' r'"
  by (rule gbPool.two_gets[OF assms])

definition one_stored :: "pool" where
  "one_stored = \<lparr>stor = [Some 0], pool_cap = 300\<rparr>"

definition stale_heap :: "nat chheap" where
  "stale_heap = \<lparr>cells = [0 \<mapsto> \<lparr>ch_buf = [7], ch_cap = 20, ch_closed = False\<rparr>], next_ref = 1\<rparr>"

lemma one_stored_inv: "pool_inv one_stored stale_heap"
  by (simp add: pool_inv_def one_stored_def stale_heap_def heap_wf_def open_chan_def)

theorem getBlockPool_exclusive_witness:
  "pool_inv one_stored stale_heap \<and>
   (\<exists>r p' h' r' p'' h''. getBlockPool_Get one_stored stale_heap = Ret (Some r, p', h') \<and>
      getBlockPool_Get p' h' = Ret (Some r', p'', h'') \<and> r \<noteq> r')"
  using one_stored_inv getBlockPool_exclusive[OF one_stored_inv] by blast

text \<open>
  A channel taken from the block pool and given back with responses left in it does not pass
  them on: the pool takes it, and the next channel it hands out is empty.
\<close>

theorem getBlockPool_no_stale:
  assumes "pool_inv p h" "getBlockPool_Get p h = Ret (Some r, p', h')"
  shows "\<exists>p'' h''. getBlockPool_Put (Some r) p'
      (h'\<lparr>cells := (cells h')(r \<mapsto> \<lparr>ch_buf = left, ch_cap = k, ch_closed = False\<rparr>)\<rparr>) = Ret (p'', h'') \<and>
    pool_inv p'' h'' \<and>
    (\<exists>r2 p3 h3. getBlockPool_Get p'' h'' = Ret (Some r2, p3, h3) \<and> empty_chan h3 r2)"
  by (rule gbPool.get_use_put[OF assms])

theorem getBlockPool_no_stale_witness:
  "\<exists>r p' h'. getBlockPool_Get one_stored stale_heap = Ret (Some r, p', h') \<and>
     (\<exists>p'' h''. getBlockPool_Put (Some r) p'
        (h'\<lparr>cells := (cells h')(r \<mapsto> \<lparr>ch_buf = [1, 2], ch_cap = 20, ch_closed = False\<rparr>)\<rparr>) = Ret (p'', h'') \<and>
        (\<exists>r2 p3 h3. getBlockPool_Get p'' h'' = Ret (Some r2, p3, h3) \<and> empty_chan h3 r2))"
proof -
  from gbPool.get_ok[OF one_stored_inv] obtain r p' h' where
      g: "getBlockPool_Get one_stored stale_heap = Ret (Some r, p', h')" by blast
  with getBlockPool_no_stale[OF one_stored_inv g, of "[1, 2]" 20] show ?thesis by blast
qed

text \<open>
  Giving a channel back twice breaks the exclusive use of channels: two later requests get
  the same one.
\<close>

theorem double_put_shares:
  assumes "stor p = []" "2 \<le> pool_cap p" "cells h r = Some \<lparr>ch_buf = b, ch_cap = k, ch_closed = False\<rparr>"
  shows "\<exists>p1 p2 p3 h3 p4 h4. getBlockPool_Put (Some r) p h = Ret (p1, h) \<and>
    getBlockPool_Put (Some r) p1 h = Ret (p2, h) \<and>
    getBlockPool_Get p2 h = Ret (Some r, p3, h3) \<and> getBlockPool_Get p3 h3 = Ret (Some r, p4, h4)"
  using assms by (simp add: getBlockPool_Put_def getBlockPool_Get_def getBlockPoolDrain_def drain_def)

theorem double_put_shares_witness:
  "\<exists>p1 p2 p3 h3 p4 h4. getBlockPool_Put (Some 0) (NewGetBlockPool 300) stale_heap = Ret (p1, stale_heap) \<and>
     getBlockPool_Put (Some 0) p1 stale_heap = Ret (p2, stale_heap) \<and>
     getBlockPool_Get p2 stale_heap = Ret (Some 0, p3, h3) \<and> getBlockPool_Get p3 h3 = Ret (Some 0, p4, h4)"
  by (rule double_put_shares[where b = "[7]" and k = 20])
    (simp_all add: NewGetBlockPool_def stale_heap_def)

end
