(* ===== verification/Grpc_Conns.thy ===== *)
theory Grpc_Conns
  imports Go_Prelude
begin

section \<open>The rotating set of connections to the proxy (proxy/conns.go)\<close>

text \<open>
  \<open>GRPConnections\<close>: the connections added with \<open>Add\<close>, six slices of clients (one client of
  each service per connection) and one cursor \<open>next\<close> that the six \<open>GetNext\<close> methods share.
  The generated constructors of the clients are the parameter \<open>mk\<close>. The mutex makes every
  method one step. The contract of a \<open>GetNext\<close> method is the locale \<open>rotation\<close>, interpreted
  for all six; the theorems say that calls rotate over the connections whatever services they
  ask for, and that they never index out of range once a connection was added.
\<close>

datatype service = AccountSvc | BlockSvc | ChainSvc | EventSvc | TransactionSvc | DecodeSvc

record ('c, 'k) GRPConnections =
  gc_next :: int
  gc_len :: int
  gc_Conn :: "'c list"
  gc_AccountClient :: "'k list"
  gc_BlockClient :: "'k list"
  gc_ChainClient :: "'k list"
  gc_EventServiceClient :: "'k list"
  gc_TransactionServiceClient :: "'k list"
  gc_DecodeServiceClient :: "'k list"

definition NewGRPConnections :: "('c, 'k) GRPConnections" where
  "NewGRPConnections =
     \<lparr>gc_next = 0, gc_len = 0, gc_Conn = [], gc_AccountClient = [], gc_BlockClient = [],
      gc_ChainClient = [], gc_EventServiceClient = [], gc_TransactionServiceClient = [],
      gc_DecodeServiceClient = []\<rparr>"

definition inc :: "('c, 'k) GRPConnections \<Rightarrow> ('c, 'k) GRPConnections" where
  "inc c = (if gc_next c = gc_len c - 1 then c\<lparr>gc_next := 0\<rparr>
            else c\<lparr>gc_next := gc_next c + 1\<rparr>)"

text \<open>The connections that \<open>Close\<close> closes, in order; the object itself keeps them.\<close>

definition CloseConns :: "('c, 'k) GRPConnections \<Rightarrow> 'c list" where
  "CloseConns c = gc_Conn c"

definition Add :: "(service \<Rightarrow> 'c \<Rightarrow> 'k) \<Rightarrow> 'c \<Rightarrow> ('c, 'k) GRPConnections \<Rightarrow>
    ('c, 'k) GRPConnections" where
  "Add mk conn c =
     c\<lparr>gc_Conn := gc_Conn c @ [conn],
       gc_len := gc_len c + 1,
       gc_AccountClient := gc_AccountClient c @ [mk AccountSvc conn],
       gc_BlockClient := gc_BlockClient c @ [mk BlockSvc conn],
       gc_ChainClient := gc_ChainClient c @ [mk ChainSvc conn],
       gc_EventServiceClient := gc_EventServiceClient c @ [mk EventSvc conn],
       gc_TransactionServiceClient := gc_TransactionServiceClient c @ [mk TransactionSvc conn],
       gc_DecodeServiceClient := gc_DecodeServiceClient c @ [mk DecodeSvc conn]\<rparr>"

text \<open>\<open>s[next]\<close> with an \<open>int\<close> index.\<close>

definition at_cursor :: "'k list \<Rightarrow> ('c, 'k) GRPConnections \<Rightarrow> 'k go" where
  "at_cursor ks c = (if 0 \<le> gc_next c then go_index ks (nat (gc_next c)) else Panic IndexOutOfRange)"

definition GetNextAccountClient ::
  "('c, 'k) GRPConnections \<Rightarrow> ('k \<times> ('c, 'k) GRPConnections) go" where
  "GetNextAccountClient c = fmap_go (\<lambda>ac. (ac, inc c)) (at_cursor (gc_AccountClient c) c)"

definition GetNextBlockClient ::
  "('c, 'k) GRPConnections \<Rightarrow> ('k \<times> ('c, 'k) GRPConnections) go" where
  "GetNextBlockClient c = fmap_go (\<lambda>bc. (bc, inc c)) (at_cursor (gc_BlockClient c) c)"

definition GetNextChainClient ::
  "('c, 'k) GRPConnections \<Rightarrow> ('k \<times> ('c, 'k) GRPConnections) go" where
  "GetNextChainClient c = fmap_go (\<lambda>cc. (cc, inc c)) (at_cursor (gc_ChainClient c) c)"

definition GetNextEventServiceClient ::
  "('c, 'k) GRPConnections \<Rightarrow> ('k \<times> ('c, 'k) GRPConnections) go" where
  "GetNextEventServiceClient c =
     fmap_go (\<lambda>esc. (esc, inc c)) (at_cursor (gc_EventServiceClient c) c)"

definition GetNextTransactionServiceClient ::
  "('c, 'k) GRPConnections \<Rightarrow> ('k \<times> ('c, 'k) GRPConnections) go" where
  "GetNextTransactionServiceClient c =
     fmap_go (\<lambda>tsc. (tsc, inc c)) (at_cursor (gc_TransactionServiceClient c) c)"

definition GetNextDecodeServiceClient ::
  "('c, 'k) GRPConnections \<Rightarrow> ('k \<times> ('c, 'k) GRPConnections) go" where
  "GetNextDecodeServiceClient c =
     fmap_go (\<lambda>bc. (bc, inc c)) (at_cursor (gc_DecodeServiceClient c) c)"

text \<open>The methods of \<open>GRPConnectionsIface\<close>, by the service they serve.\<close>

fun GetNext :: "service \<Rightarrow> ('c, 'k) GRPConnections \<Rightarrow> ('k \<times> ('c, 'k) GRPConnections) go" where
  "GetNext AccountSvc = GetNextAccountClient"
| "GetNext BlockSvc = GetNextBlockClient"
| "GetNext ChainSvc = GetNextChainClient"
| "GetNext EventSvc = GetNextEventServiceClient"
| "GetNext TransactionSvc = GetNextTransactionServiceClient"
| "GetNext DecodeSvc = GetNextDecodeServiceClient"

section \<open>Invariant\<close>

definition conns_inv :: "(service \<Rightarrow> 'c \<Rightarrow> 'k) \<Rightarrow> ('c, 'k) GRPConnections \<Rightarrow> bool" where
  "conns_inv mk c \<longleftrightarrow>
     gc_len c = int (length (gc_Conn c)) \<and> 0 \<le> gc_next c \<and>
     (gc_next c < gc_len c \<or> gc_next c = 0 \<and> gc_Conn c = []) \<and>
     gc_AccountClient c = map (mk AccountSvc) (gc_Conn c) \<and>
     gc_BlockClient c = map (mk BlockSvc) (gc_Conn c) \<and>
     gc_ChainClient c = map (mk ChainSvc) (gc_Conn c) \<and>
     gc_EventServiceClient c = map (mk EventSvc) (gc_Conn c) \<and>
     gc_TransactionServiceClient c = map (mk TransactionSvc) (gc_Conn c) \<and>
     gc_DecodeServiceClient c = map (mk DecodeSvc) (gc_Conn c)"

text \<open>The cursor as an index into the connections.\<close>

definition cursor :: "('c, 'k) GRPConnections \<Rightarrow> nat" where
  "cursor c = nat (gc_next c)"

lemma conns_inv_new: "conns_inv mk NewGRPConnections"
  by (simp add: conns_inv_def NewGRPConnections_def)

lemma conns_inv_add: "conns_inv mk c \<Longrightarrow> conns_inv mk (Add mk conn c)"
  by (auto simp: conns_inv_def Add_def)

lemma cursor_add [simp]: "cursor (Add mk conn c) = cursor c"
  by (simp add: cursor_def Add_def)

lemma Conn_add [simp]: "gc_Conn (Add mk conn c) = gc_Conn c @ [conn]"
  by (simp add: Add_def)

lemma Conn_inc [simp]: "gc_Conn (inc c) = gc_Conn c"
  by (simp add: inc_def)

lemma cursor_bound: "conns_inv mk c \<Longrightarrow> gc_Conn c \<noteq> [] \<Longrightarrow> cursor c < length (gc_Conn c)"
  by (auto simp: conns_inv_def cursor_def)

lemma conns_inv_inc: "conns_inv mk c \<Longrightarrow> gc_Conn c \<noteq> [] \<Longrightarrow> conns_inv mk (inc c)"
  by (auto simp: conns_inv_def inc_def)

lemma cursor_inc: "conns_inv mk c \<Longrightarrow> gc_Conn c \<noteq> [] \<Longrightarrow>
    cursor (inc c) = Suc (cursor c) mod length (gc_Conn c)"
proof -
  assume i: "conns_inv mk c" and ne: "gc_Conn c \<noteq> []"
  from i have len: "gc_len c = int (length (gc_Conn c))" and pos: "0 \<le> gc_next c"
    by (simp_all add: conns_inv_def)
  from cursor_bound[OF i ne] have lt: "cursor c < length (gc_Conn c)" .
  show ?thesis
  proof (cases "gc_next c = gc_len c - 1")
    case True
    with len have "gc_next c + 1 = int (length (gc_Conn c))" by simp
    then have "Suc (cursor c) = length (gc_Conn c)" using pos unfolding cursor_def by linarith
    with True show ?thesis by (simp add: inc_def cursor_def)
  next
    case False
    with len pos lt have "Suc (cursor c) < length (gc_Conn c)" by (simp add: cursor_def)
    with False pos show ?thesis by (simp add: inc_def cursor_def nat_add_distrib)
  qed
qed

lemma at_cursor_map: "conns_inv mk c \<Longrightarrow> gc_Conn c \<noteq> [] \<Longrightarrow>
    at_cursor (map f (gc_Conn c)) c = Ret (f (gc_Conn c ! cursor c))"
  using cursor_bound[of mk c] by (auto simp: at_cursor_def go_index_def conns_inv_def cursor_def)

section \<open>The contract of a \<open>GetNext\<close> method\<close>

text \<open>
  A method that hands out the client at the cursor and moves the cursor one step round. A
  caller that uses only this method meets the clients in rotation.
\<close>

fun call_many :: "('s \<Rightarrow> ('k \<times> 's) go) \<Rightarrow> nat \<Rightarrow> 's \<Rightarrow> ('k list \<times> 's) go" where
  "call_many get 0 s = Ret ([], s)"
| "call_many get (Suc n) s =
     bind_go (get s) (\<lambda>(k, s'). fmap_go (\<lambda>(ks, t). (k # ks, t)) (call_many get n s'))"

locale rotation =
  fixes get :: "'s \<Rightarrow> ('k \<times> 's) go"
    and ok :: "'s \<Rightarrow> bool"
    and clients :: "'s \<Rightarrow> 'k list"
    and pos :: "'s \<Rightarrow> nat"
  assumes ok_pos: "ok s \<Longrightarrow> pos s < length (clients s)"
    and get_step: "ok s \<Longrightarrow> \<exists>s'. get s = Ret (clients s ! pos s, s') \<and> ok s' \<and>
      clients s' = clients s \<and> pos s' = Suc (pos s) mod length (clients s)"
begin

lemma call_many_rotates:
  "ok s \<Longrightarrow> \<exists>s'. call_many get n s =
       Ret (map (\<lambda>i. clients s ! ((pos s + i) mod length (clients s))) [0..<n], s') \<and> ok s' \<and>
     clients s' = clients s \<and> pos s' = (pos s + n) mod length (clients s)"
proof (induction n arbitrary: s)
  case 0
  with ok_pos[of s] show ?case by simp
next
  case (Suc n)
  from get_step[OF Suc.prems] obtain t where t: "get s = Ret (clients s ! pos s, t)" "ok t"
    "clients t = clients s" "pos t = Suc (pos s) mod length (clients s)" by auto
  from Suc.IH[OF t(2)] obtain u where u: "call_many get n t =
      Ret (map (\<lambda>i. clients t ! ((pos t + i) mod length (clients t))) [0..<n], u)"
    "ok u" "clients u = clients t" "pos u = (pos t + n) mod length (clients t)" by auto
  let ?at = "\<lambda>i. clients s ! (i mod length (clients s))"
  have tl: "map (\<lambda>i. clients t ! ((pos t + i) mod length (clients t))) [0..<n] =
      map (\<lambda>i. ?at (pos s + Suc i)) [0..<n]"
    using t(3,4) by (simp add: mod_add_left_eq)
  have "clients s ! pos s = ?at (pos s + 0)" using ok_pos[OF Suc.prems] by simp
  with t(1) u(1) tl have "call_many get (Suc n) s = Ret (map (\<lambda>i. ?at (pos s + i)) [0..<Suc n], u)"
    unfolding map_upt_Suc by simp
  moreover have "pos u = (pos s + Suc n) mod length (clients s)"
    using u(4) t(3,4) by (simp add: mod_add_left_eq)
  ultimately show ?case using u(2,3) t(3) by auto
qed

lemma full_turn: "ok s \<Longrightarrow> \<exists>s'. call_many get (length (clients s)) s =
    Ret (rotate (pos s) (clients s), s') \<and> ok s' \<and> clients s' = clients s \<and> pos s' = pos s"
proof -
  assume ok: "ok s"
  have "map (\<lambda>i. clients s ! ((pos s + i) mod length (clients s))) [0..<length (clients s)] =
      rotate (pos s) (clients s)"
    by (rule nth_equalityI) (auto simp: nth_rotate add.commute)
  with call_many_rotates[OF ok, of "length (clients s)"] ok_pos[OF ok] show ?thesis by auto
qed

end

definition conns_ok :: "(service \<Rightarrow> 'c \<Rightarrow> 'k) \<Rightarrow> ('c, 'k) GRPConnections \<Rightarrow> bool" where
  "conns_ok mk c \<longleftrightarrow> conns_inv mk c \<and> gc_Conn c \<noteq> []"

lemma GetNext_step: "conns_ok mk c \<Longrightarrow>
    GetNext svc c = Ret (mk svc (gc_Conn c ! cursor c), inc c)"
  by (cases svc)
    (auto simp: conns_ok_def conns_inv_def at_cursor_def cursor_def go_index_def
      GetNextAccountClient_def GetNextBlockClient_def GetNextChainClient_def
      GetNextEventServiceClient_def GetNextTransactionServiceClient_def
      GetNextDecodeServiceClient_def)

lemma conns_ok_inc: "conns_ok mk c \<Longrightarrow> conns_ok mk (inc c)"
  by (simp add: conns_ok_def conns_inv_inc)

lemma GetNext_rotation:
  "rotation (GetNext svc) (conns_ok mk) (\<lambda>c. map (mk svc) (gc_Conn c)) cursor"
proof
  fix c assume ok: "conns_ok mk c"
  then show "cursor c < length (map (mk svc) (gc_Conn c))"
    using cursor_bound[of mk c] by (simp add: conns_ok_def)
  with ok show "\<exists>c'. GetNext svc c = Ret (map (mk svc) (gc_Conn c) ! cursor c, c') \<and>
      conns_ok mk c' \<and> map (mk svc) (gc_Conn c') = map (mk svc) (gc_Conn c) \<and>
      cursor c' = Suc (cursor c) mod length (map (mk svc) (gc_Conn c))"
    using cursor_inc[of mk c] conns_ok_inc[OF ok] GetNext_step[OF ok]
    by (simp add: conns_ok_def)
qed

interpretation account_rr: rotation GetNextAccountClient "conns_ok mk"
    "\<lambda>c. map (mk AccountSvc) (gc_Conn c)" cursor for mk :: "service \<Rightarrow> 'c \<Rightarrow> 'k"
  using GetNext_rotation[of AccountSvc mk] by simp

interpretation block_rr: rotation GetNextBlockClient "conns_ok mk"
    "\<lambda>c. map (mk BlockSvc) (gc_Conn c)" cursor for mk :: "service \<Rightarrow> 'c \<Rightarrow> 'k"
  using GetNext_rotation[of BlockSvc mk] by simp

interpretation chain_rr: rotation GetNextChainClient "conns_ok mk"
    "\<lambda>c. map (mk ChainSvc) (gc_Conn c)" cursor for mk :: "service \<Rightarrow> 'c \<Rightarrow> 'k"
  using GetNext_rotation[of ChainSvc mk] by simp

interpretation event_rr: rotation GetNextEventServiceClient "conns_ok mk"
    "\<lambda>c. map (mk EventSvc) (gc_Conn c)" cursor for mk :: "service \<Rightarrow> 'c \<Rightarrow> 'k"
  using GetNext_rotation[of EventSvc mk] by simp

interpretation transaction_rr: rotation GetNextTransactionServiceClient "conns_ok mk"
    "\<lambda>c. map (mk TransactionSvc) (gc_Conn c)" cursor for mk :: "service \<Rightarrow> 'c \<Rightarrow> 'k"
  using GetNext_rotation[of TransactionSvc mk] by simp

interpretation decode_rr: rotation GetNextDecodeServiceClient "conns_ok mk"
    "\<lambda>c. map (mk DecodeSvc) (gc_Conn c)" cursor for mk :: "service \<Rightarrow> 'c \<Rightarrow> 'k"
  using GetNext_rotation[of DecodeSvc mk] by simp

section \<open>Sequences of calls\<close>

text \<open>The set-up of \<open>main\<close>: every address of the configuration is dialled and added.\<close>

definition add_all :: "(service \<Rightarrow> 'c \<Rightarrow> 'k) \<Rightarrow> 'c list \<Rightarrow> ('c, 'k) GRPConnections \<Rightarrow>
    ('c, 'k) GRPConnections" where
  "add_all mk conns c = fold (Add mk) conns c"

fun GetNexts :: "service list \<Rightarrow> ('c, 'k) GRPConnections \<Rightarrow>
    ('k list \<times> ('c, 'k) GRPConnections) go" where
  "GetNexts [] c = Ret ([], c)"
| "GetNexts (svc # svcs) c =
     bind_go (GetNext svc c) (\<lambda>(k, c'). fmap_go (\<lambda>(ks, d). (k # ks, d)) (GetNexts svcs c'))"

datatype 'c conn_op = OpAdd 'c | OpGet service

fun run_ops :: "(service \<Rightarrow> 'c \<Rightarrow> 'k) \<Rightarrow> 'c conn_op list \<Rightarrow> ('c, 'k) GRPConnections \<Rightarrow>
    ('k list \<times> ('c, 'k) GRPConnections) go" where
  "run_ops mk [] c = Ret ([], c)"
| "run_ops mk (OpAdd conn # ops) c = run_ops mk ops (Add mk conn c)"
| "run_ops mk (OpGet svc # ops) c =
     bind_go (GetNext svc c) (\<lambda>(k, c'). fmap_go (\<lambda>(ks, d). (k # ks, d)) (run_ops mk ops c'))"

lemma add_all_inv: "conns_inv mk c \<Longrightarrow> conns_inv mk (add_all mk conns c) \<and>
    gc_Conn (add_all mk conns c) = gc_Conn c @ conns \<and> cursor (add_all mk conns c) = cursor c"
  unfolding add_all_def
  by (induction conns arbitrary: c) (simp_all add: conns_inv_add)

lemma GetNexts_rotates: "conns_ok mk c \<Longrightarrow>
    \<exists>d. GetNexts svcs c = Ret (map (\<lambda>i. mk (svcs ! i)
        (gc_Conn c ! ((cursor c + i) mod length (gc_Conn c)))) [0..<length svcs], d)"
proof (induction svcs arbitrary: c)
  case (Cons svc svcs)
  note ok = Cons.prems
  from ok have cur: "cursor (inc c) = Suc (cursor c) mod length (gc_Conn c)"
    and lt: "cursor c < length (gc_Conn c)"
    using cursor_inc[of mk c] cursor_bound[of mk c] by (simp_all add: conns_ok_def)
  from Cons.IH[OF conns_ok_inc[OF ok]] obtain d where
    "GetNexts svcs (inc c) = Ret (map (\<lambda>i. mk (svcs ! i)
        (gc_Conn c ! ((cursor (inc c) + i) mod length (gc_Conn c)))) [0..<length svcs], d)"
    by auto
  moreover have "(cursor (inc c) + i) mod length (gc_Conn c) =
      (cursor c + Suc i) mod length (gc_Conn c)" for i
    unfolding cur by (simp add: mod_add_left_eq)
  ultimately show ?case
    using lt unfolding length_Cons map_upt_Suc by (simp add: GetNext_step[OF ok])
qed simp

lemma run_ops_ok: "conns_inv mk c \<Longrightarrow> gc_Conn c \<noteq> [] \<Longrightarrow>
    \<exists>ks d. run_ops mk ops c = Ret (ks, d) \<and> conns_inv mk d \<and>
      set (gc_Conn c) \<subseteq> set (gc_Conn d) \<and>
      set ks \<subseteq> (\<Union>svc \<in> {svc. OpGet svc \<in> set ops}. mk svc ` set (gc_Conn d))"
proof (induction mk ops c rule: run_ops.induct)
  case (2 mk conn ops c)
  then have "conns_inv mk (Add mk conn c)" by (simp add: conns_inv_add)
  with 2 obtain ks d where "run_ops mk ops (Add mk conn c) = Ret (ks, d)" "conns_inv mk d"
    "set (gc_Conn (Add mk conn c)) \<subseteq> set (gc_Conn d)"
    "set ks \<subseteq> (\<Union>svc \<in> {svc. OpGet svc \<in> set ops}. mk svc ` set (gc_Conn d))" by auto
  then show ?case by auto
next
  case (3 mk svc ops c)
  then have ok: "conns_ok mk c" by (simp add: conns_ok_def)
  note g = GetNext_step[OF ok, of svc]
  from conns_ok_inc[OF ok] have "conns_inv mk (inc c)" "gc_Conn (inc c) \<noteq> []"
    by (simp_all add: conns_ok_def)
  from 3(1)[OF this] obtain ks d where r: "run_ops mk ops (inc c) = Ret (ks, d)"
    "conns_inv mk d" "set (gc_Conn c) \<subseteq> set (gc_Conn d)"
    "set ks \<subseteq> (\<Union>svc \<in> {svc. OpGet svc \<in> set ops}. mk svc ` set (gc_Conn d))"
    by auto
  from cursor_bound[OF 3(2,3)] have "gc_Conn c ! cursor c \<in> set (gc_Conn d)"
    using r(3) by auto
  with g r show ?case by (simp, blast)
qed simp

text \<open>
  After the configured connections were added, the i-th call of any sequence of
  \<open>GetNext\<close> calls, whichever services they ask for, returns the client of its service on
  connection \<open>i mod n\<close>: the six methods share one round-robin cursor.
\<close>

theorem calls_rotate_over_connections:
  assumes "conns \<noteq> []"
  shows "\<exists>d. GetNexts svcs (add_all mk conns NewGRPConnections) =
    Ret (map (\<lambda>i. mk (svcs ! i) (conns ! (i mod length conns))) [0..<length svcs], d)"
proof -
  let ?c = "add_all mk conns NewGRPConnections"
  have c: "conns_inv mk ?c" "gc_Conn ?c = conns" "cursor ?c = 0"
    using add_all_inv[OF conns_inv_new, of mk conns]
    by (simp_all add: cursor_def NewGRPConnections_def)
  with assms have "conns_ok mk ?c" by (simp add: conns_ok_def)
  from GetNexts_rotates[OF this, of svcs] c show ?thesis by simp
qed

theorem calls_rotate_over_connections_witness:
  "\<exists>d. GetNexts [BlockSvc, DecodeSvc, BlockSvc]
      (add_all (\<lambda>s c. (s, c)) [''a'', ''b''] NewGRPConnections) =
    Ret ([(BlockSvc, ''a''), (DecodeSvc, ''b''), (BlockSvc, ''a'')], d)"
  using calls_rotate_over_connections[of "[''a'', ''b'']" "[BlockSvc, DecodeSvc, BlockSvc]"
      "\<lambda>s c. (s, c)"]
  by (simp add: upt_rec)

text \<open>
  Once one connection was added, no later sequence of \<open>Add\<close> and \<open>GetNext\<close> calls, in any
  order, indexes out of range; every client handed out belongs to a connection that was added
  and to a service that was asked for.
\<close>

theorem conns_never_out_of_range:
  "\<exists>ks d. run_ops mk (OpAdd conn # ops) NewGRPConnections = Ret (ks, d) \<and> conns_inv mk d \<and>
    set ks \<subseteq> (\<Union>svc \<in> {svc. OpGet svc \<in> set ops}. mk svc ` set (gc_Conn d))"
proof -
  have "conns_inv mk (Add mk conn NewGRPConnections)" by (simp add: conns_inv_add conns_inv_new)
  from run_ops_ok[OF this, of ops] show ?thesis by auto
qed

theorem conns_never_out_of_range_witness:
  "\<exists>ks d. run_ops (\<lambda>s c. (s, c)) [OpAdd ''a'', OpGet BlockSvc] NewGRPConnections =
      Ret (ks, d) \<and> conns_inv (\<lambda>s c. (s, c)) d"
  using conns_never_out_of_range[of "\<lambda>s c. (s, c)" "''a''" "[OpGet BlockSvc]"] by auto

text \<open>
  Starting anywhere in the rotation, as many consecutive \<open>GetNextBlockClient\<close> calls as
  there are connections use each connection's block client exactly once, and leave the cursor
  where it was.
\<close>

theorem block_clients_full_turn:
  assumes "conns_inv mk c" and "gc_Conn c \<noteq> []"
  shows "\<exists>d. call_many GetNextBlockClient (length (gc_Conn c)) c =
      Ret (rotate (cursor c) (map (mk BlockSvc) (gc_Conn c)), d) \<and> cursor d = cursor c"
proof -
  from assms have "conns_ok mk c" by (simp add: conns_ok_def)
  from block_rr.full_turn[OF this] show ?thesis by auto
qed

theorem block_clients_full_turn_witness:
  "\<exists>d. call_many GetNextBlockClient 2
      (inc (add_all (\<lambda>s c. (s, c)) [''a'', ''b''] NewGRPConnections)) =
    Ret ([(BlockSvc, ''b''), (BlockSvc, ''a'')], d)"
proof -
  let ?c = "add_all (\<lambda>s c. (s, c)) [''a'', ''b''] NewGRPConnections :: (string, service \<times> string) GRPConnections"
  have i: "conns_inv (\<lambda>s c. (s, c)) ?c" "gc_Conn ?c = [''a'', ''b'']" "cursor ?c = 0"
    using add_all_inv[OF conns_inv_new, of "\<lambda>s c. (s, c)" "[''a'', ''b'']"]
    by (simp_all add: cursor_def NewGRPConnections_def)
  then have "conns_inv (\<lambda>s c. (s, c)) (inc ?c)" "cursor (inc ?c) = 1"
    using cursor_inc[OF i(1)] by (simp_all add: conns_inv_inc)
  from block_clients_full_turn[OF this(1)] this(2) i(2) show ?thesis
    by (auto simp: numeral_2_eq_2)
qed

section \<open>Refinement of a rotating list\<close>

text \<open>The abstract set of connections: a list and a position in it.\<close>

definition abs_conns :: "('c, 'k) GRPConnections \<Rightarrow> 'c list \<times> nat" where
  "abs_conns c = (gc_Conn c, cursor c)"

fun spec_ops :: "(service \<Rightarrow> 'c \<Rightarrow> 'k) \<Rightarrow> 'c conn_op list \<Rightarrow> 'c list \<times> nat \<Rightarrow> 'k list \<times> ('c list \<times> nat)" where
  "spec_ops mk [] a = ([], a)"
| "spec_ops mk (OpAdd conn # ops) (cs, p) = spec_ops mk ops (cs @ [conn], p)"
| "spec_ops mk (OpGet svc # ops) (cs, p) =
     (case spec_ops mk ops (cs, Suc p mod length cs) of (ks, a) \<Rightarrow> (mk svc (cs ! p) # ks, a))"

lemma run_ops_refines:
  "conns_ok mk c \<Longrightarrow> \<exists>d. run_ops mk ops c = Ret (fst (spec_ops mk ops (abs_conns c)), d) \<and>
     abs_conns d = snd (spec_ops mk ops (abs_conns c)) \<and> conns_ok mk d"
proof (induction mk ops c rule: run_ops.induct)
  case (2 mk conn ops c)
  then have "conns_ok mk (Add mk conn c)" by (simp add: conns_ok_def conns_inv_add)
  from 2(1)[OF this] show ?case by (simp add: abs_conns_def)
next
  case (3 mk svc ops c)
  note ok = 3(2)
  have a: "abs_conns (inc c) = (gc_Conn c, Suc (cursor c) mod length (gc_Conn c))"
    using ok cursor_inc[of mk c] by (simp add: abs_conns_def conns_ok_def)
  from 3(1)[OF conns_ok_inc[OF ok]] obtain d where
    "run_ops mk ops (inc c) = Ret (fst (spec_ops mk ops (abs_conns (inc c))), d)"
    "abs_conns d = snd (spec_ops mk ops (abs_conns (inc c)))" "conns_ok mk d" by blast
  then show ?case
    using GetNext_step[OF ok, of svc]
    by (simp add: a) (simp add: abs_conns_def split: prod.split)
qed simp

text \<open>
  C10: Seven slices, a length and a cursor implement one list with a position: from the first
  connection on, any sequence of \<open>Add\<close> and \<open>GetNext\<close> calls returns without a panic the clients
  that the abstract rotating list gives, and reaches its state.
\<close>

theorem conns_refine_rotating_list:
  "\<exists>d. run_ops mk (OpAdd conn # ops) NewGRPConnections = Ret (fst (spec_ops mk ops ([conn], 0)), d) \<and>
    abs_conns d = snd (spec_ops mk ops ([conn], 0))"
proof -
  have "conns_ok mk (Add mk conn NewGRPConnections)"
    by (simp add: conns_ok_def conns_inv_add conns_inv_new)
  from run_ops_refines[OF this, of ops] show ?thesis
    by (auto simp: abs_conns_def) (simp_all add: NewGRPConnections_def cursor_def)
qed

end
