(* ===== verification/Proxy_Client.thy ===== *)
theory Proxy_Client
  imports Grpc_Conns
begin

section \<open>The client of the proxy (proxy/client.go)\<close>

text \<open>
  One definition per method of \<open>Client\<close>. The state is the set of connections and the
  observations recorded in \<open>rawRequestGRPCDuration\<close> (endpoint and status labels; the duration
  is left out). The rate limiter's answer \<open>wait\<close> (nil or an error), the remote call \<open>rpc\<close>
  and the rendering \<open>errtext\<close> of an error are parameters: none of them is code of this
  repository. An \<open>int64\<close> height is the signed reading of the 64 bits.
\<close>

record ('c, 'k) Client =
  cl_conn :: "('c, 'k) GRPConnections"
  cl_metrics :: "(string \<times> string) list"

type_synonym ('r, 'c, 'k) call = "'r go \<times> ('c, 'k) Client"

definition NewClient :: "('c, 'k) GRPConnections \<Rightarrow> ('c, 'k) Client" where
  "NewClient conns = \<lparr>cl_conn = conns, cl_metrics = []\<rparr>"

definition observe :: "string \<Rightarrow> string \<Rightarrow> ('c, 'k) Client \<Rightarrow> ('c, 'k) Client" where
  "observe endpoint status c = c\<lparr>cl_metrics := cl_metrics c @ [(endpoint, status)]\<rparr>"

text \<open>\<open>errors.Wrapf(err, f, args...)\<close> of \<open>github.com/pkg/errors\<close>: the message, then the cause.\<close>

definition errors_Wrapf :: "goerror \<Rightarrow> string \<Rightarrow> fmtarg list \<Rightarrow> goerror" where
  "errors_Wrapf err f args = Wrapf (f @ '': %w'') args err"

text \<open>A \<open>GetNext\<close> method called on the client's connections.\<close>

definition with_next :: "(('c, 'k) GRPConnections \<Rightarrow> ('k \<times> ('c, 'k) GRPConnections) go) \<Rightarrow>
    ('c, 'k) Client \<Rightarrow> ('k \<Rightarrow> ('c, 'k) Client \<Rightarrow> ('r, 'c, 'k) call) \<Rightarrow> ('r, 'c, 'k) call" where
  "with_next get c f =
     (case get (cl_conn c) of
        Ret (k, conn) \<Rightarrow> f k (c\<lparr>cl_conn := conn\<rparr>)
      | Fail e \<Rightarrow> (Fail e, c)
      | Panic p \<Rightarrow> (Panic p, c)
      | Blocked \<Rightarrow> (Blocked, c))"

subsection \<open>Requests\<close>

text \<open>\<open>structs.DecodeDataRequest\<close> and the request it is copied into.\<close>

record DecodeDataRequest =
  ddr_Block :: "u8 list"
  ddr_Chain :: string
  ddr_BlockHash :: string
  ddr_Events :: "u8 list"
  ddr_Timestamp :: "u8 list"
  ddr_MetadataParent :: "u8 list"
  ddr_RuntimeParent :: "u8 list"
  ddr_CurrentEra :: "u8 list"
  ddr_NextFeeMultipier :: "u8 list"

record DecodeRequest =
  dq_MetadataParent :: "u8 list"
  dq_Block :: "u8 list"
  dq_BlockHash :: string
  dq_Events :: "u8 list"
  dq_Timestamp :: "u8 list"
  dq_RuntimeParent :: "u8 list"
  dq_CurrentEraParent :: "u8 list"
  dq_NextFeeMultiplierParent :: "u8 list"
  dq_Chain :: string

record AccountHeightRequest =
  aq_Height :: int
  aq_Address :: string

definition int64 :: "u64 \<Rightarrow> int" where
  "int64 h = sint h"

subsection \<open>Methods\<close>

definition DecodeData :: "('k \<Rightarrow> DecodeRequest \<Rightarrow> goerror + 'r) \<Rightarrow> DecodeDataRequest \<Rightarrow> u64 \<Rightarrow>
    ('c, 'k) Client \<Rightarrow> ('r, 'c, 'k) call" where
  "DecodeData rpc ddr height c =
     with_next GetNextDecodeServiceClient c (\<lambda>dc c.
       case rpc dc \<lparr>dq_MetadataParent = ddr_MetadataParent ddr,
                    dq_Block = ddr_Block ddr,
                    dq_BlockHash = ddr_BlockHash ddr,
                    dq_Events = ddr_Events ddr,
                    dq_Timestamp = ddr_Timestamp ddr,
                    dq_RuntimeParent = ddr_RuntimeParent ddr,
                    dq_CurrentEraParent = ddr_CurrentEra ddr,
                    dq_NextFeeMultiplierParent = ddr_NextFeeMultipier ddr,
                    dq_Chain = ddr_Chain ddr\<rparr> of
         Inl err \<Rightarrow> (Fail (errors_Wrapf err ''error calling decode'' []),
                     observe ''DecodeServiceClient'' ''ERR'' c)
       | Inr res \<Rightarrow> (Ret res, observe ''DecodeServiceClient'' ''OK'' c))"

definition GetAccountBalance :: "goerror option \<Rightarrow> ('k \<Rightarrow> AccountHeightRequest \<Rightarrow> goerror + 'r) \<Rightarrow>
    string \<Rightarrow> u64 \<Rightarrow> ('c, 'k) Client \<Rightarrow> ('r, 'c, 'k) call" where
  "GetAccountBalance wait rpc account height c =
     (case wait of Some err \<Rightarrow> (Fail err, c)
      | None \<Rightarrow>
        with_next GetNextAccountClient c (\<lambda>ac c.
          case rpc ac \<lparr>aq_Height = int64 height, aq_Address = account\<rparr> of
            Inl err \<Rightarrow>
              (Fail (errors_Wrapf err ''Error while getting account balance by height: %d''
                       [AInt (uint height)]),
               observe ''GetAccountBalanceByHeight'' ''ERR'' c)
          | Inr res \<Rightarrow> (Ret res, observe ''GetAccountBalanceByHeight'' ''OK'' c)))"

definition GetBlockByHeight :: "goerror option \<Rightarrow> ('k \<Rightarrow> int \<Rightarrow> goerror + 'r) \<Rightarrow> u64 \<Rightarrow>
    ('c, 'k) Client \<Rightarrow> ('r, 'c, 'k) call" where
  "GetBlockByHeight wait rpc height c =
     (case wait of Some err \<Rightarrow> (Fail err, c)
      | None \<Rightarrow>
        with_next GetNextBlockClient c (\<lambda>bc c.
          case rpc bc (int64 height) of
            Inl err \<Rightarrow>
              (Fail (errors_Wrapf err ''Error while getting block by height: %d''
                       [AInt (uint height)]),
               observe ''GetBlockByHeight'' ''ERR'' c)
          | Inr res \<Rightarrow> (Ret res, observe ''GetBlockByHeight'' ''OK'' c)))"

definition GetEventsByHeight :: "goerror option \<Rightarrow> ('k \<Rightarrow> int \<Rightarrow> goerror + 'r) \<Rightarrow> u64 \<Rightarrow>
    ('c, 'k) Client \<Rightarrow> ('r, 'c, 'k) call" where
  "GetEventsByHeight wait rpc height c =
     (case wait of Some err \<Rightarrow> (Fail err, c)
      | None \<Rightarrow>
        with_next GetNextEventServiceClient c (\<lambda>ec c.
          case rpc ec (int64 height) of
            Inl err \<Rightarrow>
              (Fail (errors_Wrapf err ''Error while getting event by height: %d''
                       [AInt (uint height)]),
               observe ''GetEventsByHeight'' ''ERR'' c)
          | Inr res \<Rightarrow> (Ret res, observe ''GetEventsByHeight'' ''OK'' c)))"

definition GetMetaByHeight :: "goerror option \<Rightarrow> ('k \<Rightarrow> int \<Rightarrow> goerror + 'r) \<Rightarrow> u64 \<Rightarrow>
    ('c, 'k) Client \<Rightarrow> ('r, 'c, 'k) call" where
  "GetMetaByHeight wait rpc height c =
     (case wait of Some err \<Rightarrow> (Fail err, c)
      | None \<Rightarrow>
        with_next GetNextChainClient c (\<lambda>cc c.
          case rpc cc (int64 height) of
            Inl err \<Rightarrow>
              (Fail (errors_Wrapf err ''Error while getting meta by height: %d''
                       [AInt (uint height)]),
               observe ''GetMetaByHeight'' ''ERR'' c)
          | Inr res \<Rightarrow> (Ret res, observe ''GetMetaByHeight'' ''OK'' c)))"

definition GetHead :: "('k \<Rightarrow> goerror + 'r) \<Rightarrow> ('c, 'k) Client \<Rightarrow> ('r, 'c, 'k) call" where
  "GetHead rpc c =
     with_next GetNextChainClient c (\<lambda>cc c.
       case rpc cc of
         Inl err \<Rightarrow> (Fail (errors_Wrapf err ''Error while getting head'' []),
                     observe ''GetHead'' ''ERR'' c)
       | Inr res \<Rightarrow> (Ret res, observe ''GetHead'' ''OK'' c))"

definition GetTransactionsByHeight :: "(goerror \<Rightarrow> string) \<Rightarrow> goerror option \<Rightarrow>
    ('k \<Rightarrow> int \<Rightarrow> goerror + 'r) \<Rightarrow> u64 \<Rightarrow> ('c, 'k) Client \<Rightarrow> ('r, 'c, 'k) call" where
  "GetTransactionsByHeight errtext wait rpc height c =
     (let req = int64 height in
      case wait of Some err \<Rightarrow> (Fail err, c)
      | None \<Rightarrow>
        with_next GetNextTransactionServiceClient c (\<lambda>tc c.
          case rpc tc req of
            Inl err \<Rightarrow>
              (let err = errors_Wrapf err ''Error while getting transaction by height: %d''
                           [AInt (uint height)]
               in (Fail err, observe ''GetTransactionsByHeight'' (errtext err) c))
          | Inr res \<Rightarrow> (Ret res, observe ''GetTransactionsByHeight'' ''OK'' c)))"

section \<open>The contract of a rate-limited call by height\<close>

text \<open>
  \<open>call wait rpc h\<close> asks the limiter, takes the next client of its service, sends the height,
  and records one observation. The five methods that take a height satisfy it.
\<close>

locale height_call =
  fixes call :: "goerror option \<Rightarrow> ('k \<Rightarrow> int \<Rightarrow> goerror + 'r) \<Rightarrow> u64 \<Rightarrow> ('c, 'k) Client \<Rightarrow>
      ('r, 'c, 'k) call"
    and svc :: service
    and endpoint :: string
    and message :: string
    and bad :: "goerror \<Rightarrow> string"
  assumes limited: "call (Some e) rpc h c = (Fail e, c)"
    and passed: "call None rpc h c =
      with_next (GetNext svc) c (\<lambda>k c. case rpc k (int64 h) of
          Inl e \<Rightarrow> (Fail (errors_Wrapf e message [AInt (uint h)]),
                    observe endpoint (bad (errors_Wrapf e message [AInt (uint h)])) c)
        | Inr r \<Rightarrow> (Ret r, observe endpoint ''OK'' c))"
begin

lemma call_next:
  assumes "conns_ok mk (cl_conn c)"
  shows "call None rpc h c =
    (case rpc (mk svc (gc_Conn (cl_conn c) ! cursor (cl_conn c))) (int64 h) of
       Inl e \<Rightarrow> (Fail (errors_Wrapf e message [AInt (uint h)]),
                 observe endpoint (bad (errors_Wrapf e message [AInt (uint h)]))
                   (c\<lparr>cl_conn := inc (cl_conn c)\<rparr>))
     | Inr r \<Rightarrow> (Ret r, observe endpoint ''OK'' (c\<lparr>cl_conn := inc (cl_conn c)\<rparr>)))"
  using assms by (simp add: passed with_next_def GetNext_step)

lemma one_observation:
  assumes "conns_ok mk (cl_conn c)"
  obtains s where "cl_metrics (snd (call None rpc h c)) = cl_metrics c @ [(endpoint, s)]"
    and "conns_ok mk (cl_conn (snd (call None rpc h c)))"
proof (cases "rpc (mk svc (gc_Conn (cl_conn c) ! cursor (cl_conn c))) (int64 h)")
  case (Inl e)
  with that show ?thesis using conns_ok_inc[OF assms]
    by (simp add: call_next[OF assms] observe_def)
next
  case (Inr r)
  with that show ?thesis using conns_ok_inc[OF assms]
    by (simp add: call_next[OF assms] observe_def)
qed

lemma error_keeps_cause:
  assumes "conns_ok mk (cl_conn c)" and "fst (call None rpc h c) = Fail e"
  obtains e0 where "rpc (mk svc (gc_Conn (cl_conn c) ! cursor (cl_conn c))) (int64 h) = Inl e0"
    and "e = errors_Wrapf e0 message [AInt (uint h)]"
  using assms by (auto simp: call_next split: sum.split_asm)

lemma reply_is_from_rpc:
  assumes "conns_ok mk (cl_conn c)"
  shows "fst (call None rpc h c) = Ret r \<longleftrightarrow>
    rpc (mk svc (gc_Conn (cl_conn c) ! cursor (cl_conn c))) (int64 h) = Inr r"
  using assms by (simp add: call_next split: sum.split)

end

interpretation block_call: height_call GetBlockByHeight BlockSvc "''GetBlockByHeight''"
    "''Error while getting block by height: %d''" "\<lambda>e. ''ERR''"
  by unfold_locales (simp_all add: GetBlockByHeight_def)

interpretation events_call: height_call GetEventsByHeight EventSvc "''GetEventsByHeight''"
    "''Error while getting event by height: %d''" "\<lambda>e. ''ERR''"
  by unfold_locales (simp_all add: GetEventsByHeight_def)

interpretation meta_call: height_call GetMetaByHeight ChainSvc "''GetMetaByHeight''"
    "''Error while getting meta by height: %d''" "\<lambda>e. ''ERR''"
  by unfold_locales (simp_all add: GetMetaByHeight_def)

interpretation balance_call: height_call
    "\<lambda>wait rpc. GetAccountBalance wait (\<lambda>k q. rpc k (aq_Height q)) account" AccountSvc
    "''GetAccountBalanceByHeight''" "''Error while getting account balance by height: %d''"
    "\<lambda>e. ''ERR''" for account
  by unfold_locales (simp_all add: GetAccountBalance_def)

interpretation transactions_call: height_call "GetTransactionsByHeight errtext" TransactionSvc
    "''GetTransactionsByHeight''" "''Error while getting transaction by height: %d''" errtext
    for errtext
  by unfold_locales (simp_all only: GetTransactionsByHeight_def Let_def option.case GetNext.simps)

lemma int64_small: "uint h < 2 ^ 63 \<Longrightarrow> int64 h = uint h"
proof -
  assume "uint h < 2 ^ 63"
  moreover have "- (2 ^ 63) \<le> uint h" by (rule order_trans[OF _ uint_ge_0]) simp
  ultimately show ?thesis
    by (simp add: int64_def sint_uint) (rule signed_take_bit_int_eq_self, simp_all)
qed

lemma errors_Is_Wrapf: "errors_Is e t \<Longrightarrow> errors_Is (errors_Wrapf e f args) t"
  by (simp add: errors_Wrapf_def)

lemma errors_Is_refl [simp]: "errors_Is e e"
  by (cases e) simp_all

text \<open>A balance request, with the address beside the height.\<close>

lemma GetAccountBalance_reply:
  assumes "conns_ok mk (cl_conn c)" and "uint h < 2 ^ 63"
  shows "fst (GetAccountBalance None rpc account h c) = Ret r \<longleftrightarrow>
    rpc (mk AccountSvc (gc_Conn (cl_conn c) ! cursor (cl_conn c))) \<lparr>aq_Height = uint h, aq_Address = account\<rparr> = Inr r"
proof -
  have "GetNextAccountClient (cl_conn c) =
      Ret (mk AccountSvc (gc_Conn (cl_conn c) ! cursor (cl_conn c)), inc (cl_conn c))"
    using GetNext_step[OF assms(1), of AccountSvc] by simp
  then show ?thesis
    by (simp add: GetAccountBalance_def with_next_def int64_small[OF assms(2)] split: sum.split)
qed

section \<open>Properties\<close>

text \<open>
  C23: \<open>GetBlockByHeight\<close> for a height below \<open>2^63\<close>, once the limiter lets it pass, sends
  that height to the client at the cursor. It returns exactly the reply, or an error that
  \<open>errors.Is\<close> still recognises as the cause; it moves the cursor to the next connection and
  records one observation, labelled OK or ERR after the outcome.
\<close>

theorem GetBlockByHeight_calls_next:
  assumes "conns_ok mk (cl_conn c)" and "uint h < 2 ^ 63"
  shows "\<exists>out. rpc (mk BlockSvc (gc_Conn (cl_conn c) ! cursor (cl_conn c))) (uint h) = out \<and>
    cl_conn (snd (GetBlockByHeight None rpc h c)) = inc (cl_conn c) \<and>
    cl_metrics (snd (GetBlockByHeight None rpc h c)) =
      cl_metrics c @ [(''GetBlockByHeight'', if isl out then ''ERR'' else ''OK'')] \<and>
    (case out of
       Inr r \<Rightarrow> fst (GetBlockByHeight None rpc h c) = Ret r
     | Inl e0 \<Rightarrow> \<exists>e. fst (GetBlockByHeight None rpc h c) = Fail e \<and> errors_Is e e0)"
  using int64_small[OF assms(2)]
  by (auto simp: block_call.call_next[OF assms(1)] observe_def errors_Is_Wrapf split: sum.split)

theorem GetBlockByHeight_calls_next_witness:
  "fst (GetBlockByHeight None (\<lambda>k h. if h = 7 then Inr (k, h) else Inl (Errors_New ''x'')) 7
      (NewClient (add_all (\<lambda>s c. (s, c)) [''a''] NewGRPConnections))) =
    Ret ((BlockSvc, ''a''), 7)"
proof -
  let ?c = "add_all (\<lambda>s c. (s, c)) [''a''] NewGRPConnections :: (string, service \<times> string) GRPConnections"
  have i: "conns_inv (\<lambda>s c. (s, c)) ?c" "gc_Conn ?c = [''a'']" "cursor ?c = 0"
    using add_all_inv[OF conns_inv_new, of "\<lambda>s c. (s, c)" "[''a'']"]
    by (simp_all add: cursor_def NewGRPConnections_def)
  then have "conns_ok (\<lambda>s c. (s, c)) (cl_conn (NewClient ?c))"
    by (simp add: conns_ok_def NewClient_def)
  from GetBlockByHeight_calls_next[OF this, of 7
      "\<lambda>k h. if h = 7 then Inr (k, h) else Inl (Errors_New ''x'')"] i(2,3)
  show ?thesis by (simp add: NewClient_def)
qed

text \<open>
  When the rate limiter refuses (its context was cancelled or would expire), every
  height-based method returns the limiter's error itself and takes no connection and records
  no observation.
\<close>

theorem limiter_error_changes_nothing:
  "GetBlockByHeight (Some e) rpc h c = (Fail e, c) \<and>
   GetEventsByHeight (Some e) rpc h c = (Fail e, c) \<and>
   GetMetaByHeight (Some e) rpc h c = (Fail e, c) \<and>
   GetAccountBalance (Some e) arpc account h c = (Fail e, c) \<and>
   GetTransactionsByHeight errtext (Some e) rpc h c = (Fail e, c)"
  by (simp add: block_call.limited events_call.limited meta_call.limited
      transactions_call.limited GetAccountBalance_def)

text \<open>
  A failed \<open>GetTransactionsByHeight\<close> uses the text of its error as the status label of the
  observation, so two failures at different heights are recorded under different labels
  whenever their texts differ; the other methods use the one label ERR.
\<close>

theorem transactions_label:
  assumes "conns_ok mk (cl_conn c)" and "fst (GetTransactionsByHeight errtext None rpc h c) = Fail e"
  shows "cl_metrics (snd (GetTransactionsByHeight errtext None rpc h c)) =
    cl_metrics c @ [(''GetTransactionsByHeight'', errtext e)]"
proof -
  from transactions_call.error_keeps_cause[OF assms] obtain e0 where
    r: "rpc (mk TransactionSvc (gc_Conn (cl_conn c) ! cursor (cl_conn c))) (int64 h) = Inl e0"
    "e = errors_Wrapf e0 ''Error while getting transaction by height: %d'' [AInt (uint h)]" .
  then show ?thesis
    by (simp only: transactions_call.call_next[OF assms(1)] r) (simp add: observe_def)
qed

theorem transactions_label_witness:
  "cl_metrics (snd (GetTransactionsByHeight (\<lambda>e. ''boom'') None (\<lambda>k h. Inl (Errors_New ''x'')) 7
      (NewClient (add_all (\<lambda>s c. (s, c)) [''a''] NewGRPConnections)) :: (unit, _, _) call)) =
    [(''GetTransactionsByHeight'', ''boom'')]"
proof -
  let ?c = "add_all (\<lambda>s c. (s, c)) [''a''] NewGRPConnections :: (string, service \<times> string) GRPConnections"
  have "conns_inv (\<lambda>s c. (s, c)) ?c" "gc_Conn ?c = [''a'']"
    using add_all_inv[OF conns_inv_new, of "\<lambda>s c. (s, c)" "[''a'']"]
    by (simp_all add: NewGRPConnections_def)
  then have ok: "conns_ok (\<lambda>s c. (s, c)) (cl_conn (NewClient ?c))"
    by (simp add: conns_ok_def NewClient_def)
  have "fst (GetTransactionsByHeight (\<lambda>e. ''boom'') None (\<lambda>k h. Inl (Errors_New ''x'')) 7
      (NewClient ?c) :: (unit, _, _) call) =
    Fail (errors_Wrapf (Errors_New ''x'') ''Error while getting transaction by height: %d'' [AInt 7])"
    by (subst transactions_call.call_next[OF ok]) simp
  from transactions_label[OF ok this] show ?thesis by (simp add: NewClient_def)
qed

end
