(* ===== verification/Ss58_Address.thy ===== *)
theory Ss58_Address
  imports Go_Prelude
begin

unbundle bit_operations_syntax

section \<open>Account storage keys (api/scale/address, xxhash, blake128, requests.go)\<close>

text \<open>
  \<open>CheckAddress\<close> finds the account id inside a base58-decoded SS58 address, \<open>digest\<close> is the
  TwoX128 hash as two seeded 64-bit hashes with their bytes reversed, and \<open>AccountRequest\<close>
  builds the storage key of an account. Base58, the 64-bit hash \<open>sum64 seed data\<close>, BLAKE2b and
  hexadecimal printing come from other packages and are parameters.
\<close>

subsection \<open>xxhash.go\<close>

text \<open>
  The digest holds two hash states; a state is its seed and the bytes written to it. \<open>Write\<close>
  returns its named results, both zero, without setting them.
\<close>

record digest =
  dg_xxhash :: "u64 \<times> u8 list"
  dg_xxhash2 :: "u64 \<times> u8 list"

definition New64x2 :: digest where
  "New64x2 = \<lparr>dg_xxhash = (0, []), dg_xxhash2 = (1, [])\<rparr>"

definition digest_Reset :: "digest \<Rightarrow> digest" where
  "digest_Reset d = \<lparr>dg_xxhash = (fst (dg_xxhash d), []), dg_xxhash2 = (fst (dg_xxhash2 d), [])\<rparr>"

definition digest_Size :: "digest \<Rightarrow> int" where "digest_Size d = 16"
definition digest_BlockSize :: "digest \<Rightarrow> int" where "digest_BlockSize d = 32"

definition digest_Write :: "u8 list \<Rightarrow> digest \<Rightarrow> (int \<times> goerror option) \<times> digest" where
  "digest_Write p d =
     ((0, None), \<lparr>dg_xxhash = (fst (dg_xxhash d), snd (dg_xxhash d) @ p),
                  dg_xxhash2 = (fst (dg_xxhash2 d), snd (dg_xxhash2 d) @ p)\<rparr>)"

text \<open>The loop \<open>for i, j := 0, len(s)-1; i < j; i, j = i+1, j-1\<close>, which swaps in place.\<close>

function reverse_loop :: "nat \<Rightarrow> int \<Rightarrow> 'a list \<Rightarrow> 'a list" where
  "reverse_loop i j s =
     (if int i < j then reverse_loop (Suc i) (j - 1) (s[i := s ! nat j, nat j := s ! i]) else s)"
  by auto

termination by (relation "measure (\<lambda>(i, j, s). nat (j - int i))") auto

declare reverse_loop.simps [simp del]

definition reverse :: "'a list \<Rightarrow> 'a list" where
  "reverse s = reverse_loop 0 (int (length s) - 1) s"

text \<open>\<open>XXHash64.Sum(in)\<close> appends the eight bytes of the hash to \<open>in\<close>.\<close>

definition digest_Sum :: "(u64 \<Rightarrow> u8 list \<Rightarrow> u8 list) \<Rightarrow> u8 list \<Rightarrow> digest \<Rightarrow> u8 list" where
  "digest_Sum sum64 inp d =
     reverse (inp @ sum64 (fst (dg_xxhash d)) (snd (dg_xxhash d))) @
     reverse (inp @ sum64 (fst (dg_xxhash2 d)) (snd (dg_xxhash2 d)))"

lemma reverse_loop_rev:
  "int i + j + 1 = int (length s) \<Longrightarrow> 2 * i \<le> length s \<Longrightarrow>
     reverse_loop i j s =
       take i s @ rev (drop i (take (length s - i) s)) @ drop (length s - i) s"
proof (induction i j s rule: reverse_loop.induct)
  case (1 i j s)
  show ?case
  proof (cases "int i < j")
    case False
    then have "length s - i \<le> Suc i" using 1(2) by linarith
    then have "length (drop i (take (length s - i) s)) \<le> 1" by simp
    then have "rev (drop i (take (length s - i) s)) = drop i (take (length s - i) s)"
      by (cases "drop i (take (length s - i) s)") auto
    moreover have "take i s @ drop i (take (length s - i) s) @ drop (length s - i) s = s"
    proof -
      have "take i s = take i (take (length s - i) s)" using 1(3) by simp
      then show ?thesis by (metis append_assoc append_take_drop_id)
    qed
    ultimately show ?thesis using False by (simp add: reverse_loop.simps)
  next
    case True
    let ?k = "nat j"
    let ?t = "s[i := s ! ?k, ?k := s ! i]"
    from True 1(2) have k: "?k = length s - Suc i" "i < ?k" "?k < length s" by linarith+
    have IH: "reverse_loop (Suc i) (j - 1) ?t =
        take (Suc i) ?t @ rev (drop (Suc i) (take ?k ?t)) @ drop ?k ?t"
      using 1(1)[OF True] 1(2) k by simp
    have "take (Suc i) ?t = take i s @ [s ! ?k]"
      using k by (simp add: take_Suc_conv_app_nth take_update_cancel)
    moreover have "drop (Suc i) (take ?k ?t) = drop (Suc i) (take ?k s)"
      using k by (intro nth_equalityI) auto
    moreover have "drop ?k ?t = s ! i # drop (Suc ?k) s"
      using k by (simp add: Cons_nth_drop_Suc[symmetric] drop_update_cancel)
    moreover have "rev (drop i (take (length s - i) s)) =
        [s ! ?k] @ rev (drop (Suc i) (take ?k s)) @ [s ! i]"
    proof -
      have "length s - i = Suc ?k" using k by simp
      then have "drop i (take (length s - i) s) = drop i (take ?k s @ [s ! ?k])"
        using k by (simp add: take_Suc_conv_app_nth)
      also have "\<dots> = (s ! i # drop (Suc i) (take ?k s)) @ [s ! ?k]"
        using k Cons_nth_drop_Suc[of i "take ?k s"] by simp
      finally show ?thesis by simp
    qed
    moreover have "length s - i = Suc ?k" using k by simp
    ultimately show ?thesis using True IH by (simp add: reverse_loop.simps[of i j])
  qed
qed

lemma reverse_rev: "reverse s = rev s"
  by (simp add: reverse_def reverse_loop_rev)

text \<open>
  C36: The in-place swap loop \<open>reverse\<close> ends for every slice and reverses it; so \<open>Sum(nil)\<close> after
  writing \<open>data\<close> is the byte-reversed seed-0 hash followed by the byte-reversed seed-1 hash of
  all the data, however it was cut into \<open>Write\<close> calls.
\<close>

theorem twox128_of_writes:
  "digest_Sum sum64 [] (fold (\<lambda>p d. snd (digest_Write p d)) ps New64x2) =
     rev (sum64 0 (concat ps)) @ rev (sum64 1 (concat ps))"
proof -
  have "fold (\<lambda>p d. snd (digest_Write p d)) ps d =
      \<lparr>dg_xxhash = (fst (dg_xxhash d), snd (dg_xxhash d) @ concat ps),
       dg_xxhash2 = (fst (dg_xxhash2 d), snd (dg_xxhash2 d) @ concat ps)\<rparr>" for d
    by (induction ps arbitrary: d) (simp_all add: digest_Write_def)
  then show ?thesis by (simp add: digest_Sum_def New64x2_def reverse_rev)
qed

subsection \<open>blake128.go\<close>

text \<open>\<open>blake2b.New(16, nil)\<close> may refuse; \<open>Write\<close> may return an error, with which the sum still comes.\<close>

record blake2b =
  bl_New :: "goerror option"
  bl_Write :: "u8 list \<Rightarrow> goerror option"
  bl_Sum :: "u8 list \<Rightarrow> u8 list"

definition ToBlakeSum :: "blake2b \<Rightarrow> u8 list \<Rightarrow> u8 list \<times> goerror option" where
  "ToBlakeSum B addr =
     (case bl_New B of
        Some err \<Rightarrow> ([], Some err)
      | None \<Rightarrow> (bl_Sum B addr, bl_Write B addr))"

subsection \<open>address.go\<close>

definition pubkey_length :: "u64 \<Rightarrow> u8 \<Rightarrow> bool" where
  "pubkey_length dLen ss58Length \<longleftrightarrow>
     ucast ss58Length = dLen - 34 \<or> ucast ss58Length = dLen - 35"

definition CheckAddress :: "u8 list \<Rightarrow> (u64 \<times> u8 \<times> u8) go" where
  "CheckAddress decoded =
     bind_go (go_index decoded 0) (\<lambda>b0.
       let ss58Length = (if b0 AND 64 \<noteq> 0 then 2 else 1 :: u8) in
       bind_go (if ss58Length = 2
                then bind_go (go_index decoded 1) (\<lambda>b1.
                  Ret (push_bit 2 (b0 AND 63) OR drop_bit 6 b1 OR push_bit 8 (b1 AND 63)))
                else Ret b0) (\<lambda>ss58Decoded.
         let dLen = of_nat (length decoded) :: u64;
             endPos = (if pubkey_length dLen ss58Length then dLen - 2 else dLen - 1)
         in Ret (endPos, ss58Length, ss58Decoded)))"

subsection \<open>requests.go\<close>

record address_libs =
  al_base58 :: "string \<Rightarrow> u8 list"
  al_sum64 :: "u64 \<Rightarrow> u8 list \<Rightarrow> u8 list"
  al_blake :: blake2b
  al_hex :: "u8 list \<Rightarrow> string"

definition str_bytes :: "string \<Rightarrow> u8 list" where
  "str_bytes s = map of_char s"

text \<open>\<open>decoded[ss58Length:endPos]\<close>, with the third result of \<open>CheckAddress\<close> dropped.\<close>

definition account_id :: "u8 list \<Rightarrow> u8 list go" where
  "account_id decoded =
     bind_go (CheckAddress decoded) (\<lambda>(endPos, ss58Length, _).
       go_slice decoded (uint ss58Length) (uint endPos))"

definition AccountRequest :: "address_libs \<Rightarrow> string \<Rightarrow> (string \<times> goerror option) go" where
  "AccountRequest L accountAddress =
     (let d = snd (digest_Write (str_bytes ''System'') New64x2);
          system = digest_Sum (al_sum64 L) [] d;
          d2 = snd (digest_Write (str_bytes ''Account'') New64x2);
          account = digest_Sum (al_sum64 L) [] d2;
          decoded = al_base58 L accountAddress
      in bind_go (account_id decoded) (\<lambda>addressInBytes.
           case ToBlakeSum (al_blake L) addressInBytes of (bsum, err) \<Rightarrow>
             Ret (''0x'' @ al_hex L system @ al_hex L account @ al_hex L bsum
                    @ al_hex L addressInBytes, err)))"

section \<open>What the code finds in an address\<close>

lemma push_bit_8_u8 [simp]: "push_bit 8 (b :: u8) = 0"
  by (rule bit_word_eqI) (simp add: bit_simps)

text \<open>A prefix: one byte below 64, or two bytes the first of which has bit 6 set.\<close>

fun ss58_prefix :: "u8 list \<Rightarrow> bool" where
  "ss58_prefix [b0] \<longleftrightarrow> b0 AND 64 = 0"
| "ss58_prefix [b0, b1] \<longleftrightarrow> b0 AND 64 \<noteq> 0"
| "ss58_prefix _ \<longleftrightarrow> False"

lemma ss58_prefix_cases:
  assumes "ss58_prefix pre"
  obtains b0 where "pre = [b0]" "b0 AND 64 = 0"
  | b0 b1 where "pre = [b0, b1]" "b0 AND 64 \<noteq> 0"
  using assms by (cases pre rule: ss58_prefix.cases) auto

lemma CheckAddress_prefix:
  assumes "ss58_prefix pre"
  shows "\<exists>p. CheckAddress (pre @ rest) =
    Ret (let dLen = of_nat (length (pre @ rest)) in
         if pubkey_length dLen (of_nat (length pre)) then dLen - 2 else dLen - 1,
         of_nat (length pre), p)"
  using assms by (cases rule: ss58_prefix_cases) (simp_all add: CheckAddress_def go_index_def Let_def)

lemma unat_u64: "n < 2 ^ 64 \<Longrightarrow> unat (of_nat n :: u64) = n"
  by (simp add: unat_of_nat take_bit_nat_eq_self)

lemma u64_minus: "k \<le> n \<Longrightarrow> n < 2 ^ 64 \<Longrightarrow> unat ((of_nat n :: u64) - of_nat k) = n - k"
  by (simp add: unat_sub_if_size word_size unat_of_nat take_bit_nat_eq_self)

lemma account_id_split:
  assumes pre: "ss58_prefix pre" and len: "length (pre @ body) < 2 ^ 64"
    and k: "k = (if length body \<in> {34, 35} then 2 else 1)"
  shows "account_id (pre @ body) =
    (if k \<le> length body then Ret (take (length body - k) body) else Panic SliceOutOfRange)"
proof -
  let ?d = "of_nat (length (pre @ body)) :: u64"
  have p: "length pre = 1 \<or> length pre = 2" using pre by (rule ss58_prefix_cases) simp_all
  have d: "unat ?d = length pre + length body" using unat_u64[OF len] by simp
  have "pubkey_length ?d (of_nat (length pre)) \<longleftrightarrow> length body \<in> {34, 35}"
  proof -
    have eq: "(ucast (of_nat (length pre) :: u8) = ?d - of_nat m) \<longleftrightarrow>
        length body = m" if m: "m = 34 \<or> m = 35" for m
    proof -
      have "(ucast (of_nat (length pre) :: u8) = ?d - of_nat m) \<longleftrightarrow>
          ?d = of_nat (length pre) + of_nat m"
        using p by (auto simp: algebra_simps eq_diff_eq)
      also have "\<dots> \<longleftrightarrow> (of_nat (length pre + length body) :: u64) = of_nat (length pre + m)"
        by simp
      also have "\<dots> \<longleftrightarrow> length pre + length body = length pre + m"
        using len p m by (auto simp: word_of_nat_eq_iff take_bit_nat_eq_self)
      finally show ?thesis by simp
    qed
    show ?thesis unfolding pubkey_length_def using eq[of 34] eq[of 35] by simp
  qed
  with CheckAddress_prefix[OF pre, of body] obtain x where
    c: "CheckAddress (pre @ body) = Ret (?d - of_nat k, of_nat (length pre), x)"
    unfolding k by (auto simp: Let_def split: if_splits)
  have "unat (?d - of_nat k) = length (pre @ body) - k"
    using len p k by (intro u64_minus) auto
  moreover have "k \<le> length (pre @ body)" using p k by auto
  ultimately have e: "uint (?d - of_nat k) = int (length (pre @ body)) - int k"
    by (simp only: uint_nat of_nat_diff)
  have s: "uint (of_nat (length pre) :: u8) = int (length pre)" using p by auto
  define w where "w = ?d - of_nat k"
  from p k have "k \<le> length body \<Longrightarrow> nat (int (length pre + length body) - int k - int (length pre))
      = length body - k" by auto
  with p k c e s show ?thesis
    unfolding account_id_def w_def[symmetric] by (auto simp: go_slice_def)
qed

text \<open>
  C25: In an address that is a one-byte or two-byte SS58 prefix, a 32-byte or 33-byte public key
  and a two-byte checksum, the bytes taken as the account id are exactly the key; in one whose
  id has any length below 33 and which ends in a one-byte checksum they are that id, too.
\<close>

theorem account_id_of_address:
  assumes "ss58_prefix pre"
    and "length key \<in> {32, 33} \<and> length chk = 2 \<or> length key < 33 \<and> length chk = 1"
  shows "account_id (pre @ key @ chk) = Ret key"
proof -
  have "length pre \<le> 2" using assms(1) by (rule ss58_prefix_cases) simp_all
  then have "length (pre @ key @ chk) < 2 ^ 64" using assms(2) by auto
  from account_id_split[OF assms(1) this refl] assms(2) show ?thesis by auto
qed

theorem account_id_of_address_witness:
  "account_id (42 # replicate 32 7 @ [1, 2]) = Ret (replicate 32 7)"
  using account_id_of_address[of "[42]" "replicate 32 7" "[1, 2]"] by simp

text \<open>
  The only decoded byte strings on which the account id is not returned are those too short to
  hold a byte after the prefix, and there the code panics: the empty one (what base58 decoding
  of an invalid address gives), a prefix alone, and half of a two-byte prefix.
\<close>

theorem account_id_panics_iff:
  assumes "length decoded < 2 ^ 64"
  shows "((\<exists>p. account_id decoded = Panic p) \<longleftrightarrow>
      length decoded \<le> (if decoded \<noteq> [] \<and> hd decoded AND 64 \<noteq> 0 then 2 else 1)) \<and>
    ((\<exists>key. account_id decoded = Ret key) \<longleftrightarrow> \<not> (\<exists>p. account_id decoded = Panic p))"
proof -
  consider "decoded = []" | b where "decoded = [b]" "b AND 64 \<noteq> 0"
    | pre body where "decoded = pre @ body" "ss58_prefix pre"
  proof (cases decoded)
    case (Cons b t)
    then show thesis using that(2)[of b] that(3)[of "[b]" t] that(3)[of "[b, hd t]" "tl t"]
      by (cases t; cases "b AND 64 = 0") simp_all
  qed (use that in simp)
  note cases = this
  show ?thesis
  proof (cases rule: cases)
    case 1
    then show ?thesis by (simp add: account_id_def CheckAddress_def go_index_def)
  next
    case 2
    then show ?thesis by (simp add: account_id_def CheckAddress_def go_index_def)
  next
    case (3 pre body)
    with account_id_split[OF 3(2) _ refl, of body] assms show ?thesis
      by (auto elim!: ss58_prefix_cases simp: Suc_le_eq)
  qed
qed

theorem account_id_panics_iff_witness: "\<exists>p. account_id [] = Panic p"
  using account_id_panics_iff[of "[]"] by simp

text \<open>The network identifier of a two-byte prefix, as the SS58 format defines it.\<close>

definition ss58_ident :: "u8 \<Rightarrow> u8 \<Rightarrow> 16 word" where
  "ss58_ident b0 b1 =
     (push_bit 2 (ucast b0 AND 63) OR drop_bit 6 (ucast b1)) OR push_bit 8 (ucast b1 AND 63)"

text \<open>
  For a two-byte prefix the third result of \<open>CheckAddress\<close> is only the low byte of the
  network identifier: the term shifted left by eight is computed on a byte and is always zero, so
  the low six bits of the second byte are lost.
\<close>

theorem CheckAddress_ident_low_byte:
  assumes "b0 AND 64 \<noteq> 0"
  shows "\<exists>e. CheckAddress (b0 # b1 # rest) = Ret (e, 2, ucast (ss58_ident b0 b1))"
proof -
  have "ucast (ss58_ident b0 b1) = push_bit 2 (b0 AND 63) OR drop_bit 6 b1"
    by (rule bit_word_eqI) (auto simp: ss58_ident_def bit_simps bit_ucast_iff)
  with assms show ?thesis by (simp add: CheckAddress_def go_index_def Let_def)
qed

theorem CheckAddress_ident_low_byte_witness:
  "\<exists>e. CheckAddress (64 # 1 # rest) = Ret (e, 2, 0) \<and> ss58_ident 64 1 = 256"
proof -
  have "(256 :: u8) = 0" and "ss58_ident 64 1 = 256" by (simp_all add: ss58_ident_def)
  with CheckAddress_ident_low_byte[of 64 1 rest] show ?thesis by simp
qed

text \<open>The storage key of the account with a public key, and that a well-formed address asks for it.\<close>

definition account_storage_key :: "address_libs \<Rightarrow> u8 list \<Rightarrow> string" where
  "account_storage_key L key = ''0x'' @
     al_hex L (rev (al_sum64 L 0 (str_bytes ''System'')) @ rev (al_sum64 L 1 (str_bytes ''System''))) @
     al_hex L (rev (al_sum64 L 0 (str_bytes ''Account'')) @ rev (al_sum64 L 1 (str_bytes ''Account''))) @
     al_hex L (bl_Sum (al_blake L) key) @ al_hex L key"

definition address_of :: "address_libs \<Rightarrow> u8 list \<Rightarrow> string \<Rightarrow> bool" where
  "address_of L key a \<longleftrightarrow> length key = 32 \<and>
     (\<exists>pre chk. ss58_prefix pre \<and> length chk = 2 \<and> al_base58 L a = pre @ key @ chk)"

lemma AccountRequest_address:
  assumes "address_of L key a" and "bl_New (al_blake L) = None"
  shows "AccountRequest L a = Ret (account_storage_key L key, bl_Write (al_blake L) key)"
proof -
  from assms(1) obtain pre chk where a: "ss58_prefix pre" "length key = 32" "length chk = 2"
    "al_base58 L a = pre @ key @ chk" by (auto simp: address_of_def)
  have "account_id (al_base58 L a) = Ret key"
  proof -
    have "length pre \<le> 2" using a(1) by (rule ss58_prefix_cases) simp_all
    then have "length (pre @ key @ chk) < 2 ^ 64" using a(2,3) by auto
    from account_id_split[OF a(1) this refl] a(2-4) show ?thesis by simp
  qed
  then show ?thesis using assms(2)
    by (simp add: AccountRequest_def account_storage_key_def ToBlakeSum_def digest_Sum_def
        digest_Write_def New64x2_def reverse_rev)
qed

text \<open>
  C24: For a well-formed address of a 32-byte public key the request is \<open>0x\<close>, the hash of
  \<open>System\<close>, the hash of \<open>Account\<close>, the BLAKE2 hash of the key and the key itself; so, when
  hexadecimal printing is injective, takes two digits a byte and the BLAKE2 sums have a fixed
  length, requests of two keys are equal only if the keys are.
\<close>

theorem AccountRequest_key:
  assumes pre: "ss58_prefix pre" "ss58_prefix pre'"
    and key: "length key = 32" "length key' = 32" and chk: "length chk = 2" "length chk' = 2"
    and dec: "al_base58 L a = pre @ key @ chk" "al_base58 L a' = pre' @ key' @ chk'"
    and new: "bl_New (al_blake L) = None" and sums: "\<And>xs. length (bl_Sum (al_blake L) xs) = 16"
    and hex: "\<And>xs. length (al_hex L xs) = 2 * length xs" "inj (al_hex L)"
  shows "AccountRequest L a = Ret (''0x'' @
      al_hex L (rev (al_sum64 L 0 (str_bytes ''System'')) @ rev (al_sum64 L 1 (str_bytes ''System''))) @
      al_hex L (rev (al_sum64 L 0 (str_bytes ''Account'')) @ rev (al_sum64 L 1 (str_bytes ''Account''))) @
      al_hex L (bl_Sum (al_blake L) key) @ al_hex L key, bl_Write (al_blake L) key) \<and>
    (fmap_go fst (AccountRequest L a) = fmap_go fst (AccountRequest L a') \<longleftrightarrow> key = key')"
proof -
  have "address_of L key a" "address_of L key' a'"
    using pre key chk dec by (auto simp: address_of_def)
  note req = this[THEN AccountRequest_address, OF new, unfolded account_storage_key_def]
  have "fmap_go fst (AccountRequest L a) = fmap_go fst (AccountRequest L a') \<longleftrightarrow> key = key'"
    by (simp add: req hex sums inj_eq[OF hex(2)]) auto
  with req(1) show ?thesis by blast
qed

text \<open>Libraries with the documented behaviour: digits for the nibbles, a padding for the sums.\<close>

definition sample_hex :: "u8 list \<Rightarrow> string" where
  "sample_hex xs = concat (map (\<lambda>b. [char_of (unat b), CHR ''.'']) xs)"

definition sample_libs :: address_libs where
  "sample_libs =
     \<lparr>al_base58 = (\<lambda>a. 42 # replicate 32 (of_nat (length a)) @ [0, 0]),
      al_sum64 = (\<lambda>seed xs. replicate 8 (ucast seed)),
      al_blake = \<lparr>bl_New = None, bl_Write = (\<lambda>xs. None), bl_Sum = (\<lambda>xs. take 16 (xs @ replicate 16 0))\<rparr>,
      al_hex = sample_hex\<rparr>"

lemma inj_sample_hex: "inj sample_hex"
proof (rule injI)
  fix xs ys assume "sample_hex xs = sample_hex ys"
  then show "xs = ys"
  proof (induction xs arbitrary: ys)
    case Nil
    then show ?case by (cases ys) (simp_all add: sample_hex_def)
  next
    case (Cons x xs)
    then obtain y zs where "ys = y # zs" by (cases ys) (simp_all add: sample_hex_def)
    moreover from Cons.prems this have "char_of (unat x) = char_of (unat y)" "sample_hex xs = sample_hex zs"
      by (simp_all add: sample_hex_def)
    moreover from this(1) have "x = y"
    proof -
      have "unat x mod 256 = unat x" "unat y mod 256 = unat y"
        using unsigned_less[of x, where ?'a = nat] unsigned_less[of y, where ?'a = nat] by simp_all
      with \<open>char_of (unat x) = char_of (unat y)\<close> have "unat x = unat y"
        by (metis of_char_of)
      then show ?thesis by (simp add: word_unat_eq_iff)
    qed
    ultimately show ?case using Cons.IH by simp
  qed
qed

theorem AccountRequest_key_witness:
  "fmap_go fst (AccountRequest sample_libs ''a'') \<noteq> fmap_go fst (AccountRequest sample_libs ''bb'')"
proof -
  have h: "length (sample_hex xs) = 2 * length xs" for xs
    by (induction xs) (simp_all add: sample_hex_def)
  have m: "min (length xs) 16 + (16 - length xs) = 16" for xs :: "u8 list" by simp
  have "fmap_go fst (AccountRequest sample_libs ''a'') = fmap_go fst (AccountRequest sample_libs ''bb'')
      \<longleftrightarrow> replicate 32 (1 :: u8) = replicate 32 2"
    by (rule conjunct2, rule AccountRequest_key[of "[42]" "[42]" _ _ "[0, 0]" "[0, 0]"])
      (simp_all add: sample_libs_def h m inj_sample_hex)
  then show ?thesis by (simp add: replicate_eq_replicate)
qed

end
