(* ===== verification/Decode_Storage.thy ===== *)
theory Decode_Storage
  imports Go_Prelude
begin

section \<open>The store of metadata decoders (api/scale/scale.go)\<close>

text \<open>
  \<open>DecodeStorage\<close> keeps one metadata decoder per spec version, and turns panics of the SCALE
  library into errors. The library's own work (hex decoding, metadata processing, extrinsic
  decoding) is a parameter that answers with a result or the value it panics with; so are the
  embedded network files. The locks make each access one step.
\<close>

subsection \<open>Panics of the library\<close>

datatype panic_value = PVString string | PVError goerror | PVOther

datatype 'a lib = Returns 'a | PanicsWith panic_value

text \<open>The deferred \<open>recover\<close> of \<open>SetMetadataDecoder\<close> and \<open>GetExtrinsic\<close>.\<close>

fun recover :: "string \<Rightarrow> panic_value \<Rightarrow> goerror" where
  "recover fatal (PVString r) = Errors_New r"
| "recover fatal (PVError r) = r"
| "recover fatal PVOther = Errors_New fatal"

subsection \<open>Data\<close>

record 'd MDecoder =
  md_Decoder :: 'd
  md_Spec :: u64
  md_Bytes :: string

text \<open>Values of interface or library types (addresses, tips, parameters) are of type \<open>'v\<close>.\<close>

record 'v ScaleExtrinsic =
  sx_ExtrinsicLength :: int
  sx_ExtrinsicHash :: string
  sx_VersionInfo :: string
  sx_ContainsTransaction :: bool
  sx_Address :: "'v option"
  sx_Signature :: string
  sx_SignatureVersion :: int
  sx_Nonce :: int
  sx_Era :: string
  sx_CallIndex :: string
  sx_Tip :: "'v option"
  sx_CallModuleName :: string
  sx_CallName :: string
  sx_Params :: "'v list"

text \<open>The fields of the library's \<open>ExtrinsicDecoder\<close> after \<open>Process\<close>, as far as they are read.\<close>

record 'v ExtrinsicDecoder =
  xd_ExtrinsicLength :: int
  xd_ExtrinsicHash :: string
  xd_VersionInfo :: string
  xd_ContainsTransaction :: bool
  xd_Address :: "'v option"
  xd_Signature :: string
  xd_SignatureVersion :: int
  xd_Nonce :: int
  xd_Era :: string
  xd_CallIndex :: string
  xd_Tip :: "'v option"
  xd_CallModuleName :: string
  xd_Params :: "'v list"

record BlockHeader =
  bh_Number :: string

record PolkaBlockContents =
  pbc_Extrinsics :: "string list"
  pbc_Header :: BlockHeader

record PolkaBlock =
  pb_Contents :: PolkaBlockContents
  pb_StateRoot :: string
  pb_ExtrinsicsRoot :: string
  pb_ParentHash :: string

text \<open>\<open>Apis\<close>, which nothing reads, is left out.\<close>

record PolkaRuntimeVersion =
  prv_AuthoringVersion :: u64
  prv_ImplName :: string
  prv_ImplVersion :: u64
  prv_SpecName :: string
  prv_SpecVersion :: u64
  prv_TransactionVersion :: u64

record PolkaAccountData =
  pad_Free :: string
  pad_Reserved :: string
  pad_MiscFrozen :: string
  pad_FeeFrozen :: string

record PolkaAccountInfo =
  pai_Nonce :: u32
  pai_Consumers :: u32
  pai_Providers :: u32
  pai_Data :: PolkaAccountData

text \<open>\<open>&scale.PolkaBlock{}\<close>, \<open>&scale.PolkaRuntimeVersion{}\<close> and \<open>scale.PolkaAccountInfo{}\<close>.\<close>

definition zero_block :: PolkaBlock where
  "zero_block = \<lparr>pb_Contents = \<lparr>pbc_Extrinsics = [], pbc_Header = \<lparr>bh_Number = []\<rparr>\<rparr>,
     pb_StateRoot = [], pb_ExtrinsicsRoot = [], pb_ParentHash = []\<rparr>"

definition zero_runtime :: PolkaRuntimeVersion where
  "zero_runtime = \<lparr>prv_AuthoringVersion = 0, prv_ImplName = [], prv_ImplVersion = 0,
     prv_SpecName = [], prv_SpecVersion = 0, prv_TransactionVersion = 0\<rparr>"

definition zero_account :: PolkaAccountInfo where
  "zero_account = \<lparr>pai_Nonce = 0, pai_Consumers = 0, pai_Providers = 0,
     pai_Data = \<lparr>pad_Free = [], pad_Reserved = [], pad_MiscFrozen = [], pad_FeeFrozen = []\<rparr>\<rparr>"

subsection \<open>The store\<close>

text \<open>The registrations made in the library's type registry, in order.\<close>

datatype registration = RuntimeTypes | CustomTypes string

record 'd DecodeStorage =
  ds_SpecName :: string
  ds_decoders :: "u64 \<rightharpoonup> 'd MDecoder"
  ds_registered :: "registration list"

definition NewDecodeStorage :: "'d DecodeStorage" where
  "NewDecodeStorage = \<lparr>ds_SpecName = [], ds_decoders = Map.empty, ds_registered = []\<rparr>"

text \<open>Loading the registrations into the type registry is taken not to panic.\<close>

definition ds_Init :: "(string \<Rightarrow> goerror + string) \<Rightarrow> string \<Rightarrow> 'd DecodeStorage \<Rightarrow>
    goerror option \<times> 'd DecodeStorage" where
  "ds_Init read_file specName ds =
     (let ds = ds\<lparr>ds_SpecName := specName\<rparr> in
      case read_file (''networks/'' @ specName @ ''.json'') of
        Inl err \<Rightarrow> (Some err, ds)
      | Inr file \<Rightarrow>
          (None, ds\<lparr>ds_registered := ds_registered ds @ [RuntimeTypes, CustomTypes file]\<rparr>))"

definition GetMDecoder :: "string \<Rightarrow> u64 \<Rightarrow> 'd DecodeStorage \<Rightarrow>
    'd MDecoder option \<times> bool \<times> goerror option" where
  "GetMDecoder specName specVersion ds =
     (if ds_SpecName ds \<noteq> specName
      then (None, False, Some (Errorf ''network name (specName) does not match - %s:%s''
                                 [AStr (ds_SpecName ds), AStr specName]))
      else case ds_decoders ds specVersion of
             None \<Rightarrow> (None, False, None)
           | Some md \<Rightarrow> (Some md, True, None))"

definition GetMetadataDecoder :: "string \<Rightarrow> u64 \<Rightarrow> 'd DecodeStorage \<Rightarrow>
    ('d \<times> bool \<times> goerror option) go" where
  "GetMetadataDecoder specName specVersion ds =
     (case GetMDecoder specName specVersion ds of
        (None, b, er) \<Rightarrow> Panic NilDereference
      | (Some m, b, er) \<Rightarrow> Ret (md_Decoder m, b, er))"

definition GetMetadataBytes :: "string \<Rightarrow> u64 \<Rightarrow> 'd DecodeStorage \<Rightarrow>
    (string \<times> bool \<times> goerror option) go" where
  "GetMetadataBytes specName specVersion ds =
     (case GetMDecoder specName specVersion ds of
        (None, b, er) \<Rightarrow> Panic NilDereference
      | (Some m, b, er) \<Rightarrow> Ret (md_Bytes m, b, er))"

text \<open>
  \<open>process\<close> stands for \<open>Init(utiles.HexToBytes(...))\<close> followed by \<open>Process()\<close>, which returns an
  error or leaves the decoder ready, or panics.
\<close>

definition SetMetadataDecoder :: "(string \<Rightarrow> (goerror + 'd) lib) \<Rightarrow> u64 \<Rightarrow> string \<Rightarrow>
    'd DecodeStorage \<Rightarrow> 'd MDecoder go \<times> 'd DecodeStorage" where
  "SetMetadataDecoder process specVersion metadata ds =
     (case process metadata of
        PanicsWith r \<Rightarrow> (Fail (recover ''fatal error in SetMetadataDecoder'' r), ds)
      | Returns (Inl err) \<Rightarrow> (Fail err, ds)
      | Returns (Inr decoder) \<Rightarrow>
          (let mDec = \<lparr>md_Decoder = decoder, md_Spec = specVersion, md_Bytes = metadata\<rparr>
           in (Ret mDec, ds\<lparr>ds_decoders := (ds_decoders ds)(specVersion \<mapsto> mDec)\<rparr>)))"

text \<open>\<open>decode\<close> stands for \<open>Init\<close> and \<open>Process\<close> of an \<open>ExtrinsicDecoder\<close>; \<open>Call\<close> is not copied.\<close>

definition GetExtrinsic :: "(string \<Rightarrow> 'd \<Rightarrow> int \<Rightarrow> 'v ExtrinsicDecoder lib) \<Rightarrow> string \<Rightarrow> 'd \<Rightarrow>
    int \<Rightarrow> 'v ScaleExtrinsic go" where
  "GetExtrinsic decode extrinsicRaw metadata specVer =
     (case decode extrinsicRaw metadata specVer of
        PanicsWith r \<Rightarrow> Fail (recover ''fatal error in GetExtrinsic'' r)
      | Returns e \<Rightarrow>
          Ret \<lparr>sx_ExtrinsicLength = xd_ExtrinsicLength e,
               sx_ExtrinsicHash = xd_ExtrinsicHash e,
               sx_VersionInfo = xd_VersionInfo e,
               sx_ContainsTransaction = xd_ContainsTransaction e,
               sx_Address = xd_Address e,
               sx_Signature = xd_Signature e,
               sx_SignatureVersion = xd_SignatureVersion e,
               sx_Nonce = xd_Nonce e,
               sx_Era = xd_Era e,
               sx_CallIndex = xd_CallIndex e,
               sx_Tip = xd_Tip e,
               sx_CallModuleName = xd_CallModuleName e,
               sx_CallName = [],
               sx_Params = xd_Params e\<rparr>)"

section \<open>The contract of a store of versions\<close>

locale version_store =
  fixes find :: "'k \<Rightarrow> 's \<Rightarrow> 'v option"
    and load :: "'i \<Rightarrow> 'k \<Rightarrow> 's \<Rightarrow> 'v go \<times> 's"
  assumes load_total: "\<exists>x s'. load i k s = (Ret x, s') \<and> find k s' = Some x \<and>
        (\<forall>k'. k' \<noteq> k \<longrightarrow> find k' s' = find k' s)
      \<or> (\<exists>e. load i k s = (Fail e, s))"
begin

text \<open>Look up first, load on a miss.\<close>

definition fetch :: "'i \<Rightarrow> 'k \<Rightarrow> 's \<Rightarrow> 'v go \<times> 's" where
  "fetch i k s = (case find k s of Some v \<Rightarrow> (Ret v, s) | None \<Rightarrow> load i k s)"

lemma fetch_hit: "find k s = Some v \<Longrightarrow> fetch i k s = (Ret v, s)"
  by (simp add: fetch_def)

lemma fetch_cases:
  obtains x s' where "fetch i k s = (Ret x, s')" "find k s' = Some x"
    "\<And>k'. k' \<noteq> k \<Longrightarrow> find k' s' = find k' s"
  | e where "fetch i k s = (Fail e, s)" "find k s = None"
proof (cases "find k s")
  case None
  with load_total[of i k s] that show thesis by (auto simp: fetch_def)
next
  case (Some v)
  with that(1)[of v s] show thesis by (simp add: fetch_def)
qed

lemma fetch_keeps: "find k s = Some v \<Longrightarrow> find k (snd (fetch i k' s)) = Some v"
proof -
  assume v: "find k s = Some v"
  show ?thesis
  proof (cases "k' = k")
    case True
    with v show ?thesis by (simp add: fetch_hit)
  next
    case False
    with v show ?thesis by (cases rule: fetch_cases[of i k' s]) auto
  qed
qed

lemma fetches_keep: "find k s = Some v \<Longrightarrow>
    find k (fold (\<lambda>(i, k') s. snd (fetch i k' s)) reqs s) = Some v"
  by (induction reqs arbitrary: s) (auto simp: fetch_keeps)

text \<open>Once fetched, a version is answered from the store, whatever was fetched in between.\<close>

lemma fetch_once:
  assumes "fetch i k s = (Ret v, s')"
  shows "fetch i' k (fold (\<lambda>(i, k') s. snd (fetch i k' s)) reqs s') =
    (Ret v, fold (\<lambda>(i, k') s. snd (fetch i k' s)) reqs s')"
proof -
  have "find k s' = Some v" using assms by (cases rule: fetch_cases[of i k s]) auto
  then show ?thesis by (intro fetch_hit fetches_keep)
qed

end

definition decoder_of :: "u64 \<Rightarrow> 'd DecodeStorage \<Rightarrow> 'd MDecoder option" where
  "decoder_of v ds = ds_decoders ds v"

interpretation decoders: version_store decoder_of "\<lambda>metadata v. SetMetadataDecoder process v metadata"
  for process :: "string \<Rightarrow> (goerror + 'd) lib"
  by unfold_locales
    (auto simp: SetMetadataDecoder_def decoder_of_def Let_def split: lib.split sum.split)

lemma GetMDecoder_found: "GetMDecoder n v ds = (Some md, True, None) \<longleftrightarrow>
    ds_SpecName ds = n \<and> decoder_of v ds = Some md"
  by (auto simp: GetMDecoder_def decoder_of_def split: option.splits)

lemma SetMetadataDecoder_SpecName [simp]:
  "ds_SpecName (snd (SetMetadataDecoder process v m ds)) = ds_SpecName ds"
  by (auto simp: SetMetadataDecoder_def Let_def split: lib.split sum.split)

section \<open>Properties\<close>

text \<open>
  C26: \<open>SetMetadataDecoder\<close> lets no panic of the SCALE library out. Either it returns a decoder
  holding a copy of the metadata, which \<open>GetMDecoder\<close> then finds under that version and no other
  version changes, or it returns an error and leaves the store as it was.
\<close>

theorem SetMetadataDecoder_total:
  "(\<exists>d ds'. SetMetadataDecoder process v m ds = (Ret \<lparr>md_Decoder = d, md_Spec = v, md_Bytes = m\<rparr>, ds') \<and>
      process m = Returns (Inr d) \<and>
      GetMDecoder (ds_SpecName ds) v ds' = (Some \<lparr>md_Decoder = d, md_Spec = v, md_Bytes = m\<rparr>, True, None) \<and>
      (\<forall>v' n. v' \<noteq> v \<longrightarrow> GetMDecoder n v' ds' = GetMDecoder n v' ds))
   \<or> (\<exists>e. SetMetadataDecoder process v m ds = (Fail e, ds))"
proof (cases "process m")
  case (Returns r)
  then show ?thesis
    by (cases r) (simp_all add: SetMetadataDecoder_def GetMDecoder_def Let_def)
qed (simp add: SetMetadataDecoder_def)

theorem SetMetadataDecoder_total_witness:
  "SetMetadataDecoder (\<lambda>m. PanicsWith (PVString m)) 3 ''bad'' (NewDecodeStorage :: unit DecodeStorage) =
     (Fail (Errors_New ''bad''), NewDecodeStorage)"
  using SetMetadataDecoder_total[of "\<lambda>m. PanicsWith (PVString m)" 3 "''bad''"
      "NewDecodeStorage :: unit DecodeStorage"]
  by (auto simp: SetMetadataDecoder_def)

text \<open>
  A spec version whose decoder was fetched once (looked up, loaded on a miss) is answered
  with the same decoder ever after, without loading, whatever versions are fetched in between
  and whether those loads fail or not.
\<close>

theorem decoder_fetched_once:
  assumes "decoders.fetch process m v ds = (Ret md, ds')"
  shows "decoders.fetch process m' v
      (fold (\<lambda>(i, k) s. snd (decoders.fetch process i k s)) reqs ds') =
    (Ret md, fold (\<lambda>(i, k) s. snd (decoders.fetch process i k s)) reqs ds')"
  using assms by (rule decoders.fetch_once)

theorem decoder_fetched_once_witness:
  "\<exists>ds. fst (decoders.fetch (\<lambda>m. Returns (Inr (length m))) ''other'' 3
      (snd (decoders.fetch (\<lambda>m. Returns (Inr (length m))) ''yy'' 4 ds))) =
    Ret \<lparr>md_Decoder = 1, md_Spec = 3, md_Bytes = ''x''\<rparr>"
proof -
  let ?p = "\<lambda>m :: string. Returns (Inr (length m))"
  have "\<exists>ds'. decoders.fetch ?p ''x'' 3 NewDecodeStorage =
      (Ret \<lparr>md_Decoder = 1, md_Spec = 3, md_Bytes = ''x''\<rparr>, ds')"
    by (simp add: decoders.fetch_def decoder_of_def NewDecodeStorage_def SetMetadataDecoder_def Let_def)
  then obtain ds' where f: "decoders.fetch ?p ''x'' 3 NewDecodeStorage =
      (Ret \<lparr>md_Decoder = 1, md_Spec = 3, md_Bytes = ''x''\<rparr>, ds')" ..
  from decoder_fetched_once[OF f, of "''other''" "[(''yy'', 4)]"] show ?thesis
    by (intro exI[of _ ds']) simp
qed

text \<open>
  \<open>GetMetadataDecoder\<close> and \<open>GetMetadataBytes\<close> dereference the decoder before looking at
  the error or the found flag: they panic exactly when the version is not stored or the network
  name does not match, and never return the error or a found flag of false.
\<close>

theorem GetMetadata_accessors_panic_iff:
  "(GetMetadataDecoder n v ds = Panic NilDereference \<longleftrightarrow>
      ds_SpecName ds \<noteq> n \<or> ds_decoders ds v = None) \<and>
   (GetMetadataBytes n v ds = Panic NilDereference \<longleftrightarrow>
      ds_SpecName ds \<noteq> n \<or> ds_decoders ds v = None) \<and>
   (GetMetadataDecoder n v ds = Ret (d, b, er) \<longrightarrow> b \<and> er = None)"
  by (auto simp: GetMetadataDecoder_def GetMetadataBytes_def GetMDecoder_def split: option.splits)

theorem GetMetadata_accessors_panic_iff_witness:
  "GetMetadataDecoder ''kusama'' 1 (NewDecodeStorage :: unit DecodeStorage) = Panic NilDereference"
  using GetMetadata_accessors_panic_iff[of "''kusama''" 1 "NewDecodeStorage :: unit DecodeStorage"]
  by (simp add: NewDecodeStorage_def)

section \<open>Well-formed stores\<close>

text \<open>Every stored decoder is under its own version and is what its stored bytes decode to.\<close>

definition ds_wf :: "(string \<Rightarrow> (goerror + 'd) lib) \<Rightarrow> 'd DecodeStorage \<Rightarrow> bool" where
  "ds_wf process ds \<longleftrightarrow> (\<forall>v md. ds_decoders ds v = Some md \<longrightarrow>
     md_Spec md = v \<and> process (md_Bytes md) = Returns (Inr (md_Decoder md)))"

datatype ds_op = OpInit string | OpSet u64 string

fun apply_op :: "(string \<Rightarrow> (goerror + 'd) lib) \<Rightarrow> (string \<Rightarrow> goerror + string) \<Rightarrow> ds_op \<Rightarrow>
    'd DecodeStorage \<Rightarrow> 'd DecodeStorage" where
  "apply_op process read_file (OpInit specName) ds = snd (ds_Init read_file specName ds)"
| "apply_op process read_file (OpSet v metadata) ds = snd (SetMetadataDecoder process v metadata ds)"

lemma ds_wf_new: "ds_wf process NewDecodeStorage"
  by (simp add: ds_wf_def NewDecodeStorage_def)

lemma ds_wf_Init: "ds_wf process ds \<Longrightarrow> ds_wf process (snd (ds_Init read_file specName ds))"
  by (auto simp: ds_wf_def ds_Init_def Let_def split: sum.split)

lemma ds_wf_Set: "ds_wf process ds \<Longrightarrow> ds_wf process (snd (SetMetadataDecoder process v metadata ds))"
  by (auto simp: ds_wf_def SetMetadataDecoder_def Let_def split: lib.split sum.split)

lemma ds_wf_ops: "ds_wf process ds \<Longrightarrow> ds_wf process (fold (apply_op process read_file) ops ds)"
proof (induction ops arbitrary: ds)
  case (Cons op ops)
  then have "ds_wf process (apply_op process read_file op ds)"
    by (cases op) (simp_all add: ds_wf_Init ds_wf_Set)
  with Cons.IH show ?case by simp
qed simp

text \<open>
  C17: After any sequence of initialisations and of metadata stored, failed ones included, whatever
  decoder \<open>GetMDecoder\<close> finds under a version is marked with that version and is what its
  bytes decode to.
\<close>

theorem store_well_formed:
  assumes "GetMDecoder name v (fold (apply_op process read_file) ops NewDecodeStorage) = (Some md, found, err)"
  shows "md_Spec md = v \<and> process (md_Bytes md) = Returns (Inr (md_Decoder md)) \<and> found \<and> err = None"
proof -
  let ?ds = "fold (apply_op process read_file) ops NewDecodeStorage"
  have "ds_wf process ?ds" by (rule ds_wf_ops[OF ds_wf_new])
  with assms show ?thesis by (auto simp: ds_wf_def GetMDecoder_def split: if_splits option.splits)
qed

definition sample_process :: "string \<Rightarrow> (goerror + nat) lib" where
  "sample_process m = (if m = ''bad'' then PanicsWith (PVString m) else Returns (Inr (length m)))"

theorem store_well_formed_witness:
  "\<exists>md. GetMDecoder ''dot'' 3 (fold (apply_op sample_process Inr)
        [OpInit ''dot'', OpSet 3 ''m'', OpSet 4 ''n'', OpSet 3 ''new'', OpSet 3 ''bad''] NewDecodeStorage) =
      (Some md, True, None) \<and>
    md_Bytes md = ''new'' \<and> md_Spec md = 3 \<and> sample_process (md_Bytes md) = Returns (Inr (md_Decoder md))"
proof -
  let ?ds = "fold (apply_op sample_process Inr)
      [OpInit ''dot'', OpSet 3 ''m'', OpSet 4 ''n'', OpSet 3 ''new'', OpSet 3 ''bad''] NewDecodeStorage"
  obtain md where found: "GetMDecoder ''dot'' 3 ?ds = (Some md, True, None)" and "md_Bytes md = ''new''"
    by (simp add: ds_Init_def SetMetadataDecoder_def GetMDecoder_def NewDecodeStorage_def Let_def
        sample_process_def)
  with store_well_formed[OF found] show ?thesis by blast
qed

end
