(* ===== verification/Ws_Conn.thy ===== *)
theory Ws_Conn
  imports Go_Prelude "HOL-Library.Multiset"
begin

section \<open>The websocket connection to the nodes (api/api.go)\<close>

text \<open>
  \<open>Conn\<close> multiplexes the requests of all callers over one websocket per node address. Per
  address a goroutine \<open>run\<close> takes requests from the shared unbuffered channel, numbers them and
  writes them, \<open>recv\<close> hands replies to the channel of their request, \<open>timeoutChecker\<close> answers
  overdue requests, and \<open>Run\<close> restarts \<open>run\<close> with growing pauses. Every critical section and
  every loop over the response map under its lock is one step of the relation \<open>ws_step\<close>; the
  order in which Go visits the map is the argument \<open>keys\<close> of such a step.

  Sends on response channels are recorded in the order they happen; a send that has to wait
  for room delays its step. Whether a channel has meanwhile been closed by its holder (where the
  send would panic) is not part of this state. JSON encoding and decoding, the network and the clock are
  parameters or choices of a step. Besides the fields of the program a run carries the log of
  what it took, answered and dropped, which the invariants speak about.
\<close>

subsection \<open>Messages\<close>

datatype ConnStatus = StateOffline | StateOnline

definition ErrConnectionClosed :: goerror where
  "ErrConnectionClosed = Errors_New ''connection closed''"

definition ErrRequestTimedout :: goerror where
  "ErrRequestTimedout = Errors_New ''request timedout''"

text \<open>A parameter of a call: a number, a string or a raw JSON value.\<close>

datatype rpc_param = PNum u64 | PStr string | PRaw string

record JsonRPCRequest =
  rq_ID :: u64
  rq_JSONRPC :: string
  rq_Method :: string
  rq_Params :: "rpc_param list option"

record JsonRPCSend =
  snd_Request :: JsonRPCRequest
  snd_RespCH :: nat

record JsonRPCResponse =
  jr_ID :: u64
  jr_JSONRPC :: string
  jr_Result :: string

record ResponseStore =
  st_ID :: u64
  st_Type :: string
  st_Time :: int
  st_RespCH :: nat

record Response =
  rp_ID :: u64
  rp_Error :: "goerror option"
  rp_Type :: string
  rp_Result :: string

subsection \<open>State\<close>

text \<open>
  A run is dialling, serving (\<open>WSLOOP\<close>), past its loop but with its map not yet drained, or
  done (it has signalled \<open>f\<close>).
\<close>

datatype run_phase = Dialing | Online | Leaving | Stopped

record run =
  rn_phase :: run_phase
  rn_next :: u64
  rn_map :: "u64 \<rightharpoonup> ResponseStore"
  rn_wire :: "string list"
  rn_retry :: nat
  rn_taken :: "(nat \<times> u64 \<times> string) list"
  rn_sent :: "(nat \<times> Response) list"
  rn_dropped :: "(nat \<times> u64 \<times> string) list"

record Conn =
  cn_Requests :: "JsonRPCSend list"
  cn_status :: "string \<rightharpoonup> ConnStatus"
  cn_statusEvenOne :: ConnStatus
  cn_runs :: "string \<rightharpoonup> run"

definition NewConn :: Conn where
  "NewConn = \<lparr>cn_Requests = [], cn_status = Map.empty, cn_statusEvenOne = StateOffline,
     cn_runs = Map.empty\<rparr>"

definition new_run :: run where
  "new_run = \<lparr>rn_phase = Dialing, rn_next = 0, rn_map = Map.empty, rn_wire = [], rn_retry = 0,
     rn_taken = [], rn_sent = [], rn_dropped = []\<rparr>"

subsection \<open>Status and Send\<close>

definition getStatusEvenOne :: "Conn \<Rightarrow> ConnStatus" where
  "getStatusEvenOne s = cn_statusEvenOne s"

definition getStatus :: "Conn \<Rightarrow> ConnStatus" where
  "getStatus s = (if StateOnline \<in> ran (cn_status s) then StateOnline else StateOffline)"

text \<open>The request waits on the unbuffered channel until a run takes it.\<close>

definition Send :: "nat \<Rightarrow> u64 \<Rightarrow> string \<Rightarrow> rpc_param list option \<Rightarrow> Conn \<Rightarrow>
    goerror option \<times> Conn" where
  "Send ch rid method params s =
     (if getStatusEvenOne s = StateOffline then (Some ErrConnectionClosed, s)
      else (None, s\<lparr>cn_Requests := cn_Requests s @
             [\<lparr>snd_Request = \<lparr>rq_ID = rid, rq_JSONRPC = [], rq_Method = method, rq_Params = params\<rparr>,
               snd_RespCH = ch\<rparr>]\<rparr>))"

subsection \<open>The handlers of a run\<close>

definition answer :: "nat \<Rightarrow> Response \<Rightarrow> run \<Rightarrow> run" where
  "answer ch r rn = rn\<lparr>rn_sent := rn_sent rn @ [(ch, r)]\<rparr>"

definition forget :: "u64 \<Rightarrow> run \<Rightarrow> run" where
  "forget k rn = rn\<lparr>rn_map := (rn_map rn)(k := None)\<rparr>"

text \<open>The case \<open>req := <-conn.Requests\<close> of \<open>WSLOOP\<close>.\<close>

definition run_request :: "(JsonRPCRequest \<Rightarrow> goerror + string) \<Rightarrow> int \<Rightarrow> bool \<Rightarrow> JsonRPCSend \<Rightarrow>
    run \<Rightarrow> run" where
  "run_request encode now write_ok req rn =
     (let r = snd_Request req;
          originalID = rq_ID r;
          r = r\<lparr>rq_ID := rn_next rn,
                rq_JSONRPC := (if rq_JSONRPC r = [] then ''2.0'' else rq_JSONRPC r)\<rparr>;
          rn = rn\<lparr>rn_next := rn_next rn + 1,
                  rn_taken := rn_taken rn @ [(snd_RespCH req, originalID, rq_Method r)]\<rparr>
      in case encode r of
           Inl err \<Rightarrow>
             answer (snd_RespCH req)
               \<lparr>rp_ID = originalID, rp_Error = Some (Wrapf ''error encoding message: %w '' [] err),
                rp_Type = rq_Method r, rp_Result = []\<rparr> rn
         | Inr msg \<Rightarrow>
             (let rn = rn\<lparr>rn_map := (rn_map rn)(rq_ID r \<mapsto>
                    \<lparr>st_ID = originalID, st_Type = rq_Method r, st_Time = now,
                     st_RespCH = snd_RespCH req\<rparr>)\<rparr>
              in if write_ok then rn\<lparr>rn_wire := rn_wire rn @ [msg]\<rparr>
                 else rn\<lparr>rn_phase := Leaving\<rparr>))"

text \<open>One message in \<open>recv\<close>; with no room in the channel for five seconds it is dropped.\<close>

definition recv_message :: "(string \<Rightarrow> goerror + JsonRPCResponse) \<Rightarrow> bool \<Rightarrow> string \<Rightarrow> run \<Rightarrow> run" where
  "recv_message decode room message rn =
     (case decode message of
        Inl err \<Rightarrow> rn
      | Inr res \<Rightarrow>
          (case rn_map rn (jr_ID res) of
             None \<Rightarrow> rn
           | Some ch \<Rightarrow>
               forget (jr_ID res)
                 (if room then
                    answer (st_RespCH ch) \<lparr>rp_ID = st_ID ch, rp_Error = None, rp_Type = st_Type ch,
                                           rp_Result = jr_Result res\<rparr> rn
                  else rn\<lparr>rn_dropped := rn_dropped rn @ [(st_RespCH ch, st_ID ch, st_Type ch)]\<rparr>)))"

text \<open>Answer the request stored under \<open>k\<close> with an error and delete it.\<close>

definition fail_request :: "goerror \<Rightarrow> u64 \<Rightarrow> run \<Rightarrow> run" where
  "fail_request err k rn =
     (case rn_map rn k of
        None \<Rightarrow> rn
      | Some resp \<Rightarrow>
          forget k (answer (st_RespCH resp) \<lparr>rp_ID = st_ID resp, rp_Error = Some err,
                      rp_Type = st_Type resp, rp_Result = []\<rparr> rn))"

text \<open>One tick of \<open>timeoutChecker\<close>.\<close>

definition overdue :: "int \<Rightarrow> int \<Rightarrow> run \<Rightarrow> u64 \<Rightarrow> bool" where
  "overdue now timeout rn k =
     (case rn_map rn k of None \<Rightarrow> False | Some resp \<Rightarrow> now - st_Time resp > timeout)"

definition timeout_tick :: "int \<Rightarrow> int \<Rightarrow> u64 list \<Rightarrow> run \<Rightarrow> run" where
  "timeout_tick timeout now keys rn =
     fold (\<lambda>k rn. if overdue now timeout rn k then fail_request ErrRequestTimedout k rn else rn)
       keys rn"

text \<open>The loop after \<open>WSLOOP\<close>, then the signal on \<open>f\<close>.\<close>

definition run_finish :: "u64 list \<Rightarrow> run \<Rightarrow> run" where
  "run_finish keys rn = (fold (fail_request ErrConnectionClosed) keys rn)\<lparr>rn_phase := Stopped\<rparr>"

text \<open>The start of \<open>run\<close>: a fresh map and message counter, then the result of dialling.\<close>

definition run_dial :: "bool \<Rightarrow> run \<Rightarrow> run" where
  "run_dial ok rn = (if ok then rn\<lparr>rn_phase := Online, rn_next := 0, rn_map := Map.empty\<rparr>
                     else rn\<lparr>rn_phase := Stopped\<rparr>)"

subsection \<open>Pauses between attempts\<close>

definition multipliers :: "int list" where
  "multipliers = [1, 1, 1, 2, 3, 4, 6, 10]"

definition tryM :: "nat \<Rightarrow> int go" where
  "tryM i = (if length multipliers \<le> i then go_index multipliers 7 else go_index multipliers i)"

subsection \<open>Steps\<close>

definition set_run :: "string \<Rightarrow> run \<Rightarrow> Conn \<Rightarrow> Conn" where
  "set_run addr rn s = s\<lparr>cn_runs := (cn_runs s)(addr \<mapsto> rn)\<rparr>"

definition go_online :: "string \<Rightarrow> Conn \<Rightarrow> Conn" where
  "go_online addr s =
     s\<lparr>cn_status := (cn_status s)(addr \<mapsto> StateOnline), cn_statusEvenOne := StateOnline\<rparr>"

definition go_offline :: "string \<Rightarrow> Conn \<Rightarrow> Conn" where
  "go_offline addr s = s\<lparr>cn_status := (cn_status s)(addr \<mapsto> StateOffline)\<rparr>"

definition all_keys :: "u64 list \<Rightarrow> run \<Rightarrow> bool" where
  "all_keys keys rn \<longleftrightarrow> set keys = dom (rn_map rn)"

inductive ws_step :: "(JsonRPCRequest \<Rightarrow> goerror + string) \<Rightarrow> (string \<Rightarrow> goerror + JsonRPCResponse) \<Rightarrow>
    int \<Rightarrow> Conn \<Rightarrow> Conn \<Rightarrow> bool"
  for encode decode timeout where
  send: "Send ch rid method params s = (None, s') \<Longrightarrow> ws_step encode decode timeout s s'"
| start: "cn_runs s addr = None \<Longrightarrow> ws_step encode decode timeout s (set_run addr new_run s)"
| dial_ok: "cn_runs s addr = Some rn \<Longrightarrow> rn_phase rn = Dialing \<Longrightarrow>
    ws_step encode decode timeout s (go_online addr (set_run addr (run_dial True rn) s))"
| dial_error: "cn_runs s addr = Some rn \<Longrightarrow> rn_phase rn = Dialing \<Longrightarrow>
    ws_step encode decode timeout s (set_run addr (run_dial False rn) s)"
| request: "cn_runs s addr = Some rn \<Longrightarrow> rn_phase rn = Online \<Longrightarrow> cn_Requests s = pre @ req # post \<Longrightarrow>
    ws_step encode decode timeout s
      (set_run addr (run_request encode now write_ok req rn) (s\<lparr>cn_Requests := pre @ post\<rparr>))"
| message: "cn_runs s addr = Some rn \<Longrightarrow>
    ws_step encode decode timeout s (set_run addr (recv_message decode room msg rn) s)"
| tick: "cn_runs s addr = Some rn \<Longrightarrow> all_keys keys rn \<Longrightarrow>
    ws_step encode decode timeout s (set_run addr (timeout_tick timeout now keys rn) s)"
| leave: "cn_runs s addr = Some rn \<Longrightarrow> rn_phase rn = Online \<Longrightarrow>
    ws_step encode decode timeout s (set_run addr (rn\<lparr>rn_phase := Leaving\<rparr>) s)"
| finish: "cn_runs s addr = Some rn \<Longrightarrow> rn_phase rn = Leaving \<Longrightarrow> all_keys keys rn \<Longrightarrow>
    ws_step encode decode timeout s (set_run addr (run_finish keys rn) s)"
| restart: "cn_runs s addr = Some rn \<Longrightarrow> rn_phase rn = Stopped \<Longrightarrow>
    ws_step encode decode timeout s
      (go_offline addr (set_run addr (rn\<lparr>rn_phase := Dialing, rn_retry := rn_retry rn + 1\<rparr>) s))"

inductive_cases ws_stepE: "ws_step encode decode timeout s s'"

inductive ws_reach :: "(JsonRPCRequest \<Rightarrow> goerror + string) \<Rightarrow> (string \<Rightarrow> goerror + JsonRPCResponse) \<Rightarrow>
    int \<Rightarrow> Conn \<Rightarrow> bool"
  for encode decode timeout where
  init: "ws_reach encode decode timeout NewConn"
| more: "ws_reach encode decode timeout s \<Longrightarrow> ws_step encode decode timeout s s' \<Longrightarrow>
    ws_reach encode decode timeout s'"

section \<open>Conservation of requests\<close>

text \<open>What a caller recognises a request by: its channel, the id it chose and the method.\<close>

fun answered :: "nat \<times> Response \<Rightarrow> nat \<times> u64 \<times> string" where
  "answered (ch, r) = (ch, rp_ID r, rp_Type r)"

fun stored :: "ResponseStore option \<Rightarrow> nat \<times> u64 \<times> string" where
  "stored None = (0, 0, [])"
| "stored (Some st) = (st_RespCH st, st_ID st, st_Type st)"

definition pending :: "(u64 \<rightharpoonup> ResponseStore) \<Rightarrow> (nat \<times> u64 \<times> string) multiset" where
  "pending m = image_mset (\<lambda>k. stored (m k)) (mset_set (dom m))"

definition conserved :: "run \<Rightarrow> bool" where
  "conserved rn \<longleftrightarrow> finite (dom (rn_map rn)) \<and>
     mset (rn_taken rn) =
       pending (rn_map rn) + mset (map answered (rn_sent rn)) + mset (rn_dropped rn)"

lemma pending_empty [simp]: "pending Map.empty = {#}"
  by (simp add: pending_def)

lemma pending_insert:
  assumes "finite (dom m)" "m k = None"
  shows "pending (m(k \<mapsto> st)) = add_mset (stored (Some st)) (pending m)"
proof -
  have k: "k \<notin> dom m" using assms(2) by auto
  have "image_mset (\<lambda>ka. stored ((m(k \<mapsto> st)) ka)) (mset_set (dom m)) =
      image_mset (\<lambda>ka. stored (m ka)) (mset_set (dom m))"
    using k assms(1) by (intro image_mset_cong) (auto simp del: dom_fun_upd)
  with k assms(1) show ?thesis by (simp add: pending_def)
qed

lemma pending_remove:
  assumes "finite (dom m)" "m k = Some st"
  shows "pending m = add_mset (stored (Some st)) (pending (m(k := None)))"
proof -
  have "m = (m(k := None))(k \<mapsto> st)" using assms(2) by (auto simp: fun_eq_iff)
  with pending_insert[of "m(k := None)" k st] assms(1) show ?thesis by simp
qed

lemma conserved_answer:
  assumes "conserved rn" "rn_map rn k = Some st" "rp_ID r = st_ID st" "rp_Type r = st_Type st"
  shows "conserved (forget k (answer (st_RespCH st) r rn))"
  using assms pending_remove[of "rn_map rn" k st]
  by (simp add: conserved_def forget_def answer_def)

lemma conserved_drop:
  assumes "conserved rn" "rn_map rn k = Some st"
  shows "conserved (forget k (rn\<lparr>rn_dropped := rn_dropped rn @
    [(st_RespCH st, st_ID st, st_Type st)]\<rparr>))"
  using assms pending_remove[of "rn_map rn" k st] by (simp add: conserved_def forget_def)

lemma conserved_fail_request: "conserved rn \<Longrightarrow> conserved (fail_request err k rn)"
  by (auto simp: fail_request_def intro: conserved_answer split: option.split)

lemma conserved_recv: "conserved rn \<Longrightarrow> conserved (recv_message decode room msg rn)"
  by (auto simp: recv_message_def intro: conserved_answer conserved_drop
      split: sum.split option.split)

lemma conserved_tick: "conserved rn \<Longrightarrow> conserved (timeout_tick timeout now keys rn)"
  unfolding timeout_tick_def
  by (induction keys arbitrary: rn) (simp_all add: conserved_fail_request)

lemma conserved_fold_fail: "conserved rn \<Longrightarrow> conserved (fold (fail_request err) keys rn)"
  by (induction keys arbitrary: rn) (simp_all add: conserved_fail_request)

lemma conserved_phase [simp]: "conserved (rn\<lparr>rn_phase := p\<rparr>) = conserved rn"
  by (simp add: conserved_def)

lemma conserved_retry [simp]: "conserved (rn\<lparr>rn_phase := p, rn_retry := n\<rparr>) = conserved rn"
  by (simp add: conserved_def)

lemma conserved_wire [simp]: "conserved (rn\<lparr>rn_wire := w\<rparr>) = conserved rn"
  by (simp add: conserved_def)

lemma conserved_request:
  assumes "conserved rn" "rn_map rn (rn_next rn) = None"
  shows "conserved (run_request encode now write_ok req rn)"
  using assms pending_insert[of "rn_map rn" "rn_next rn"]
  by (auto simp: run_request_def Let_def conserved_def answer_def split: sum.split)

subsection \<open>Message numbers\<close>

text \<open>
  The counter has 64 bits and wraps, and a wrapped number could overwrite a waiting request;
  so the invariant is stated up to \<open>2^64\<close> requests.
\<close>

definition numbered :: "run \<Rightarrow> bool" where
  "numbered rn \<longleftrightarrow> (\<exists>k \<le> length (rn_taken rn). rn_next rn = of_nat k \<and>
     (\<forall>x \<in> dom (rn_map rn). unat x < k))"

definition quiet :: "run \<Rightarrow> bool" where
  "quiet rn \<longleftrightarrow> (rn_phase rn \<in> {Dialing, Stopped} \<longrightarrow> rn_map rn = Map.empty)"

lemma numbered_phase [simp]:
  "numbered (rn\<lparr>rn_phase := p\<rparr>) = numbered rn"
  "numbered (rn\<lparr>rn_phase := p, rn_retry := n\<rparr>) = numbered rn"
  by (simp_all add: numbered_def)

definition run_inv :: "run \<Rightarrow> bool" where
  "run_inv rn \<longleftrightarrow> (length (rn_taken rn) \<le> 2 ^ 64 \<longrightarrow> conserved rn \<and> numbered rn \<and> quiet rn)"

definition same_book :: "run \<Rightarrow> run \<Rightarrow> bool" where
  "same_book rn rn' \<longleftrightarrow> rn_taken rn' = rn_taken rn \<and> rn_next rn' = rn_next rn \<and>
     dom (rn_map rn') \<subseteq> dom (rn_map rn) \<and> rn_phase rn' = rn_phase rn"

lemma same_book_refl [simp]: "same_book rn rn"
  by (simp add: same_book_def)

lemma same_book_trans: "same_book a b \<Longrightarrow> same_book b c \<Longrightarrow> same_book a c"
  unfolding same_book_def by (elim conjE, intro conjI) (simp, simp, erule (1) order_trans, simp)

lemma same_book_fail: "same_book rn (fail_request err k rn)"
  by (auto simp: same_book_def fail_request_def forget_def answer_def split: option.split)

lemma same_book_recv: "same_book rn (recv_message decode room msg rn)"
  by (auto simp: same_book_def recv_message_def forget_def answer_def
      split: option.split sum.split)

lemma same_book_tick: "same_book rn (timeout_tick timeout now keys rn)"
  unfolding timeout_tick_def
proof (induction keys arbitrary: rn)
  case (Cons k keys)
  then show ?case
    by (auto intro: same_book_trans[OF same_book_fail])
qed simp

lemma same_book_fold_fail: "same_book rn (fold (fail_request err) keys rn)"
  by (induction keys arbitrary: rn) (auto intro: same_book_trans[OF same_book_fail])

lemma numbered_same_book: "same_book rn rn' \<Longrightarrow> numbered rn \<Longrightarrow> numbered rn'"
proof -
  assume same: "same_book rn rn'" and "numbered rn"
  then obtain k where "k \<le> length (rn_taken rn)" "rn_next rn = of_nat k"
    "\<forall>x \<in> dom (rn_map rn). unat x < k" unfolding numbered_def by blast
  moreover have "dom (rn_map rn') \<subseteq> dom (rn_map rn)" "rn_taken rn' = rn_taken rn"
    "rn_next rn' = rn_next rn" using same by (simp_all add: same_book_def)
  ultimately have "rn_next rn' = of_nat k" "k \<le> length (rn_taken rn')"
    "\<forall>x \<in> dom (rn_map rn'). unat x < k" by (simp, simp, blast)
  then show ?thesis unfolding numbered_def by blast
qed

lemma quiet_same_book: "same_book rn rn' \<Longrightarrow> quiet rn \<Longrightarrow> quiet rn'"
  by (auto simp: quiet_def same_book_def)

lemma run_inv_same_book:
  "run_inv rn \<Longrightarrow> same_book rn rn' \<Longrightarrow> (conserved rn \<Longrightarrow> conserved rn') \<Longrightarrow> run_inv rn'"
proof -
  assume inv: "run_inv rn" and same: "same_book rn rn'" and c: "conserved rn \<Longrightarrow> conserved rn'"
  from same have "rn_taken rn' = rn_taken rn" by (simp add: same_book_def)
  with inv c numbered_same_book[OF same] quiet_same_book[OF same] show ?thesis
    unfolding run_inv_def by simp
qed

lemma dom_fail_request [simp]: "dom (rn_map (fail_request err k rn)) = dom (rn_map rn) - {k}"
  by (auto simp: fail_request_def forget_def answer_def split: option.split)

lemma dom_fold_fail [simp]:
  "dom (rn_map (fold (fail_request err) keys rn)) = dom (rn_map rn) - set keys"
  by (induction keys arbitrary: rn) auto

lemma unat_next: "k < 2 ^ 64 \<Longrightarrow> unat (of_nat k :: u64) = k"
  by (simp add: unat_of_nat take_bit_nat_eq_self)

lemma taken_request [simp]:
  "rn_taken (run_request encode now write_ok req rn) =
     rn_taken rn @ [(snd_RespCH req, rq_ID (snd_Request req), rq_Method (snd_Request req))]"
  by (auto simp: run_request_def Let_def answer_def split: sum.split)

lemma next_request [simp]:
  "rn_next (run_request encode now write_ok req rn) = rn_next rn + 1"
  by (auto simp: run_request_def Let_def answer_def split: sum.split)

lemma dom_request:
  "dom (rn_map (run_request encode now write_ok req rn)) \<subseteq> insert (rn_next rn) (dom (rn_map rn))"
  by (auto simp: run_request_def Let_def answer_def split: sum.split)

lemma phase_request: "rn_phase (run_request encode now write_ok req rn) \<in> {rn_phase rn, Leaving}"
  by (auto simp: run_request_def Let_def answer_def split: sum.split)

lemma run_inv_request:
  assumes "run_inv rn" "rn_phase rn = Online"
  shows "run_inv (run_request encode now write_ok req rn)" (is "run_inv ?rn")
  unfolding run_inv_def
proof
  assume le: "length (rn_taken ?rn) \<le> 2 ^ 64"
  then have lt: "length (rn_taken rn) < 2 ^ 64" by simp
  with assms(1) obtain k where inv: "conserved rn" "quiet rn"
    and k: "k \<le> length (rn_taken rn)" "rn_next rn = of_nat k" "\<forall>x \<in> dom (rn_map rn). unat x < k"
    by (auto simp: run_inv_def numbered_def)
  from k(1) lt have u: "unat (rn_next rn) = k" unfolding k(2) by (intro unat_next) simp
  with k(3) have "rn_map rn (rn_next rn) = None" by force
  with inv(1) have "conserved ?rn" by (rule conserved_request)
  moreover have "numbered ?rn"
    unfolding numbered_def
  proof (intro exI conjI ballI)
    show "Suc k \<le> length (rn_taken ?rn)" using k(1) by simp
    show "rn_next ?rn = of_nat (Suc k)" using k(2) by (simp add: add.commute)
    fix x assume "x \<in> dom (rn_map ?rn)"
    then have "x = rn_next rn \<or> x \<in> dom (rn_map rn)" using dom_request by blast
    then show "unat x < Suc k" using u k(3) less_SucI by blast
  qed
  moreover have "quiet ?rn"
    using phase_request[of encode now write_ok req rn] assms(2) by (auto simp: quiet_def)
  ultimately show "conserved ?rn \<and> numbered ?rn \<and> quiet ?rn" by simp
qed

lemma run_inv_finish:
  assumes "run_inv rn" "all_keys keys rn"
  shows "run_inv (run_finish keys rn) \<and> rn_map (run_finish keys rn) = Map.empty"
proof -
  let ?rn = "fold (fail_request ErrConnectionClosed) keys rn"
  have "dom (rn_map ?rn) = {}" using assms(2) by (simp only: dom_fold_fail all_keys_def) simp
  then have "rn_map ?rn = Map.empty" by (simp only: dom_eq_empty_conv)
  moreover have "run_inv ?rn"
    by (rule run_inv_same_book[OF assms(1) same_book_fold_fail conserved_fold_fail])
  ultimately show ?thesis
    by (simp add: run_inv_def run_finish_def quiet_def)
qed

lemma run_inv_dial: "run_inv rn \<Longrightarrow> rn_phase rn = Dialing \<Longrightarrow> run_inv (run_dial ok rn)"
  by (auto simp: run_inv_def run_dial_def quiet_def numbered_def conserved_def)

lemma run_inv_new: "run_inv new_run"
  by (auto simp: run_inv_def new_run_def conserved_def numbered_def quiet_def)

subsection \<open>Reachable states\<close>

definition ws_inv :: "Conn \<Rightarrow> bool" where
  "ws_inv s \<longleftrightarrow> (\<forall>addr rn. cn_runs s addr = Some rn \<longrightarrow> run_inv rn)"

lemma ws_inv_set_run: "ws_inv s \<Longrightarrow> run_inv rn \<Longrightarrow> ws_inv (set_run addr rn s)"
  by (auto simp: ws_inv_def set_run_def)

lemma ws_inv_status [simp]:
  "ws_inv (go_online addr s) = ws_inv s" "ws_inv (go_offline addr s) = ws_inv s"
  "ws_inv (s\<lparr>cn_Requests := q\<rparr>) = ws_inv s"
  by (simp_all add: ws_inv_def go_online_def go_offline_def)

lemma ws_inv_step: "ws_step encode decode timeout s s' \<Longrightarrow> ws_inv s \<Longrightarrow> ws_inv s'"
proof (induction rule: ws_step.induct)
  case (send ch rid m ps s s')
  then show ?case by (auto simp: Send_def ws_inv_def split: if_splits)
next
  case (message s addr rn room msg)
  then have "run_inv (recv_message decode room msg rn)"
    by (intro run_inv_same_book[OF _ same_book_recv conserved_recv]) (auto simp: ws_inv_def)
  with message show ?case by (simp add: ws_inv_set_run)
next
  case (tick s addr rn keys now)
  then have "run_inv (timeout_tick timeout now keys rn)"
    by (intro run_inv_same_book[OF _ same_book_tick conserved_tick]) (auto simp: ws_inv_def)
  with tick show ?case by (simp add: ws_inv_set_run)
next
  case (leave s addr rn)
  then have "run_inv rn" by (auto simp: ws_inv_def)
  then have "run_inv (rn\<lparr>rn_phase := Leaving\<rparr>)"
    by (simp add: run_inv_def quiet_def)
  with leave show ?case by (simp add: ws_inv_set_run)
next
  case (finish s addr rn keys)
  then have "run_inv rn" by (auto simp: ws_inv_def)
  with finish run_inv_finish show ?case by (simp add: ws_inv_set_run)
next
  case (restart s addr rn)
  then have "run_inv rn" by (auto simp: ws_inv_def)
  with restart have "run_inv (rn\<lparr>rn_phase := Dialing, rn_retry := rn_retry rn + 1\<rparr>)"
    by (simp add: run_inv_def quiet_def)
  with restart show ?case by (simp add: ws_inv_set_run)
next
  case (request s addr rn pre req post now write_ok)
  then have "run_inv rn" by (auto simp: ws_inv_def)
  with request show ?case by (simp add: ws_inv_set_run run_inv_request)
next
  case (start s addr)
  then show ?case by (simp add: ws_inv_set_run run_inv_new)
next
  case (dial_ok s addr rn)
  then have "run_inv rn" by (auto simp: ws_inv_def)
  with dial_ok show ?case by (simp add: ws_inv_set_run run_inv_dial)
next
  case (dial_error s addr rn)
  then have "run_inv rn" by (auto simp: ws_inv_def)
  with dial_error show ?case by (simp add: ws_inv_set_run run_inv_dial)
qed

lemma ws_inv_reach: "ws_reach encode decode timeout s \<Longrightarrow> ws_inv s"
proof (induction rule: ws_reach.induct)
  case init
  then show ?case by (simp add: ws_inv_def NewConn_def)
qed (rule ws_inv_step)

lemma reach_run:
  "ws_reach encode decode timeout s \<Longrightarrow> cn_runs s addr = Some rn \<Longrightarrow> run_inv rn"
  using ws_inv_reach by (auto simp: ws_inv_def)

section \<open>Properties\<close>

text \<open>
  C2: In every reachable state, for every node address and as long as its runs have taken at most
  \<open>2^64\<close> requests: each request a run took is either still waiting in its response map, or was
  answered once on the channel it came with, under the id and method its caller chose, or
  was dropped because that channel stayed full; nothing is answered twice or invented. Once
  the run has stopped nothing is left waiting.
\<close>

theorem requests_answered_once:
  assumes "ws_reach encode decode timeout s" and "cn_runs s addr = Some rn"
    and "length (rn_taken rn) \<le> 2 ^ 64"
  shows "mset (rn_taken rn) =
      pending (rn_map rn) + mset (map answered (rn_sent rn)) + mset (rn_dropped rn) \<and>
    (rn_phase rn \<in> {Dialing, Stopped} \<longrightarrow>
      mset (rn_taken rn) = mset (map answered (rn_sent rn)) + mset (rn_dropped rn))"
  using reach_run[OF assms(1,2)] assms(3) by (auto simp: run_inv_def conserved_def quiet_def)

definition sample_encode :: "JsonRPCRequest \<Rightarrow> goerror + string" where
  "sample_encode r = Inr (rq_Method r)"

definition sample_decode :: "string \<Rightarrow> goerror + JsonRPCResponse" where
  "sample_decode m = Inr \<lparr>jr_ID = 0, jr_JSONRPC = ''2.0'', jr_Result = m\<rparr>"

definition sample_conn :: Conn where
  "sample_conn = go_online ''n'' (set_run ''n'' (run_dial True new_run) (set_run ''n'' new_run NewConn))"

definition sample_asked :: Conn where
  "sample_asked = snd (Send 5 7 ''m'' None sample_conn)"

definition sample_served :: Conn where
  "sample_served = set_run ''n'' (recv_message sample_decode True ''r''
     (run_request sample_encode 0 True
       \<lparr>snd_Request = \<lparr>rq_ID = 7, rq_JSONRPC = [], rq_Method = ''m'', rq_Params = None\<rparr>, snd_RespCH = 5\<rparr>
       (run_dial True new_run)))
     (set_run ''n'' (run_request sample_encode 0 True
       \<lparr>snd_Request = \<lparr>rq_ID = 7, rq_JSONRPC = [], rq_Method = ''m'', rq_Params = None\<rparr>, snd_RespCH = 5\<rparr>
       (run_dial True new_run)) (sample_asked\<lparr>cn_Requests := [] @ []\<rparr>))"

lemma sample_conn_reach: "ws_reach sample_encode sample_decode 30 sample_conn"
proof -
  have "ws_reach sample_encode sample_decode 30 (set_run ''n'' new_run NewConn)"
    by (rule ws_reach.more[OF ws_reach.init ws_step.start]) (simp add: NewConn_def)
  then show ?thesis unfolding sample_conn_def
    by (rule ws_reach.more) (rule ws_step.dial_ok, simp_all add: set_run_def new_run_def)
qed

lemma sample_served_reach: "ws_reach sample_encode sample_decode 30 sample_served"
proof -
  have "ws_reach sample_encode sample_decode 30 sample_asked"
    by (rule ws_reach.more[OF sample_conn_reach ws_step.send])
      (simp add: sample_asked_def Send_def getStatusEvenOne_def sample_conn_def go_online_def)
  then have "ws_reach sample_encode sample_decode 30 (set_run ''n'' (run_request sample_encode 0 True
       \<lparr>snd_Request = \<lparr>rq_ID = 7, rq_JSONRPC = [], rq_Method = ''m'', rq_Params = None\<rparr>, snd_RespCH = 5\<rparr>
       (run_dial True new_run)) (sample_asked\<lparr>cn_Requests := [] @ []\<rparr>))"
    by (rule ws_reach.more) (rule ws_step.request, simp_all add: sample_asked_def Send_def
        getStatusEvenOne_def sample_conn_def go_online_def set_run_def run_dial_def NewConn_def)
  then show ?thesis unfolding sample_served_def
    by (rule ws_reach.more) (rule ws_step.message, simp add: set_run_def)
qed

theorem requests_answered_once_witness:
  "\<exists>rn. cn_runs sample_served ''n'' = Some rn \<and>
     mset (rn_taken rn) = {#(5, 7, ''m'')#} \<and> pending (rn_map rn) + mset (rn_dropped rn) = {#}"
proof -
  obtain rn where rn: "cn_runs sample_served ''n'' = Some rn" "rn_taken rn = [(5, 7, ''m'')]"
    "rn_sent rn = [(5, \<lparr>rp_ID = 7, rp_Error = None, rp_Type = ''m'', rp_Result = ''r''\<rparr>)]"
    by (simp add: sample_served_def set_run_def recv_message_def run_request_def sample_encode_def
        sample_decode_def run_dial_def new_run_def forget_def answer_def)
  with requests_answered_once[OF sample_served_reach rn(1)] show ?thesis by auto
qed

definition failed :: "goerror \<Rightarrow> (u64 \<rightharpoonup> ResponseStore) \<Rightarrow> u64 \<Rightarrow> nat \<times> Response" where
  "failed err m k = (st_RespCH (the (m k)), \<lparr>rp_ID = st_ID (the (m k)), rp_Error = Some err,
     rp_Type = st_Type (the (m k)), rp_Result = []\<rparr>)"

lemma sent_fail_request:
  "k \<in> dom (rn_map rn) \<Longrightarrow> rn_sent (fail_request err k rn) = rn_sent rn @ [failed err (rn_map rn) k]"
  by (auto simp: fail_request_def forget_def answer_def failed_def)

lemma map_fail_request: "x \<noteq> k \<Longrightarrow> rn_map (fail_request err k rn) x = rn_map rn x"
  by (simp add: fail_request_def forget_def answer_def split: option.split)

lemma sent_fail_fold: "distinct keys \<Longrightarrow> set keys \<subseteq> dom (rn_map rn) \<Longrightarrow>
    rn_sent (fold (fail_request err) keys rn) = rn_sent rn @ map (failed err (rn_map rn)) keys"
proof (induction keys arbitrary: rn)
  case (Cons k keys)
  let ?rn = "fail_request err k rn"
  have ne: "x \<noteq> k" if "x \<in> set keys" for x using Cons.prems(1) that by auto
  from Cons.prems have k: "k \<in> dom (rn_map rn)" and sub: "set keys \<subseteq> dom (rn_map ?rn)" by auto
  have "map (failed err (rn_map ?rn)) keys = map (failed err (rn_map rn)) keys"
    by (intro map_cong refl) (simp add: failed_def map_fail_request ne)
  with Cons.IH[OF _ sub] Cons.prems(1) sent_fail_request[OF k] show ?case by simp
qed simp

lemma answered_failed: "k \<in> dom m \<Longrightarrow> answered (failed err m k) = stored (m k)"
  by (auto simp: failed_def)

lemma pending_keys: "distinct keys \<Longrightarrow> set keys = dom m \<Longrightarrow>
    mset (map (\<lambda>k. answered (failed err m k)) keys) = pending m"
proof -
  assume d: "distinct keys" and s: "set keys = dom m"
  have "map (\<lambda>k. answered (failed err m k)) keys = map (\<lambda>k. stored (m k)) keys"
    using s by (intro map_cong) (auto simp: failed_def)
  moreover from mset_set_set[OF d] s have "mset keys = mset_set (dom m)" by simp
  ultimately show ?thesis by (simp only: pending_def mset_map)
qed

text \<open>
  C18: When a run leaves its loop (the context was cancelled, the reader ended or a write failed),
  draining the response map answers exactly the requests that were waiting, each with
  \<open>ErrConnectionClosed\<close> on its own channel, whatever the order in which Go visits the map, and
  leaves the map empty.
\<close>

theorem closing_answers_waiting:
  assumes "distinct keys" and "set keys = dom (rn_map rn)"
  shows "rn_map (run_finish keys rn) = Map.empty \<and>
    (\<exists>out. rn_sent (run_finish keys rn) = rn_sent rn @ out \<and>
       (\<forall>(ch, r) \<in> set out. rp_Error r = Some ErrConnectionClosed) \<and>
       mset (map answered out) = pending (rn_map rn))"
proof -
  let ?rn = "fold (fail_request ErrConnectionClosed) keys rn"
  have "dom (rn_map ?rn) = {}" using assms(2) by (simp only: dom_fold_fail) simp
  then have "rn_map ?rn = Map.empty" by (simp only: dom_eq_empty_conv)
  moreover let ?out = "map (failed ErrConnectionClosed (rn_map rn)) keys"
  have "rn_sent ?rn = rn_sent rn @ ?out" using assms by (intro sent_fail_fold) simp_all
  moreover have "mset (map answered ?out) = pending (rn_map rn)"
    using pending_keys[OF assms] by (simp only: map_map comp_def)
  moreover have "\<forall>(ch, r) \<in> set ?out. rp_Error r = Some ErrConnectionClosed"
    by (auto simp: failed_def)
  ultimately show ?thesis unfolding run_finish_def by (intro conjI exI[of _ ?out]) simp_all
qed

definition sample_waiting :: run where
  "sample_waiting = new_run\<lparr>rn_phase := Online, rn_next := 2, rn_map :=
     [0 \<mapsto> \<lparr>st_ID = 7, st_Type = ''m'', st_Time = 0, st_RespCH = 5\<rparr>,
      1 \<mapsto> \<lparr>st_ID = 8, st_Type = ''n'', st_Time = 60, st_RespCH = 6\<rparr>]\<rparr>"

theorem closing_answers_waiting_witness:
  "rn_map (run_finish [1, 0] sample_waiting) = Map.empty"
  using closing_answers_waiting[of "[1, 0]" sample_waiting]
  by (auto simp: sample_waiting_def)

lemma overdue_fail: "x \<noteq> k \<Longrightarrow> overdue now timeout (fail_request err k rn) x = overdue now timeout rn x"
  by (simp add: overdue_def map_fail_request)

lemma tick_filter: "distinct keys \<Longrightarrow>
    timeout_tick timeout now keys rn =
      fold (fail_request ErrRequestTimedout) (filter (overdue now timeout rn) keys) rn"
  unfolding timeout_tick_def
proof (induction keys arbitrary: rn)
  case (Cons k keys)
  have ne: "x \<noteq> k" if "x \<in> set keys" for x using Cons.prems that by auto
  show ?case
  proof (cases "overdue now timeout rn k")
    case True
    have "filter (overdue now timeout (fail_request ErrRequestTimedout k rn)) keys =
        filter (overdue now timeout rn) keys"
      by (intro filter_cong refl) (simp add: overdue_fail ne)
    with True Cons show ?thesis by simp
  qed (use Cons in simp)
qed simp

lemma map_fold_fail: "x \<notin> set keys \<Longrightarrow> rn_map (fold (fail_request err) keys rn) x = rn_map rn x"
  by (induction keys arbitrary: rn) (simp_all add: map_fail_request)

text \<open>
  A tick of the timeout checker that visits every waiting request answers with
  \<open>ErrRequestTimedout\<close> and forgets exactly those that wait longer than the timeout, and leaves
  the others waiting.
\<close>

theorem tick_expires_overdue:
  assumes "distinct keys" and "set keys = dom (rn_map rn)"
  shows "rn_map (timeout_tick timeout now keys rn) =
      (\<lambda>k. if overdue now timeout rn k then None else rn_map rn k) \<and>
    rn_sent (timeout_tick timeout now keys rn) = rn_sent rn @
      map (failed ErrRequestTimedout (rn_map rn)) (filter (overdue now timeout rn) keys)"
proof -
  let ?late = "filter (overdue now timeout rn) keys"
  let ?rn = "fold (fail_request ErrRequestTimedout) ?late rn"
  have late: "set ?late = {k. overdue now timeout rn k}"
    using assms(2) by (auto simp: overdue_def split: option.splits)
  have "rn_map ?rn k = None" if "overdue now timeout rn k" for k
  proof -
    have "k \<notin> dom (rn_map ?rn)" using late that by (simp only: dom_fold_fail) blast
    then show ?thesis by (simp only: domIff not_not)
  qed
  moreover have "rn_map ?rn k = rn_map rn k" if "\<not> overdue now timeout rn k" for k
    using that by (intro map_fold_fail) simp
  ultimately have "rn_map ?rn = (\<lambda>k. if overdue now timeout rn k then None else rn_map rn k)"
    by auto
  moreover have "rn_sent ?rn = rn_sent rn @ map (failed ErrRequestTimedout (rn_map rn)) ?late"
    using assms by (intro sent_fail_fold) auto
  ultimately show ?thesis unfolding tick_filter[OF assms(1)] by simp
qed

theorem tick_expires_overdue_witness:
  "rn_map (timeout_tick 30 70 [0, 1] sample_waiting) =
     [1 \<mapsto> \<lparr>st_ID = 8, st_Type = ''n'', st_Time = 60, st_RespCH = 6\<rparr>]"
proof -
  have "dom (rn_map sample_waiting) = {1, 0}" by (simp add: sample_waiting_def)
  then have "rn_map (timeout_tick 30 70 [0, 1] sample_waiting) =
      (\<lambda>k. if overdue 70 30 sample_waiting k then None else rn_map sample_waiting k)"
    by (intro conjunct1[OF tick_expires_overdue]) auto
  then show ?thesis by (simp add: sample_waiting_def overdue_def fun_eq_iff)
qed

lemma even_one_step: "ws_step encode decode timeout s s' \<Longrightarrow>
    cn_statusEvenOne s = StateOnline \<Longrightarrow> cn_statusEvenOne s' = StateOnline"
  by (induction rule: ws_step.induct)
    (auto simp: Send_def set_run_def go_online_def go_offline_def split: if_splits)

text \<open>
  Once some node was connected, no reachable later state refuses a request: \<open>statusEvenOne\<close>
  is never reset, so \<open>Send\<close> hands the request over, that is, waits for a run to take it, even
  when every node is offline.
\<close>

theorem send_never_refused_again:
  assumes "(ws_step encode decode timeout)\<^sup>*\<^sup>* s s'" and "getStatusEvenOne s = StateOnline"
  shows "fst (Send ch rid method params s') = None \<and>
    (\<exists>req. cn_Requests (snd (Send ch rid method params s')) = cn_Requests s' @ [req] \<and>
       snd_RespCH req = ch \<and> rq_ID (snd_Request req) = rid)"
proof -
  from assms have "cn_statusEvenOne s' = StateOnline"
    by (induction rule: rtranclp_induct) (auto simp: getStatusEvenOne_def intro: even_one_step)
  then show ?thesis by (simp add: Send_def getStatusEvenOne_def)
qed

definition sample_leaving :: Conn where
  "sample_leaving = set_run ''n'' (run_dial True new_run\<lparr>rn_phase := Leaving\<rparr>) sample_conn"

definition sample_finished :: Conn where
  "sample_finished =
     set_run ''n'' (run_finish [] (run_dial True new_run\<lparr>rn_phase := Leaving\<rparr>)) sample_leaving"

definition sample_offline :: Conn where
  "sample_offline = go_offline ''n'' (set_run ''n''
     ((run_finish [] (run_dial True new_run\<lparr>rn_phase := Leaving\<rparr>))
       \<lparr>rn_phase := Dialing, rn_retry := rn_retry (run_finish [] (run_dial True new_run\<lparr>rn_phase := Leaving\<rparr>)) + 1\<rparr>)
     sample_finished)"

lemma sample_offline_steps: "(ws_step sample_encode sample_decode 30)\<^sup>*\<^sup>* sample_conn sample_offline"
proof -
  have 1: "ws_step sample_encode sample_decode 30 sample_conn sample_leaving"
    unfolding sample_leaving_def
    by (rule ws_step.leave) (simp_all add: sample_conn_def go_online_def set_run_def run_dial_def)
  have 2: "ws_step sample_encode sample_decode 30 sample_leaving sample_finished"
    unfolding sample_finished_def
    by (rule ws_step.finish) (simp_all add: sample_leaving_def set_run_def all_keys_def run_dial_def)
  have 3: "ws_step sample_encode sample_decode 30 sample_finished sample_offline"
    unfolding sample_offline_def
    by (rule ws_step.restart) (simp_all add: sample_finished_def set_run_def run_finish_def)
  from r_into_rtranclp[of "ws_step sample_encode sample_decode 30", OF 1] 2
  have "(ws_step sample_encode sample_decode 30)\<^sup>*\<^sup>* sample_conn sample_finished"
    by (rule rtranclp.rtrancl_into_rtrancl)
  then show ?thesis using 3 by (rule rtranclp.rtrancl_into_rtrancl)
qed

theorem send_never_refused_again_witness:
  "getStatus sample_offline = StateOffline \<and> fst (Send 5 7 ''m'' None sample_offline) = None"
proof -
  have "getStatusEvenOne sample_conn = StateOnline"
    by (simp add: getStatusEvenOne_def sample_conn_def go_online_def)
  with send_never_refused_again[OF sample_offline_steps, of 5 7 "''m''" None]
  have "fst (Send 5 7 ''m'' None sample_offline) = None" by simp
  moreover have "getStatus sample_offline = StateOffline"
    by (simp add: sample_offline_def sample_finished_def sample_leaving_def getStatus_def
        go_offline_def set_run_def sample_conn_def go_online_def NewConn_def ran_def)
  ultimately show ?thesis by simp
qed

text \<open>
  The pause before the i-th reconnection never indexes out of the table: it is between 1 and
  10 seconds, never shorter than the one before, and 10 seconds from the eighth attempt on.
\<close>

theorem reconnect_pauses:
  "\<exists>d d'. tryM i = Ret d \<and> tryM (Suc i) = Ret d' \<and> 1 \<le> d \<and> d \<le> d' \<and> d' \<le> 10 \<and> (7 \<le> i \<longrightarrow> d = 10)"
proof -
  consider "i = 0" | "i = 1" | "i = 2" | "i = 3" | "i = 4" | "i = 5" | "i = 6" | "i = 7" | "8 \<le> i"
    by linarith
  then show ?thesis by cases (simp_all add: tryM_def multipliers_def go_index_def)
qed

theorem reconnect_pauses_witness: "tryM 100 = Ret 10"
  using reconnect_pauses[of 100] by auto

section \<open>The health check\<close>

text \<open>
  \<open>HealthCheck\<close> sends a request on its own channel at every tick and counts the ticks in a row
  without a healthy answer. Ten of them cancel all connections, which then reconnect; more than
  twenty, or a request that no run takes for 30 seconds, end the process. A tick is given by
  what happens in it.
\<close>

datatype tick = NotOnline | SendStuck | Answer Response | NoAnswer

datatype hc_action = HcNothing | HcResetAll | HcExit

record hc_state =
  hc_id :: u64
  hc_unhealthy :: u8

definition hc_start :: hc_state where
  "hc_start = \<lparr>hc_id = 0, hc_unhealthy = 0\<rparr>"

definition health_tick :: "(Response \<Rightarrow> bool) \<Rightarrow> tick \<Rightarrow> hc_state \<Rightarrow> hc_action \<times> hc_state" where
  "health_tick healthy t h =
     (case t of
        NotOnline \<Rightarrow> (HcNothing, h)
      | SendStuck \<Rightarrow> (HcExit, h\<lparr>hc_id := hc_id h + 1\<rparr>)
      | _ \<Rightarrow>
        (let h = h\<lparr>hc_id := hc_id h + 1\<rparr>;
             h = (case t of
                    Answer a \<Rightarrow> if \<not> healthy a then h\<lparr>hc_unhealthy := hc_unhealthy h + 1\<rparr>
                                else h\<lparr>hc_unhealthy := 0\<rparr>
                  | _ \<Rightarrow> h\<lparr>hc_unhealthy := hc_unhealthy h + 1\<rparr>)
         in if hc_unhealthy h > 20 then (HcExit, h)
            else if hc_unhealthy h = 10 then (HcResetAll, h)
            else (HcNothing, h)))"

text \<open>The loop over ticks, up to the exit.\<close>

fun health_run :: "(Response \<Rightarrow> bool) \<Rightarrow> tick list \<Rightarrow> hc_state \<Rightarrow> hc_action list \<times> hc_state" where
  "health_run healthy [] h = ([], h)"
| "health_run healthy (t # ts) h =
     (case health_tick healthy t h of
        (HcExit, h') \<Rightarrow> ([HcExit], h')
      | (a, h') \<Rightarrow> (case health_run healthy ts h' of (as, h'') \<Rightarrow> (a # as, h'')))"

text \<open>Specification: the length of the current row of unhealthy ticks, ticks while offline aside.\<close>

fun bad_row :: "(Response \<Rightarrow> bool) \<Rightarrow> tick list \<Rightarrow> nat \<Rightarrow> nat" where
  "bad_row healthy [] n = n"
| "bad_row healthy (NotOnline # ts) n = bad_row healthy ts n"
| "bad_row healthy (SendStuck # ts) n = bad_row healthy ts n"
| "bad_row healthy (Answer a # ts) n = bad_row healthy ts (if healthy a then 0 else Suc n)"
| "bad_row healthy (NoAnswer # ts) n = bad_row healthy ts (Suc n)"

lemma u8_small: "n < 256 \<Longrightarrow> uint (of_nat n :: u8) = int n"
  by (simp add: uint_nat unat_of_nat take_bit_nat_eq_self)

lemma u8_gt_20: "n < 256 \<Longrightarrow> (20 :: u8) < of_nat n \<longleftrightarrow> 20 < n"
  by (simp add: word_less_def u8_small)

lemma u8_eq_10: "n < 256 \<Longrightarrow> (of_nat n :: u8) = 10 \<longleftrightarrow> n = 10"
  using word_of_nat_eq_iff[where 'a = 8, of n 10] by (simp add: take_bit_nat_eq_self)

lemma bad_row_ex:
  "(\<exists>n \<le> length (t # ts). k < bad_row healthy (take n (t # ts)) m \<or>
      n < length (t # ts) \<and> (t # ts) ! n = SendStuck) \<longleftrightarrow>
    k < m \<or> t = SendStuck \<or>
    (\<exists>n \<le> length ts. k < bad_row healthy (t # take n ts) m \<or> n < length ts \<and> ts ! n = SendStuck)"
  (is "?l \<longleftrightarrow> ?r")
proof
  assume ?l
  then obtain n where n: "n \<le> length (t # ts)"
    "k < bad_row healthy (take n (t # ts)) m \<or> n < length (t # ts) \<and> (t # ts) ! n = SendStuck" by blast
  then show ?r by (cases n) auto
next
  assume ?r
  then consider "k < m" | "t = SendStuck" | n where "n \<le> length ts"
      "k < bad_row healthy (t # take n ts) m \<or> n < length ts \<and> ts ! n = SendStuck" by blast
  then show ?l
  proof cases
    case (3 n)
    then show ?thesis by (intro exI[of _ "Suc n"]) auto
  qed (intro exI[of _ 0], simp)+
qed

lemma health_run_exit:
  "m \<le> 20 \<Longrightarrow> hc_unhealthy h = of_nat m \<Longrightarrow>
    HcExit \<in> set (fst (health_run healthy ts h)) \<longleftrightarrow>
    (\<exists>n \<le> length ts. bad_row healthy (take n ts) m > 20 \<or> n < length ts \<and> ts ! n = SendStuck)"
proof (induction ts arbitrary: m h)
  case (Cons t ts)
  have bad: ?case if tk: "health_tick healthy t h =
      (if Suc m > 20 then HcExit else if Suc m = 10 then HcResetAll else HcNothing, h')"
    and row: "\<And>ts. bad_row healthy (t # ts) m = bad_row healthy ts (Suc m)"
    and h': "hc_unhealthy h' = of_nat (Suc m)" and t: "t \<noteq> SendStuck" for h'
  proof (cases "m = 20")
    case True
    with tk row[of "[]"] have "HcExit \<in> set (fst (health_run healthy (t # ts) h))"
      and "bad_row healthy (take 1 (t # ts)) m > 20" by simp_all
    moreover have "1 \<le> length (t # ts)" by simp
    ultimately show ?thesis by blast
  next
    case False
    with Cons.prems have "Suc m \<le> 20" by simp
    from Cons.IH[OF this h'] show ?thesis using False Cons.prems tk t unfolding bad_row_ex
      by (auto simp: row split: prod.split)
  qed
  show ?case
  proof (cases t)
    case NotOnline
    with Cons.IH[OF Cons.prems] Cons.prems show ?thesis unfolding bad_row_ex
      by (auto simp: health_tick_def split: prod.split)
  next
    case SendStuck
    then show ?thesis unfolding bad_row_ex by (simp add: health_tick_def)
  next
    case (Answer a)
    show ?thesis
    proof (cases "healthy a")
      case True
      have "hc_unhealthy (h\<lparr>hc_id := hc_id h + 1, hc_unhealthy := 0\<rparr>) = of_nat 0" by simp
      from Cons.IH[OF _ this] True Answer Cons.prems show ?thesis unfolding bad_row_ex
        by (auto simp: health_tick_def Let_def split: prod.split)
    next
      case False
      from Cons.prems have "(of_nat (Suc m) :: u8) = 10 \<longleftrightarrow> Suc m = 10" by (intro u8_eq_10) simp
      with False Answer Cons.prems show ?thesis
        using u8_gt_20[of "Suc m"]
        by (intro bad[of "h\<lparr>hc_id := hc_id h + 1, hc_unhealthy := of_nat (Suc m)\<rparr>"])
          (auto simp: health_tick_def Let_def add.commute)
    qed
  next
    case NoAnswer
    from Cons.prems have "(of_nat (Suc m) :: u8) = 10 \<longleftrightarrow> Suc m = 10" by (intro u8_eq_10) simp
    with NoAnswer Cons.prems show ?thesis
      using u8_gt_20[of "Suc m"]
      by (intro bad[of "h\<lparr>hc_id := hc_id h + 1, hc_unhealthy := of_nat (Suc m)\<rparr>"])
        (auto simp: health_tick_def Let_def add.commute)
  qed
qed simp

text \<open>
  C31: The health check ends the process exactly when some tick finds no run to take its request,
  or when 21 ticks in a row (those with no node online not counted) got no healthy answer; one
  healthy answer starts the count anew, and the byte-sized counter never wraps.
\<close>

theorem health_check_exits_iff:
  "HcExit \<in> set (fst (health_run healthy ts hc_start)) \<longleftrightarrow>
    (\<exists>n \<le> length ts. bad_row healthy (take n ts) 0 > 20 \<or> n < length ts \<and> ts ! n = SendStuck)"
  using health_run_exit[of 0 hc_start] by (simp add: hc_start_def)

theorem health_check_exits_iff_witness:
  "HcExit \<in> set (fst (health_run (\<lambda>r. False) [NotOnline, SendStuck] hc_start))"
  unfolding health_check_exits_iff by (rule exI[of _ 1]) simp

end
