(* ===== verification/Block_Data.thy ===== *)
theory Block_Data
  imports Go_Numbers Proxy_Client Decode_Storage Ws_Conn
begin

section \<open>Fetching the data of a block from a node (indexer/getBlock.go)\<close>

text \<open>
  The functions that ask the node for hashes, block, storage and metadata over one response
  channel. A state \<open>io\<close> holds what the environment does: the outcome of each coming \<open>Send\<close>
  (an empty list means that all succeed) and the responses in the order in which they reach
  the channel; a receive with no response left waits for ever. It also logs the requests sent
  and carries the block hash cache, whose operations (a third-party LRU) are the parameter \<open>L\<close>.
  JSON decoding is a parameter; it returns the error together with what it has filled in.
\<close>

record 'c lru =
  lru_Get :: "u64 \<Rightarrow> 'c \<Rightarrow> string option \<times> 'c"
  lru_Add :: "u64 \<Rightarrow> string \<Rightarrow> 'c \<Rightarrow> 'c"

type_synonym rpc_call = "u64 \<times> string \<times> rpc_param list option"

record 'c io =
  io_sends :: "goerror option list"
  io_inbox :: "Response list"
  io_log :: "rpc_call list"
  io_cache :: 'c

text \<open>Actions on the state, sequenced up to the first error, panic or block.\<close>

type_synonym ('a, 'c) act = "'c io \<Rightarrow> 'a go \<times> 'c io"

definition ret :: "'a \<Rightarrow> ('a, 'c) act" where
  "ret x s = (Ret x, s)"

definition fail :: "goerror \<Rightarrow> ('a, 'c) act" where
  "fail e s = (Fail e, s)"

definition lift_go :: "'a go \<Rightarrow> ('a, 'c) act" where
  "lift_go m s = (m, s)"

definition andthen :: "('a, 'c) act \<Rightarrow> ('a \<Rightarrow> ('b, 'c) act) \<Rightarrow> ('b, 'c) act" where
  "andthen m f s =
     (case m s of
        (Ret x, s') \<Rightarrow> f x s'
      | (Fail e, s') \<Rightarrow> (Fail e, s')
      | (Panic p, s') \<Rightarrow> (Panic p, s')
      | (Blocked, s') \<Rightarrow> (Blocked, s'))"

definition send_rpc :: "u64 \<Rightarrow> string \<Rightarrow> rpc_param list option \<Rightarrow> (unit, 'c) act" where
  "send_rpc rid method params s =
     (case io_sends s of
        Some err # rest \<Rightarrow> (Fail err, s\<lparr>io_sends := rest\<rparr>)
      | None # rest \<Rightarrow> (Ret (), s\<lparr>io_sends := rest, io_log := io_log s @ [(rid, method, params)]\<rparr>)
      | [] \<Rightarrow> (Ret (), s\<lparr>io_log := io_log s @ [(rid, method, params)]\<rparr>))"

definition receive :: "(Response, 'c) act" where
  "receive s = (case io_inbox s of [] \<Rightarrow> (Blocked, s) | r # rest \<Rightarrow> (Ret r, s\<lparr>io_inbox := rest\<rparr>))"

definition cache_get :: "'c lru \<Rightarrow> u64 \<Rightarrow> (string option, 'c) act" where
  "cache_get L k s = (case lru_Get L k (io_cache s) of (v, c) \<Rightarrow> (Ret v, s\<lparr>io_cache := c\<rparr>))"

definition cache_add :: "'c lru \<Rightarrow> u64 \<Rightarrow> string \<Rightarrow> (unit, 'c) act" where
  "cache_add L k v s = (Ret (), s\<lparr>io_cache := lru_Add L k v (io_cache s)\<rparr>)"

subsection \<open>Request numbers and storage keys\<close>

definition RequestBlockHash :: u64 where "RequestBlockHash = 1"
definition RequestSystemChain :: u64 where "RequestSystemChain = 2"
definition RequestFinalizedHead :: u64 where "RequestFinalizedHead = 3"
definition RequestTopHeader :: u64 where "RequestTopHeader = 4"
definition RequestParentBlockHash :: u64 where "RequestParentBlockHash = 5"
definition RequestGrandparentBlockHash :: u64 where "RequestGrandparentBlockHash = 6"
definition RequestBlock :: u64 where "RequestBlock = 7"
definition RequestTimestamp :: u64 where "RequestTimestamp = 8"
definition RequestSystemEvents :: u64 where "RequestSystemEvents = 9"
definition RequestNextFeeMultipier :: u64 where "RequestNextFeeMultipier = 10"
definition RequestCurrentEra :: u64 where "RequestCurrentEra = 11"
definition RequestParentMetadata :: u64 where "RequestParentMetadata = 12"
definition RequestParentRuntimeVersion :: u64 where "RequestParentRuntimeVersion = 13"
definition RequestSystemAccount :: u64 where "RequestSystemAccount = 14"

lemmas request_ids = RequestBlockHash_def RequestSystemChain_def RequestFinalizedHead_def
  RequestTopHeader_def RequestParentBlockHash_def RequestGrandparentBlockHash_def RequestBlock_def
  RequestTimestamp_def RequestSystemEvents_def RequestNextFeeMultipier_def RequestCurrentEra_def
  RequestParentMetadata_def RequestParentRuntimeVersion_def RequestSystemAccount_def

definition PolkadotTypeSystemEvents :: string where
  "PolkadotTypeSystemEvents = ''0x26aa394eea5630e07c48ae0c9558cef780d41e5e16056765bc8461851072c9d7''"

definition PolkadotTypeTimeNow :: string where
  "PolkadotTypeTimeNow = ''0xf0c365c3cf59d671eb72da0e7a4113c49f1f0515f462cdcf84e0f1d6045dfcbb''"

definition PolkadotTypeNextFeeMultiplier :: string where
  "PolkadotTypeNextFeeMultiplier = ''0x3f1467a096bcd71a5b6a0c8155e208103f2edf3bdf381debe331ab7446addfdc''"

definition PolkadotTypeCurrentEra :: string where
  "PolkadotTypeCurrentEra = ''0x5f3e4907f716ac89b6347d15ececedca0b6a45321efae92aea15e0740ec7afe7''"

subsection \<open>The latest height\<close>

text \<open>
  \<open>undef s\<close> is what a failed \<open>SetString(s, 16)\<close> leaves in its receiver, which the library does
  not specify; the code goes on with it. \<open>Uint64\<close> takes the low 64 bits of the absolute value.
  The message for a failed header request prints the error of the first response, which is nil.
\<close>

definition header_number :: "(string \<Rightarrow> int) \<Rightarrow> string \<Rightarrow> u64" where
  "header_number undef number =
     (let numberStr = Replace number ''0x'' [] None;
          n = (case BigInt_SetString numberStr 16 of Some n \<Rightarrow> n | None \<Rightarrow> undef numberStr)
      in of_nat (nat (abs n)))"

definition getLatestHeight :: "(string \<Rightarrow> goerror option \<times> BlockHeader) \<Rightarrow> (string \<Rightarrow> int) \<Rightarrow>
    'c lru \<Rightarrow> (u64, 'c) act" where
  "getLatestHeight unmarshal undef L =
     andthen (send_rpc RequestFinalizedHead ''chain_getFinalizedHead'' None) (\<lambda>_.
     andthen receive (\<lambda>resp.
       case rp_Error resp of
         Some e \<Rightarrow> fail (Errorf ''response from ws is wrong (chain_getFinalizedHead): %s '' [AErr e])
       | None \<Rightarrow>
     andthen (send_rpc RequestTopHeader ''chain_getHeader'' (Some [PRaw (rp_Result resp)])) (\<lambda>_.
     andthen receive (\<lambda>header.
       if rp_Error header \<noteq> None
       then fail (Errorf ''response from ws is wrong (chain_getHeader): %s '' [AStr ''%!s(<nil>)''])
       else case unmarshal (rp_Result header) of
              (Some err, _) \<Rightarrow> fail err
            | (None, bH) \<Rightarrow>
                if bh_Number bH = []
                then fail (Errorf ''response from ws is wrong (Number is empty): %s '' [AStr (rp_Result header)])
                else
                  (let height = header_number undef (bh_Number bH) in
                   andthen (lift_go (cut_quotes (rp_Result resp))) (\<lambda>blockHash.
                   andthen (cache_add L height blockHash) (\<lambda>_. ret height)))))))"

subsection \<open>The hashes of a block, its parent and its grandparent\<close>

text \<open>A hash from the cache under \<open>key\<close>, or a request for the block \<open>num\<close>: the hash and the
  number of replies to expect.\<close>

definition hash_or_ask :: "'c lru \<Rightarrow> u64 \<Rightarrow> u64 \<Rightarrow> u64 \<Rightarrow> (string \<times> nat, 'c) act" where
  "hash_or_ask L key rid num =
     andthen (cache_get L key) (\<lambda>HS.
       case HS of
         Some h \<Rightarrow> ret (h, 0)
       | None \<Rightarrow> andthen (send_rpc rid ''chain_getBlockHash'' (Some [PNum num])) (\<lambda>_. ret ([], 1)))"

record hashes =
  hs_block :: string
  hs_parent :: string
  hs_grandparent :: string
  hs_err :: "goerror option"

text \<open>One reply.\<close>

definition hash_reply :: "'c lru \<Rightarrow> u64 \<Rightarrow> Response \<Rightarrow> hashes \<Rightarrow> (hashes, 'c) act" where
  "hash_reply L height r h =
     (case rp_Error r of
        Some e \<Rightarrow> ret (h\<lparr>hs_err := Some e\<rparr>)
      | None \<Rightarrow>
        if rp_ID r = RequestBlockHash then
          (if rp_Result r = [] then ret (h\<lparr>hs_err := Some (Errors_New ''block hash is empty '')\<rparr>)
           else andthen (lift_go (cut_quotes (rp_Result r))) (\<lambda>bh.
                andthen (cache_add L height bh) (\<lambda>_. ret (h\<lparr>hs_block := bh\<rparr>))))
        else if rp_ID r = RequestParentBlockHash then
          (if rp_Result r = [] then ret (h\<lparr>hs_err := Some (Errors_New ''parent hash is empty '')\<rparr>)
           else andthen (lift_go (cut_quotes (rp_Result r))) (\<lambda>ph. ret (h\<lparr>hs_parent := ph\<rparr>)))
        else if rp_ID r = RequestGrandparentBlockHash then
          (if rp_Result r = [] then ret (h\<lparr>hs_err := Some (Errors_New ''grandparent hash is empty '')\<rparr>)
           else andthen (lift_go (cut_quotes (rp_Result r))) (\<lambda>gh. ret (h\<lparr>hs_grandparent := gh\<rparr>)))
        else ret h)"

text \<open>The loop ends when \<open>i == expected\<close>; its argument is the number of replies still to come.\<close>

fun hashes_loop :: "'c lru \<Rightarrow> u64 \<Rightarrow> nat \<Rightarrow> hashes \<Rightarrow> (hashes, 'c) act" where
  "hashes_loop L height 0 h = ret h"
| "hashes_loop L height (Suc n) h =
     andthen receive (\<lambda>r. andthen (hash_reply L height r h) (hashes_loop L height n))"

definition GetBlockHashes :: "'c lru \<Rightarrow> u64 \<Rightarrow> (string \<times> string \<times> string, 'c) act" where
  "GetBlockHashes L height =
     andthen (hash_or_ask L height RequestBlockHash height) (\<lambda>(blockHash, n1).
     andthen (if height > 0 then hash_or_ask L (height - 1) RequestParentBlockHash (height - 1)
              else ret ([], 0)) (\<lambda>(parentHash, n2).
     andthen (if height > 1 then hash_or_ask L (height - 1) RequestGrandparentBlockHash (height - 2)
              else ret ([], 0)) (\<lambda>(grandparentHash, n3).
       (let expected = n1 + n2 + n3 in
        if expected = 0 then ret (blockHash, parentHash, grandparentHash)
        else
          andthen (hashes_loop L height expected
                    \<lparr>hs_block = blockHash, hs_parent = parentHash, hs_grandparent = grandparentHash,
                     hs_err = None\<rparr>) (\<lambda>h.
            case hs_err h of
              Some e \<Rightarrow> fail (Wrapf ''error retrieving data from node: %w  '' [] e)
            | None \<Rightarrow>
                if height = 0 then ret (hs_block h, hs_block h, hs_block h)
                else if height = 1 then ret (hs_block h, hs_parent h, hs_parent h)
                else ret (hs_block h, hs_parent h, hs_grandparent h))))))"

subsection \<open>The other data of a block\<close>

record others =
  ot_ddr :: DecodeDataRequest
  ot_block :: PolkaBlock
  ot_prm :: PolkaRuntimeVersion
  ot_err :: "goerror option"

definition zero_ddr :: DecodeDataRequest where
  "zero_ddr = \<lparr>ddr_Block = [], ddr_Chain = [], ddr_BlockHash = [], ddr_Events = [],
     ddr_Timestamp = [], ddr_MetadataParent = [], ddr_RuntimeParent = [], ddr_CurrentEra = [],
     ddr_NextFeeMultipier = []\<rparr>"

definition bytes_of :: "string \<Rightarrow> u8 list" where
  "bytes_of s = map of_char s"

record codecs =
  cd_block :: "string \<Rightarrow> PolkaBlock \<Rightarrow> goerror option \<times> PolkaBlock"
  cd_runtime :: "string \<Rightarrow> PolkaRuntimeVersion \<Rightarrow> goerror option \<times> PolkaRuntimeVersion"

text \<open>One reply without an error. Decoding the block or the runtime version overwrites \<open>err\<close>.\<close>

definition other_reply :: "codecs \<Rightarrow> Response \<Rightarrow> others \<Rightarrow> others go" where
  "other_reply C res o1 =
     (let ddr = ot_ddr o1; s = cut_quotes (rp_Result res) in
      if rp_Type res = ''system_chain'' then
        bind_go s (\<lambda>t. Ret (o1\<lparr>ot_ddr := ddr\<lparr>ddr_Chain := t\<rparr>\<rparr>))
      else if rp_Type res = ''chain_getBlock'' then
        bind_go s (\<lambda>t. case cd_block C (rp_Result res) (ot_block o1) of (err, b) \<Rightarrow>
          Ret (o1\<lparr>ot_ddr := ddr\<lparr>ddr_Block := bytes_of t\<rparr>, ot_block := b, ot_err := err\<rparr>))
      else if rp_Type res = ''state_getRuntimeVersion'' then
        bind_go s (\<lambda>t. case cd_runtime C (rp_Result res) (ot_prm o1) of (err, p) \<Rightarrow>
          Ret (o1\<lparr>ot_ddr := ddr\<lparr>ddr_RuntimeParent := bytes_of t\<rparr>, ot_prm := p, ot_err := err\<rparr>))
      else if rp_Type res = ''state_getStorage'' then
        (if rp_ID res = RequestNextFeeMultipier then
           bind_go s (\<lambda>t. Ret (o1\<lparr>ot_ddr := ddr\<lparr>ddr_NextFeeMultipier := bytes_of t\<rparr>\<rparr>))
         else if rp_ID res = RequestCurrentEra then
           bind_go s (\<lambda>t. Ret (o1\<lparr>ot_ddr := ddr\<lparr>ddr_CurrentEra := bytes_of t\<rparr>\<rparr>))
         else if rp_ID res = RequestTimestamp then
           bind_go s (\<lambda>t. Ret (o1\<lparr>ot_ddr := ddr\<lparr>ddr_Timestamp := bytes_of t\<rparr>\<rparr>))
         else if rp_ID res = RequestSystemEvents then
           bind_go s (\<lambda>t. Ret (o1\<lparr>ot_ddr := ddr\<lparr>ddr_Events := bytes_of t\<rparr>\<rparr>))
         else Ret o1)
      else Ret o1)"

text \<open>The loop over the channel: the responses that arrive, those not consumed, the result.\<close>

fun others_loop :: "codecs \<Rightarrow> u8 \<Rightarrow> others \<Rightarrow> Response list \<Rightarrow> others go \<times> Response list" where
  "others_loop C i o1 [] = (Blocked, [])"
| "others_loop C i o1 (res # inbox) =
     (case rp_Error res of
        Some e \<Rightarrow>
          if i = 7 then (Ret (o1\<lparr>ot_err := Some e\<rparr>), inbox) else others_loop C (i + 1) o1 inbox
      | None \<Rightarrow>
          (case other_reply C res o1 of
             Ret o2 \<Rightarrow> if i = 6 then (Ret o2, inbox) else others_loop C (i + 1) o2 inbox
           | Fail e \<Rightarrow> (Fail e, inbox)
           | Panic p \<Rightarrow> (Panic p, inbox)
           | Blocked \<Rightarrow> (Blocked, inbox)))"

definition receive_others :: "codecs \<Rightarrow> (others, 'c) act" where
  "receive_others C s =
     (case others_loop C 0 \<lparr>ot_ddr = zero_ddr, ot_block = zero_block, ot_prm = zero_runtime,
                            ot_err = None\<rparr> (io_inbox s) of
        (r, inbox) \<Rightarrow> (r, s\<lparr>io_inbox := inbox\<rparr>))"

definition getOthers :: "codecs \<Rightarrow> string \<Rightarrow> string \<Rightarrow> string \<Rightarrow>
    (DecodeDataRequest \<times> PolkaBlock \<times> PolkaRuntimeVersion, 'c) act" where
  "getOthers C blockHash parentBlockHash grandParentBlockHash =
     andthen (send_rpc RequestSystemChain ''system_chain'' (Some [])) (\<lambda>_.
     andthen (send_rpc RequestBlock ''chain_getBlock'' (Some [PStr blockHash])) (\<lambda>_.
     andthen (send_rpc RequestTimestamp ''state_getStorage''
                (Some [PStr PolkadotTypeTimeNow, PStr blockHash])) (\<lambda>_.
     andthen (send_rpc RequestSystemEvents ''state_getStorage''
                (Some [PStr PolkadotTypeSystemEvents, PStr blockHash])) (\<lambda>_.
     andthen (send_rpc RequestNextFeeMultipier ''state_getStorage''
                (Some [PStr PolkadotTypeNextFeeMultiplier, PStr parentBlockHash])) (\<lambda>_.
     andthen (send_rpc RequestCurrentEra ''state_getStorage''
                (Some [PStr PolkadotTypeCurrentEra, PStr parentBlockHash])) (\<lambda>_.
     andthen (send_rpc RequestParentRuntimeVersion ''state_getRuntimeVersion''
                (Some [PStr grandParentBlockHash])) (\<lambda>_.
     andthen (receive_others C) (\<lambda>o1.
       case ot_err o1 of
         Some e \<Rightarrow> fail e
       | None \<Rightarrow> ret (ot_ddr o1, ot_block o1, ot_prm o1)))))))))"

subsection \<open>Metadata and extrinsics\<close>

text \<open>The store is threaded beside the state.\<close>

definition GetMetadata :: "(string \<Rightarrow> (goerror + 'd) lib) \<Rightarrow> string \<Rightarrow> string \<Rightarrow> u64 \<Rightarrow>
    'd DecodeStorage \<Rightarrow> ('d MDecoder \<times> 'd DecodeStorage, 'c) act" where
  "GetMetadata process blockHash specName specVer ds =
     (case GetMDecoder specName specVer ds of
        (_, _, Some err) \<Rightarrow> fail err
      | (Some mDec, True, None) \<Rightarrow> ret (mDec, ds)
      | _ \<Rightarrow>
         andthen (send_rpc RequestParentMetadata ''state_getMetadata'' (Some [PStr blockHash])) (\<lambda>_.
         andthen receive (\<lambda>res.
           case rp_Error res of
             Some e \<Rightarrow> fail e
           | None \<Rightarrow>
               andthen (lift_go (cut_quotes (rp_Result res))) (\<lambda>s.
                 case SetMetadataDecoder process specVer s ds of
                   (r, ds') \<Rightarrow> lift_go (fmap_go (\<lambda>m. (m, ds')) r)))))"

text \<open>\<open>GetExtrinsic\<close> recovers every panic and waits for nothing, so it has only the first two outcomes.\<close>

fun transactions_loop :: "(string \<Rightarrow> 'd \<Rightarrow> int \<Rightarrow> 'v ExtrinsicDecoder lib) \<Rightarrow> 'd \<Rightarrow> int \<Rightarrow>
    string list \<Rightarrow> 'v ScaleExtrinsic list \<Rightarrow> 'v ScaleExtrinsic list \<times> goerror option" where
  "transactions_loop decode metadata specVer [] transactions = (transactions, None)"
| "transactions_loop decode metadata specVer (extrinsicRaw # rest) transactions =
     (case GetExtrinsic decode extrinsicRaw metadata specVer of
        Ret eDec \<Rightarrow> transactions_loop decode metadata specVer rest (transactions @ [eDec])
      | Fail err \<Rightarrow> (transactions, Some err)
      | _ \<Rightarrow> (transactions, None))"

definition GetTransactionsForHeight :: "(string \<Rightarrow> 'd \<Rightarrow> int \<Rightarrow> 'v ExtrinsicDecoder lib) \<Rightarrow>
    PolkaBlock \<Rightarrow> 'd MDecoder \<Rightarrow> int \<Rightarrow> 'v ScaleExtrinsic list \<times> goerror option" where
  "GetTransactionsForHeight decode block meta specVer =
     transactions_loop decode (md_Decoder meta) specVer (pbc_Extrinsics (pb_Contents block)) []"

section \<open>Evaluation of actions\<close>

lemmas act_defs = ret_def fail_def lift_go_def receive_def cache_get_def cache_add_def

lemma andthen_Ret: "m s = (Ret x, s') \<Longrightarrow> andthen m f s = f x s'"
  by (simp add: andthen_def)

lemma andthen_Fail: "m s = (Fail e, s') \<Longrightarrow> andthen m f s = (Fail e, s')"
  by (simp add: andthen_def)

lemma andthen_Panic: "m s = (Panic p, s') \<Longrightarrow> andthen m f s = (Panic p, s')"
  by (simp add: andthen_def)

lemma andthen_Blocked: "m s = (Blocked, s') \<Longrightarrow> andthen m f s = (Blocked, s')"
  by (simp add: andthen_def)

lemma andthen_ret [simp]: "andthen (ret x) f s = f x s"
  by (simp add: andthen_def ret_def)

lemma send_ok [simp]:
  "io_sends s = [] \<Longrightarrow>
     andthen (send_rpc rid m ps) f s = f () (s\<lparr>io_log := io_log s @ [(rid, m, ps)]\<rparr>)"
  by (simp add: andthen_def send_rpc_def)

lemma receive_Cons [simp]:
  "io_inbox s = r # rest \<Longrightarrow> andthen receive f s = f r (s\<lparr>io_inbox := rest\<rparr>)"
  by (simp add: andthen_def receive_def)

lemma receive_Nil [simp]: "io_inbox s = [] \<Longrightarrow> andthen receive f s = (Blocked, s)"
  by (simp add: andthen_def receive_def)

lemma cache_add_run [simp]:
  "andthen (cache_add L k v) f s = f () (s\<lparr>io_cache := lru_Add L k v (io_cache s)\<rparr>)"
  by (simp add: andthen_def cache_add_def)

lemma cache_get_run [simp]:
  "lru_Get L k (io_cache s) = (v, c) \<Longrightarrow> andthen (cache_get L k) f s = f v (s\<lparr>io_cache := c\<rparr>)"
  by (simp add: andthen_def cache_get_def)

lemma lift_go_Ret [simp]: "andthen (lift_go (Ret x)) f s = f x s"
  by (simp add: andthen_def lift_go_def)

text \<open>A JSON string.\<close>

definition quoted :: "string \<Rightarrow> string" where
  "quoted t = CHR 0x22 # t @ [CHR 0x22]"

lemma cut_quoted [simp]: "cut_quotes (quoted t) = Ret t"
  by (simp add: quoted_def cut_quotes_quoted)

lemma quoted_not_Nil [simp]: "quoted t \<noteq> []"
  by (simp add: quoted_def)

section \<open>Hashes\<close>

definition hash_resp :: "u64 \<Rightarrow> string \<Rightarrow> Response" where
  "hash_resp rid t = \<lparr>rp_ID = rid, rp_Error = None, rp_Type = ''chain_getBlockHash'',
     rp_Result = quoted t\<rparr>"

lemma mset_3_cases:
  assumes "mset rs = {#x, y, z#}"
  obtains "rs = [x, y, z]" | "rs = [x, z, y]" | "rs = [y, x, z]" | "rs = [y, z, x]"
    | "rs = [z, x, y]" | "rs = [z, y, x]"
proof -
  from assms have "size (mset rs) = 3" by simp
  then obtain a b c where rs: "rs = [a, b, c]"
    by (auto simp: length_Suc_conv numeral_3_eq_3)
  with assms have "{#a, b, c#} = {#x, y, z#}" by simp
  then have "(a = x \<and> (b = y \<and> c = z \<or> b = z \<and> c = y)) \<or> (a = y \<and> (b = x \<and> c = z \<or> b = z \<and> c = x)) \<or>
      (a = z \<and> (b = x \<and> c = y \<or> b = y \<and> c = x))"
    by (auto simp: add_eq_conv_ex add_mset_eq_single)
  with rs that show thesis by auto
qed

lemma hashes_loop_Cons:
  "io_inbox s = r # rest \<Longrightarrow> hashes_loop L height (Suc n) h s =
     andthen (hash_reply L height r h) (hashes_loop L height n) (s\<lparr>io_inbox := rest\<rparr>)"
  by simp

lemma hash_reply_good:
  "andthen (hash_reply L height (hash_resp RequestBlockHash t) h) f s =
     f (h\<lparr>hs_block := t\<rparr>) (s\<lparr>io_cache := lru_Add L height t (io_cache s)\<rparr>)"
  "andthen (hash_reply L height (hash_resp RequestParentBlockHash t) h) f s = f (h\<lparr>hs_parent := t\<rparr>) s"
  "andthen (hash_reply L height (hash_resp RequestGrandparentBlockHash t) h) f s =
     f (h\<lparr>hs_grandparent := t\<rparr>) s"
  by (simp_all add: hash_reply_def hash_resp_def request_ids andthen_def ret_def lift_go_def cache_add_def)

lemma hashes_loop_any_order:
  assumes "mset rs = {#hash_resp RequestBlockHash b, hash_resp RequestParentBlockHash p,
      hash_resp RequestGrandparentBlockHash g#}" and "io_inbox s = rs @ rest"
  shows "hashes_loop L height 3 h s =
    (Ret (h\<lparr>hs_block := b, hs_parent := p, hs_grandparent := g\<rparr>),
     s\<lparr>io_inbox := rest, io_cache := lru_Add L height b (io_cache s)\<rparr>)"
  using assms(1)
  by (rule mset_3_cases)
    (use assms(2) in \<open>simp_all add: numeral_3_eq_3 hash_reply_good hashes_loop_Cons ret_def
        del: hashes_loop.simps(2)\<close>)

text \<open>A cache without the two hashes that are looked up.\<close>

definition cold :: "'c lru \<Rightarrow> u64 \<Rightarrow> 'c \<Rightarrow> 'c \<Rightarrow> bool" where
  "cold L height c c' \<longleftrightarrow> (\<exists>c1 c2. lru_Get L height c = (None, c1) \<and>
     lru_Get L (height - 1) c1 = (None, c2) \<and> lru_Get L (height - 1) c2 = (None, c'))"

definition hash_calls :: "u64 \<Rightarrow> rpc_call list" where
  "hash_calls height =
     [(RequestBlockHash, ''chain_getBlockHash'', Some [PNum height]),
      (RequestParentBlockHash, ''chain_getBlockHash'', Some [PNum (height - 1)]),
      (RequestGrandparentBlockHash, ''chain_getBlockHash'', Some [PNum (height - 2)])]"

lemma hash_or_ask_hit:
  "lru_Get L key (io_cache s) = (Some v, c) \<Longrightarrow>
     andthen (hash_or_ask L key rid num) f s = f (v, 0) (s\<lparr>io_cache := c\<rparr>)"
  by (simp add: hash_or_ask_def andthen_def cache_get_def ret_def)

lemma hash_or_ask_miss:
  "lru_Get L key (io_cache s) = (None, c) \<Longrightarrow> io_sends s = [] \<Longrightarrow>
     andthen (hash_or_ask L key rid num) f s =
       f ([], 1) (s\<lparr>io_cache := c, io_log := io_log s @ [(rid, ''chain_getBlockHash'', Some [PNum num])]\<rparr>)"
  by (simp add: hash_or_ask_def andthen_def cache_get_def ret_def send_rpc_def)

text \<open>With a cold cache, from height 2 on, three requests go out and three replies are awaited.\<close>

lemma GetBlockHashes_cold:
  assumes "1 < height" and "cold L height (io_cache s) c'" and "io_sends s = []"
  shows "GetBlockHashes L height s =
    andthen (hashes_loop L height 3
        \<lparr>hs_block = [], hs_parent = [], hs_grandparent = [], hs_err = None\<rparr>) (\<lambda>h.
      case hs_err h of
        Some e \<Rightarrow> fail (Wrapf ''error retrieving data from node: %w  '' [] e)
      | None \<Rightarrow> ret (hs_block h, hs_parent h, hs_grandparent h))
    (s\<lparr>io_cache := c', io_log := io_log s @ hash_calls height\<rparr>)"
proof -
  from assms(2) obtain c1 c2 where c: "lru_Get L height (io_cache s) = (None, c1)"
    "lru_Get L (height - 1) c1 = (None, c2)" "lru_Get L (height - 1) c2 = (None, c')"
    by (auto simp: cold_def)
  have h: "height \<noteq> 0" "height \<noteq> 1" "0 < height" using assms(1) by (auto simp: word_less_def)
  have e: "(\<lambda>hs. case hs_err hs of
        Some e \<Rightarrow> fail (Wrapf ''error retrieving data from node: %w  '' [] e)
      | None \<Rightarrow>
          if height = 0 then ret (hs_block hs, hs_block hs, hs_block hs)
          else if height = 1 then ret (hs_block hs, hs_parent hs, hs_parent hs)
          else ret (hs_block hs, hs_parent hs, hs_grandparent hs)) =
      (\<lambda>hs. case hs_err hs of
        Some e \<Rightarrow> fail (Wrapf ''error retrieving data from node: %w  '' [] e)
      | None \<Rightarrow> ret (hs_block hs, hs_parent hs, hs_grandparent hs))"
    using h by (auto split: option.split)
  show ?thesis
    unfolding GetBlockHashes_def
    by (simp add: hash_or_ask_miss c h assms e hash_calls_def numeral_3_eq_3 del: hashes_loop.simps)
qed

lemma GetBlockHashes_run:
  assumes "1 < height" and "cold L height (io_cache s) c'" and "io_sends s = []"
    and "mset rs = {#hash_resp RequestBlockHash b, hash_resp RequestParentBlockHash p,
      hash_resp RequestGrandparentBlockHash g#}" and "io_inbox s = rs @ rest"
  shows "GetBlockHashes L height s =
    (Ret (b, p, g), s\<lparr>io_inbox := rest, io_log := io_log s @ hash_calls height,
                       io_cache := lru_Add L height b c'\<rparr>)"
  unfolding GetBlockHashes_cold[OF assms(1-3)]
  by (subst andthen_Ret[OF hashes_loop_any_order[OF assms(4)]])
    (simp_all add: assms(5) ret_def, cases s, simp)

text \<open>
  At a height above 1 whose hashes are not cached, \<open>GetBlockHashes\<close> asks for the block, its
  parent and its grandparent, and in whatever order the three replies arrive returns the three
  hashes in that order, consumes exactly the three replies and caches the block hash.
\<close>

theorem GetBlockHashes_any_order:
  assumes "1 < height" and "cold L height (io_cache s) c'" and "io_sends s = []"
    and "mset rs = {#hash_resp RequestBlockHash b, hash_resp RequestParentBlockHash p,
      hash_resp RequestGrandparentBlockHash g#}" and "io_inbox s = rs @ rest"
  shows "GetBlockHashes L height s =
    (Ret (b, p, g), s\<lparr>io_inbox := rest, io_log := io_log s @ hash_calls height,
                       io_cache := lru_Add L height b c'\<rparr>)"
  using assms by (rule GetBlockHashes_run)

text \<open>A cache that never evicts, and a node that answers at once.\<close>

definition map_cache :: "(u64 \<rightharpoonup> string) lru" where
  "map_cache = \<lparr>lru_Get = (\<lambda>k c. (c k, c)), lru_Add = (\<lambda>k v c. c(k \<mapsto> v))\<rparr>"

definition io_with :: "(u64 \<rightharpoonup> string) \<Rightarrow> Response list \<Rightarrow> (u64 \<rightharpoonup> string) io" where
  "io_with c inbox = \<lparr>io_sends = [], io_inbox = inbox, io_log = [], io_cache = c\<rparr>"

theorem GetBlockHashes_any_order_witness:
  "fst (GetBlockHashes map_cache 9 (io_with Map.empty
      [hash_resp RequestGrandparentBlockHash ''g'', hash_resp RequestBlockHash ''b'',
       hash_resp RequestParentBlockHash ''p''])) = Ret (''b'', ''p'', ''g'')"
  by (subst GetBlockHashes_any_order[where c' = Map.empty and rest = "[]" and rs =
      "[hash_resp RequestGrandparentBlockHash ''g'', hash_resp RequestBlockHash ''b'',
       hash_resp RequestParentBlockHash ''p'']"])
    (simp_all add: cold_def map_cache_def io_with_def word_less_def)

definition usable :: "Response \<Rightarrow> bool" where
  "usable r \<longleftrightarrow> rp_Error r \<noteq> None \<or> 2 \<le> length (rp_Result r)"

text \<open>The error of the last response that has one, or \<open>e0\<close>.\<close>

definition last_error :: "Response list \<Rightarrow> goerror option \<Rightarrow> goerror option" where
  "last_error rs e0 = fold (\<lambda>r e. case rp_Error r of None \<Rightarrow> e | Some e' \<Rightarrow> Some e') rs e0"

lemma last_error_simps [simp]:
  "last_error [] e0 = e0"
  "last_error (r # rs) e0 = last_error rs (case rp_Error r of None \<Rightarrow> e0 | Some e \<Rightarrow> Some e)"
  by (simp_all add: last_error_def)

lemma last_error_Some: "r \<in> set rs \<Longrightarrow> rp_Error r \<noteq> None \<Longrightarrow> \<exists>e. last_error rs e0 = Some e"
proof (induction rs arbitrary: e0)
  case (Cons x rs)
  have keep: "\<exists>e. last_error rs (Some d) = Some e" for d
    by (induction rs arbitrary: d) (auto split: option.split)
  from Cons show ?case
    by (cases "rp_Error x") (auto intro: keep)
qed simp

lemma cut_usable: "2 \<le> length s \<Longrightarrow> \<exists>t. cut_quotes s = Ret t"
  using cut_quotes_cases[of s] by auto

lemma hash_reply_usable:
  assumes "usable r"
  shows "\<exists>h' c. hash_reply L height r h s = (Ret h', s\<lparr>io_cache := c\<rparr>) \<and>
    hs_err h' = (case rp_Error r of None \<Rightarrow> hs_err h | Some e \<Rightarrow> Some e)"
proof (cases "rp_Error r")
  case None
  with assms have "2 \<le> length (rp_Result r)" by (simp add: usable_def)
  with cut_usable obtain t where "cut_quotes (rp_Result r) = Ret t" "rp_Result r \<noteq> []" by fastforce
  with None show ?thesis
    by (auto simp: hash_reply_def andthen_def lift_go_def ret_def cache_add_def
        intro: exI[of _ "io_cache s"])
next
  case (Some e)
  then show ?thesis by (auto simp: hash_reply_def ret_def intro!: exI[of _ "io_cache s"])
qed

lemma hashes_loop_usable:
  "\<forall>r \<in> set rs. usable r \<Longrightarrow> io_inbox s = rs @ rest \<Longrightarrow>
    \<exists>h' c. hashes_loop L height (length rs) h s = (Ret h', s\<lparr>io_inbox := rest, io_cache := c\<rparr>) \<and>
      hs_err h' = last_error rs (hs_err h)"
proof (induction rs arbitrary: h s)
  case Nil
  then show ?case by (auto simp: ret_def intro!: exI[of _ "io_cache s"])
next
  case (Cons r rs)
  let ?s = "s\<lparr>io_inbox := rs @ rest\<rparr>"
  from Cons.prems(1) hash_reply_usable[of r L height h ?s] obtain h1 c1 where
    1: "hash_reply L height r h ?s = (Ret h1, ?s\<lparr>io_cache := c1\<rparr>)"
    "hs_err h1 = (case rp_Error r of None \<Rightarrow> hs_err h | Some e \<Rightarrow> Some e)" by auto
  from Cons.prems(1) Cons.IH[of "?s\<lparr>io_cache := c1\<rparr>" h1] obtain h2 c2 where
    2: "hashes_loop L height (length rs) h1 (?s\<lparr>io_cache := c1\<rparr>) =
        (Ret h2, ?s\<lparr>io_cache := c1\<rparr>\<lparr>io_inbox := rest, io_cache := c2\<rparr>)"
    "hs_err h2 = last_error rs (hs_err h1)"
    by auto
  have "hashes_loop L height (length (r # rs)) h s = (Ret h2, s\<lparr>io_inbox := rest, io_cache := c2\<rparr>)"
    using Cons.prems(2) 2(1)
    by (simp add: andthen_Ret[where m = "hash_reply L height r h", OF 1(1)])
  with 1(2) 2(2) show ?case by auto
qed

text \<open>
  C22: If any of the three replies carries an error, a closed connection or a timeout say, then
  \<open>GetBlockHashes\<close> fails with an error that \<open>errors.Is\<close> recognises as the last one received,
  having consumed all three replies: none stays behind in the channel, which goes back to the
  pool.
\<close>

theorem GetBlockHashes_reports_errors:
  assumes "1 < height" and "cold L height (io_cache s) c'" and "io_sends s = []"
    and "io_inbox s = [r1, r2, r3] @ rest" and "usable r1" "usable r2" "usable r3"
    and "rp_Error r1 \<noteq> None \<or> rp_Error r2 \<noteq> None \<or> rp_Error r3 \<noteq> None"
  shows "\<exists>e s'. GetBlockHashes L height s = (Fail e, s') \<and> io_inbox s' = rest \<and>
    errors_Is e (the (last_error [r1, r2, r3] None))"
proof -
  let ?s = "s\<lparr>io_cache := c', io_log := io_log s @ hash_calls height\<rparr>"
  let ?last = "last_error [r1, r2, r3] None"
  from assms(4-7) hashes_loop_usable[of "[r1, r2, r3]" ?s rest L height
      "\<lparr>hs_block = [], hs_parent = [], hs_grandparent = [], hs_err = None\<rparr>"]
  obtain h c where h: "hashes_loop L height 3
      \<lparr>hs_block = [], hs_parent = [], hs_grandparent = [], hs_err = None\<rparr> ?s =
        (Ret h, ?s\<lparr>io_inbox := rest, io_cache := c\<rparr>)" "hs_err h = ?last"
    by (auto simp: numeral_3_eq_3 simp del: last_error_simps hashes_loop.simps)
  from assms(8) obtain e where "?last = Some e"
    using last_error_Some[of _ "[r1, r2, r3]" None] by fastforce
  moreover have "errors_Is (Wrapf f xs e) e" for f xs by simp
  ultimately show ?thesis using h(2)
    unfolding GetBlockHashes_cold[OF assms(1-3)] andthen_def[of _ _ ?s] h(1)
    by (simp add: fail_def del: last_error_simps errors_Is.simps)
qed

definition timed_out :: "u64 \<Rightarrow> Response" where
  "timed_out rid = \<lparr>rp_ID = rid, rp_Error = Some ErrRequestTimedout, rp_Type = ''chain_getBlockHash'',
     rp_Result = []\<rparr>"

theorem GetBlockHashes_reports_errors_witness:
  "\<exists>e s'. GetBlockHashes map_cache 9 (io_with Map.empty [timed_out RequestBlockHash,
      hash_resp RequestParentBlockHash ''p'', hash_resp RequestGrandparentBlockHash ''g'']) = (Fail e, s') \<and>
    errors_Is e ErrRequestTimedout \<and> io_inbox s' = []"
  using GetBlockHashes_reports_errors[of 9 map_cache "io_with Map.empty [timed_out RequestBlockHash,
      hash_resp RequestParentBlockHash ''p'', hash_resp RequestGrandparentBlockHash ''g'']" Map.empty
      "timed_out RequestBlockHash" "hash_resp RequestParentBlockHash ''p''"
      "hash_resp RequestGrandparentBlockHash ''g''" "[]"]
  by (auto simp: cold_def map_cache_def io_with_def word_less_def timed_out_def hash_resp_def
      usable_def quoted_def)

text \<open>
  When the parent's hash is cached (as it is after the parent was processed) and the block's
  is not, the lookup of the grandparent uses the parent's height: \<open>GetBlockHashes\<close> returns the
  parent's hash as the grandparent's, too, and never asks the node for the grandparent.
\<close>

theorem GetBlockHashes_cached_parent:
  assumes "1 < height" and "io_sends s = []"
    and "lru_Get L height (io_cache s) = (None, c1)" and "lru_Get L (height - 1) c1 = (Some p, c2)"
    and "lru_Get L (height - 1) c2 = (Some p, c3)"
    and "io_inbox s = hash_resp RequestBlockHash b # rest"
  shows "\<exists>s'. GetBlockHashes L height s = (Ret (b, p, p), s') \<and> io_inbox s' = rest \<and>
    io_log s' = io_log s @ [(RequestBlockHash, ''chain_getBlockHash'', Some [PNum height])]"
proof -
  have h: "height \<noteq> 0" "height \<noteq> 1" "0 < height" using assms(1) by (auto simp: word_less_def)
  show ?thesis unfolding GetBlockHashes_def
    by (simp add: hash_or_ask_miss hash_or_ask_hit assms h)
      (simp add: andthen_def receive_def assms(6) hash_reply_def hash_resp_def request_ids
        lift_go_def cache_add_def ret_def h)
qed

theorem GetBlockHashes_cached_parent_witness:
  "\<exists>s'. GetBlockHashes map_cache 9 (io_with [8 \<mapsto> ''p8''] [hash_resp RequestBlockHash ''b9'']) =
    (Ret (''b9'', ''p8'', ''p8''), s')"
  using GetBlockHashes_cached_parent[of 9 "io_with [8 \<mapsto> ''p8''] [hash_resp RequestBlockHash ''b9'']"
      map_cache "[8 \<mapsto> ''p8'']" "''p8''" "[8 \<mapsto> ''p8'']" "[8 \<mapsto> ''p8'']" "''b9''" "[]"]
  by (auto simp: map_cache_def io_with_def word_less_def)

text \<open>
  A node that does not know a height answers \<open>null\<close>, and cutting the quotes off takes its two
  inner letters for the hash: the string \<open>ul\<close> is returned and cached for that height.
\<close>

theorem GetBlockHashes_null_is_cached:
  assumes "io_sends s = []" and "lru_Get L 0 (io_cache s) = (None, c1)"
    and "io_inbox s = \<lparr>rp_ID = RequestBlockHash, rp_Error = None, rp_Type = t, rp_Result = ''null''\<rparr> # rest"
  shows "\<exists>s'. GetBlockHashes L 0 s = (Ret (''ul'', ''ul'', ''ul''), s') \<and>
    io_cache s' = lru_Add L 0 ''ul'' c1"
proof -
  have "cut_quotes ''null'' = Ret ''ul''" by (simp add: cut_quotes_def go_slice_def)
  then show ?thesis unfolding GetBlockHashes_def
    by (simp add: hash_or_ask_miss assms)
      (simp add: andthen_def receive_def assms(3) hash_reply_def lift_go_def cache_add_def ret_def)
qed

theorem GetBlockHashes_null_is_cached_witness:
  "\<exists>s'. GetBlockHashes map_cache 0 (io_with Map.empty [\<lparr>rp_ID = RequestBlockHash, rp_Error = None,
      rp_Type = [], rp_Result = ''null''\<rparr>]) = (Ret (''ul'', ''ul'', ''ul''), s')"
  using GetBlockHashes_null_is_cached[of "io_with Map.empty [\<lparr>rp_ID = RequestBlockHash,
      rp_Error = None, rp_Type = [], rp_Result = ''null''\<rparr>]" map_cache Map.empty "[]" "[]"]
  by (auto simp: map_cache_def io_with_def)

end
