(* ===== verification/Block_Contents.thy ===== *)
theory Block_Contents
  imports Block_Data
begin

section \<open>What the fetching functions of a block return\<close>

text \<open>
  Properties of \<open>getOthers\<close>, \<open>getLatestHeight\<close>, \<open>GetMetadata\<close> and
  \<open>GetTransactionsForHeight\<close>, whose definitions are in \<open>Block_Data\<close>: independence of the order
  of replies, what happens to errors, and the use of the store of decoders.
\<close>

subsection \<open>Seven replies\<close>

definition reply :: "u64 \<Rightarrow> string \<Rightarrow> string \<Rightarrow> Response" where
  "reply rid typ res = \<lparr>rp_ID = rid, rp_Error = None, rp_Type = typ, rp_Result = res\<rparr>"

text \<open>The replies to the seven requests of \<open>getOthers\<close>.\<close>

definition other_replies :: "string \<Rightarrow> string \<Rightarrow> string \<Rightarrow> string \<Rightarrow> string \<Rightarrow> string \<Rightarrow> string \<Rightarrow>
    Response list" where
  "other_replies chain blk time events fee era runtime =
     [reply RequestSystemChain ''system_chain'' (quoted chain),
      reply RequestBlock ''chain_getBlock'' (CHR ''{'' # blk @ ''}''),
      reply RequestTimestamp ''state_getStorage'' (quoted time),
      reply RequestSystemEvents ''state_getStorage'' (quoted events),
      reply RequestNextFeeMultipier ''state_getStorage'' (quoted fee),
      reply RequestCurrentEra ''state_getStorage'' (quoted era),
      reply RequestParentRuntimeVersion ''state_getRuntimeVersion'' (CHR ''{'' # runtime @ ''}'')]"

text \<open>The state after a reply that decodes; a reply with an error is skipped.\<close>

definition take_reply :: "codecs \<Rightarrow> Response \<Rightarrow> others \<Rightarrow> others" where
  "take_reply C r o1 =
     (if rp_Error r \<noteq> None then o1 else case other_reply C r o1 of Ret o2 \<Rightarrow> o2 | _ \<Rightarrow> o1)"

lemma other_reply_usable:
  assumes "usable r" "rp_Error r = None"
  shows "other_reply C r o1 = Ret (take_reply C r o1)"
proof -
  from assms cut_usable obtain t where "cut_quotes (rp_Result r) = Ret t"
    by (auto simp: usable_def)
  then show ?thesis using assms(2)
    by (auto simp: other_reply_def take_reply_def Let_def split: prod.split)
qed

lemma others_loop_run:
  "rs \<noteq> [] \<Longrightarrow> \<forall>r \<in> set rs. usable r \<Longrightarrow> rp_Error (last rs) = None \<Longrightarrow> i + length rs = 7 \<Longrightarrow>
     others_loop C (of_nat i) o1 (rs @ rest) = (Ret (fold (take_reply C) rs o1), rest)"
proof (induction rs arbitrary: i o1)
  case (Cons r rs)
  have i6: "(of_nat i :: u8) = 6 \<longleftrightarrow> i = 6" and i7: "(of_nat i :: u8) \<noteq> 7"
    using Cons.prems(4) word_of_nat_eq_iff[where 'a = 8, of i 6] word_of_nat_eq_iff[where 'a = 8, of i 7]
    by (simp_all add: take_bit_nat_eq_self)
  show ?case
  proof (cases "rs = []")
    case True
    with Cons.prems have r: "usable r" "rp_Error r = None" "i = 6" by simp_all
    with True i6 show ?thesis by (simp add: other_reply_usable)
  next
    case False
    with Cons.prems have prems: "\<forall>r \<in> set rs. usable r" "rp_Error (last rs) = None"
      "Suc i + length rs = 7" by simp_all
    from False Cons.prems(4) have "i \<noteq> 6" by (cases rs) simp_all
    note IH = Cons.IH[OF False prems]
    have inc: "of_nat i + 1 = (of_nat (Suc i) :: u8)" by simp
    show ?thesis
    proof (cases "rp_Error r")
      case None
      with Cons.prems(2) have "other_reply C r o1 = Ret (take_reply C r o1)"
        by (intro other_reply_usable) simp_all
      with None \<open>i \<noteq> 6\<close> i6 show ?thesis using IH[of "take_reply C r o1"]
        by (simp only: append_Cons others_loop.simps option.case go.case inc if_False fold_simps)
    next
      case (Some e)
      then have "take_reply C r o1 = o1" by (simp add: take_reply_def)
      with Some i7 show ?thesis using IH[of o1]
        by (simp only: append_Cons others_loop.simps option.case inc if_False fold_simps)
    qed
  qed
qed simp

lemma others_loop_last_error:
  "rs \<noteq> [] \<Longrightarrow> \<forall>r \<in> set rs. usable r \<Longrightarrow> rp_Error (last rs) \<noteq> None \<Longrightarrow> i + length rs = 7 \<Longrightarrow>
     others_loop C (of_nat i) o1 rs = (Blocked, [])"
proof (induction rs arbitrary: i o1)
  case (Cons r rs)
  have i6: "(of_nat i :: u8) = 6 \<longleftrightarrow> i = 6" and i7: "(of_nat i :: u8) \<noteq> 7"
    using Cons.prems(4) word_of_nat_eq_iff[where 'a = 8, of i 6] word_of_nat_eq_iff[where 'a = 8, of i 7]
    by (simp_all add: take_bit_nat_eq_self)
  show ?case
  proof (cases "rs = []")
    case True
    with Cons.prems i7 show ?thesis by auto
  next
    case False
    with Cons.prems have prems: "\<forall>r \<in> set rs. usable r" "rp_Error (last rs) \<noteq> None"
      "Suc i + length rs = 7" by simp_all
    from False Cons.prems(4) have "i \<noteq> 6" by (cases rs) simp_all
    note IH = Cons.IH[OF False prems]
    have inc: "of_nat i + 1 = (of_nat (Suc i) :: u8)" by simp
    show ?thesis
    proof (cases "rp_Error r")
      case None
      with Cons.prems(2) have "other_reply C r o1 = Ret (take_reply C r o1)"
        by (intro other_reply_usable) simp_all
      with None \<open>i \<noteq> 6\<close> i6 show ?thesis using IH[of "take_reply C r o1"]
        by (simp only: others_loop.simps option.case go.case inc if_False)
    next
      case (Some e)
      with i7 show ?thesis using IH[of o1]
        by (simp only: others_loop.simps option.case inc if_False)
    qed
  qed
qed simp

text \<open>The requests of \<open>getOthers\<close>, and its run on a state in which all sends succeed.\<close>

definition other_calls :: "string \<Rightarrow> string \<Rightarrow> string \<Rightarrow> rpc_call list" where
  "other_calls bh ph gh =
     [(RequestSystemChain, ''system_chain'', Some []),
      (RequestBlock, ''chain_getBlock'', Some [PStr bh]),
      (RequestTimestamp, ''state_getStorage'', Some [PStr PolkadotTypeTimeNow, PStr bh]),
      (RequestSystemEvents, ''state_getStorage'', Some [PStr PolkadotTypeSystemEvents, PStr bh]),
      (RequestNextFeeMultipier, ''state_getStorage'', Some [PStr PolkadotTypeNextFeeMultiplier, PStr ph]),
      (RequestCurrentEra, ''state_getStorage'', Some [PStr PolkadotTypeCurrentEra, PStr ph]),
      (RequestParentRuntimeVersion, ''state_getRuntimeVersion'', Some [PStr gh])]"

definition no_others :: others where
  "no_others = \<lparr>ot_ddr = zero_ddr, ot_block = zero_block, ot_prm = zero_runtime, ot_err = None\<rparr>"

lemma getOthers_run:
  assumes "io_sends s = []"
  shows "getOthers C bh ph gh s =
    (case others_loop C 0 no_others (io_inbox s) of (r, inbox) \<Rightarrow>
       (case r of
          Ret o1 \<Rightarrow> (case ot_err o1 of Some e \<Rightarrow> Fail e | None \<Rightarrow> Ret (ot_ddr o1, ot_block o1, ot_prm o1))
        | Fail e \<Rightarrow> Fail e | Panic p \<Rightarrow> Panic p | Blocked \<Rightarrow> Blocked,
        s\<lparr>io_inbox := inbox, io_log := io_log s @ other_calls bh ph gh\<rparr>))"
proof -
  let ?s = "s\<lparr>io_log := io_log s @ other_calls bh ph gh\<rparr>"
  have "getOthers C bh ph gh s =
      andthen (receive_others C) (\<lambda>o1. case ot_err o1 of
         Some e \<Rightarrow> fail e | None \<Rightarrow> ret (ot_ddr o1, ot_block o1, ot_prm o1)) ?s"
    unfolding getOthers_def other_calls_def by (simp add: assms)
  also have "\<dots> = (case others_loop C 0 no_others (io_inbox s) of (r, inbox) \<Rightarrow>
       (case r of
          Ret o1 \<Rightarrow> (case ot_err o1 of Some e \<Rightarrow> Fail e | None \<Rightarrow> Ret (ot_ddr o1, ot_block o1, ot_prm o1))
        | Fail e \<Rightarrow> Fail e | Panic p \<Rightarrow> Panic p | Blocked \<Rightarrow> Blocked,
        s\<lparr>io_inbox := inbox, io_log := io_log s @ other_calls bh ph gh\<rparr>))"
    unfolding andthen_def receive_others_def no_others_def[symmetric]
    by (cases s) (auto simp: fail_def ret_def split: prod.split go.split option.split)
  finally show ?thesis .
qed

subsection \<open>Order of the replies\<close>

lemma take_reply_simps:
  "take_reply C (reply RequestSystemChain ''system_chain'' (quoted t)) o1 =
     o1\<lparr>ot_ddr := (ot_ddr o1)\<lparr>ddr_Chain := t\<rparr>\<rparr>"
  "take_reply C (reply RequestTimestamp ''state_getStorage'' (quoted t)) o1 =
     o1\<lparr>ot_ddr := (ot_ddr o1)\<lparr>ddr_Timestamp := bytes_of t\<rparr>\<rparr>"
  "take_reply C (reply RequestSystemEvents ''state_getStorage'' (quoted t)) o1 =
     o1\<lparr>ot_ddr := (ot_ddr o1)\<lparr>ddr_Events := bytes_of t\<rparr>\<rparr>"
  "take_reply C (reply RequestNextFeeMultipier ''state_getStorage'' (quoted t)) o1 =
     o1\<lparr>ot_ddr := (ot_ddr o1)\<lparr>ddr_NextFeeMultipier := bytes_of t\<rparr>\<rparr>"
  "take_reply C (reply RequestCurrentEra ''state_getStorage'' (quoted t)) o1 =
     o1\<lparr>ot_ddr := (ot_ddr o1)\<lparr>ddr_CurrentEra := bytes_of t\<rparr>\<rparr>"
  by (simp_all add: take_reply_def reply_def other_reply_def request_ids)

lemma take_reply_block:
  "take_reply C (reply RequestBlock ''chain_getBlock'' (CHR ''{'' # t @ ''}'')) o1 =
     o1\<lparr>ot_ddr := (ot_ddr o1)\<lparr>ddr_Block := bytes_of t\<rparr>,
        ot_block := snd (cd_block C (CHR ''{'' # t @ ''}'') (ot_block o1)),
        ot_err := fst (cd_block C (CHR ''{'' # t @ ''}'') (ot_block o1))\<rparr>"
  by (simp add: take_reply_def reply_def other_reply_def request_ids cut_quotes_quoted
      split: prod.split)

lemma take_reply_runtime:
  "take_reply C (reply RequestParentRuntimeVersion ''state_getRuntimeVersion'' (CHR ''{'' # t @ ''}'')) o1 =
     o1\<lparr>ot_ddr := (ot_ddr o1)\<lparr>ddr_RuntimeParent := bytes_of t\<rparr>,
        ot_prm := snd (cd_runtime C (CHR ''{'' # t @ ''}'') (ot_prm o1)),
        ot_err := fst (cd_runtime C (CHR ''{'' # t @ ''}'') (ot_prm o1))\<rparr>"
  by (simp add: take_reply_def reply_def other_reply_def request_ids cut_quotes_quoted
      split: prod.split)

text \<open>
  The replies without an error that carry a block or a runtime version are JSON of that shape. The
  updates of such replies commute when they are for different fields.
\<close>

definition decodes :: "codecs \<Rightarrow> Response list \<Rightarrow> bool" where
  "decodes C rs \<longleftrightarrow> (\<forall>r \<in> set rs. rp_Error r = None \<longrightarrow>
     (rp_Type r = ''chain_getBlock'' \<longrightarrow> (\<forall>b. fst (cd_block C (rp_Result r) b) = None)) \<and>
     (rp_Type r = ''state_getRuntimeVersion'' \<longrightarrow> (\<forall>p. fst (cd_runtime C (rp_Result r) p) = None)))"

lemma decodes_cong: "set rs = set rs' \<Longrightarrow> decodes C rs = decodes C rs'"
  by (simp add: decodes_def)

lemma decodes_other_replies: "decodes C (other_replies chain blk time events fee era runtime) \<longleftrightarrow>
    (\<forall>b. fst (cd_block C (CHR ''{'' # blk @ ''}'') b) = None) \<and>
    (\<forall>p. fst (cd_runtime C (CHR ''{'' # runtime @ ''}'') p) = None)"
  by (auto simp: decodes_def other_replies_def reply_def)

lemma take_replies_commute:
  assumes "decodes C (other_replies a b c d e f g)" "x \<in> set (other_replies a b c d e f g)"
    "y \<in> set (other_replies a b c d e f g)"
  shows "take_reply C x \<circ> take_reply C y = take_reply C y \<circ> take_reply C x"
proof -
  have "take_reply C x (take_reply C y o1) = take_reply C y (take_reply C x o1)" for o1
    using assms(2,3) assms(1)[unfolded decodes_other_replies] unfolding other_replies_def
    by (cases o1; cases "ot_ddr o1")
      (auto simp: take_reply_simps take_reply_block take_reply_runtime)
  then show ?thesis by auto
qed

lemma replies_usable: "r \<in> set (other_replies a b c d e f g) \<Longrightarrow> usable r \<and> rp_Error r = None"
  by (auto simp: other_replies_def reply_def usable_def quoted_def)

lemma getOthers_order:
  assumes "io_sends s = []" and "decodes C rs"
    and "mset rs = mset (other_replies chain blk time events fee era runtime)"
    and "io_inbox s = rs @ rest"
  shows "getOthers C bh ph gh s =
    (Ret (\<lparr>ddr_Block = bytes_of blk, ddr_Chain = chain, ddr_BlockHash = [],
           ddr_Events = bytes_of events, ddr_Timestamp = bytes_of time, ddr_MetadataParent = [],
           ddr_RuntimeParent = bytes_of runtime, ddr_CurrentEra = bytes_of era,
           ddr_NextFeeMultipier = bytes_of fee\<rparr>,
          snd (cd_block C (CHR ''{'' # blk @ ''}'') zero_block),
          snd (cd_runtime C (CHR ''{'' # runtime @ ''}'') zero_runtime)),
     s\<lparr>io_inbox := rest, io_log := io_log s @ other_calls bh ph gh\<rparr>)"
proof -
  let ?rs = "other_replies chain blk time events fee era runtime"
  from assms(3) have set: "set rs = set ?rs" by (rule mset_eq_setD)
  from assms(3) have "length rs = length ?rs" by (rule mset_eq_length)
  then have len: "length rs = 7" by (simp add: other_replies_def)
  have ne: "rs \<noteq> []" using len by auto
  have dec: "decodes C ?rs" using assms(2) decodes_cong[OF set] by simp
  have us: "\<forall>r \<in> set rs. usable r" and ok: "rp_Error (last rs) = None"
    using replies_usable set last_in_set[OF ne] by blast+
  have "fold (take_reply C) rs no_others = fold (take_reply C) ?rs no_others"
    using take_replies_commute[OF dec] set assms(3)
    by (intro fun_cong[OF fold_multiset_equiv]) auto
  with others_loop_run[OF ne us ok, of 0 C no_others rest] len
  have run: "others_loop C 0 no_others (rs @ rest) = (Ret (fold (take_reply C) ?rs no_others), rest)"
    by simp
  from dec show ?thesis
    by (simp add: getOthers_run[OF assms(1)] assms(4) run)
      (simp add: decodes_other_replies, simp add: other_replies_def take_reply_simps take_reply_block take_reply_runtime
        no_others_def zero_ddr_def)
qed

text \<open>
  In whatever order the seven replies to its requests arrive, \<open>getOthers\<close> puts each into its
  own field, the storage values by the number of their request, decodes the block and the
  runtime version (which are JSON that decodes), and consumes exactly those seven replies.
\<close>

theorem getOthers_any_order:
  assumes "io_sends s = []" and "decodes C rs"
    and "mset rs = mset (other_replies chain blk time events fee era runtime)"
    and "io_inbox s = rs @ rest"
  shows "getOthers C bh ph gh s =
    (Ret (\<lparr>ddr_Block = bytes_of blk, ddr_Chain = chain, ddr_BlockHash = [],
           ddr_Events = bytes_of events, ddr_Timestamp = bytes_of time, ddr_MetadataParent = [],
           ddr_RuntimeParent = bytes_of runtime, ddr_CurrentEra = bytes_of era,
           ddr_NextFeeMultipier = bytes_of fee\<rparr>,
          snd (cd_block C (CHR ''{'' # blk @ ''}'') zero_block),
          snd (cd_runtime C (CHR ''{'' # runtime @ ''}'') zero_runtime)),
     s\<lparr>io_inbox := rest, io_log := io_log s @ other_calls bh ph gh\<rparr>)"
  using assms by (rule getOthers_order)

definition plain_codecs :: codecs where
  "plain_codecs = \<lparr>cd_block = (\<lambda>s b. (None, b)), cd_runtime = (\<lambda>s p. (None, p))\<rparr>"

lemma plain_decodes: "decodes plain_codecs rs"
  by (simp add: decodes_def plain_codecs_def)

theorem getOthers_any_order_witness:
  "\<exists>ddr b p s'. getOthers plain_codecs ''b'' ''p'' ''g''
      (io_with Map.empty (rev (other_replies ''c'' ''k'' ''t'' ''e'' ''f'' ''r'' ''v''))) =
        (Ret (ddr, b, p), s') \<and> ddr_Timestamp ddr = bytes_of ''t'' \<and> io_inbox s' = []"
  by (subst getOthers_any_order[where rest = "[]" and chain = "''c''" and blk = "''k''" and
      time = "''t''" and events = "''e''" and fee = "''f''" and era = "''r''" and runtime = "''v''"
      and rs = "rev (other_replies ''c'' ''k'' ''t'' ''e'' ''f'' ''r'' ''v'')"])
    (simp_all add: io_with_def plain_decodes)

subsection \<open>Errors among the replies\<close>

lemma take_reply_err: "decodes C [r] \<Longrightarrow> ot_err o1 = None \<Longrightarrow> usable r \<Longrightarrow> ot_err (take_reply C r o1) = None"
proof -
  assume C: "decodes C [r]" and o1: "ot_err o1 = None" and r: "usable r"
  show ?thesis
  proof (cases "rp_Error r")
    case None
    with r cut_usable obtain t where "cut_quotes (rp_Result r) = Ret t" by (auto simp: usable_def)
    with None C o1 show ?thesis
      by (auto simp: take_reply_def other_reply_def Let_def decodes_def split: prod.split)
        (metis fst_conv)+
  qed (simp add: take_reply_def o1)
qed

lemma fold_take_reply_err: "decodes C rs \<Longrightarrow> ot_err o1 = None \<Longrightarrow> \<forall>r \<in> set rs. usable r \<Longrightarrow>
    ot_err (fold (take_reply C) rs o1) = None"
  by (induction rs arbitrary: o1) (simp_all add: take_reply_err decodes_def)

text \<open>
  C32: Errors among the seven replies (a closed connection, a timeout) are swallowed: when the
  last of the seven has no error, \<open>getOthers\<close> returns without an error whatever the others are,
  with the fields of the failed ones left empty; when the last one has an error, it waits for an
  eighth reply that no request asks for.
\<close>

theorem getOthers_swallows_errors:
  assumes "io_sends s = []" and "decodes C rs" and "length rs = 7" and "\<forall>r \<in> set rs. usable r"
    and "io_inbox s = rs"
  shows "fst (getOthers C bh ph gh s) =
    (if rp_Error (last rs) \<noteq> None then Blocked
     else (let o1 = fold (take_reply C) rs no_others in Ret (ot_ddr o1, ot_block o1, ot_prm o1)))"
proof -
  have ne: "rs \<noteq> []" using assms(3) by auto
  show ?thesis
  proof (cases "rp_Error (last rs)")
    case None
    with others_loop_run[OF ne assms(4), of 0 C no_others "[]"] assms(3)
    have "others_loop C 0 no_others rs = (Ret (fold (take_reply C) rs no_others), [])" by simp
    moreover have "ot_err (fold (take_reply C) rs no_others) = None"
      by (rule fold_take_reply_err[OF assms(2) _ assms(4)]) (simp add: no_others_def)
    ultimately show ?thesis using None by (simp add: getOthers_run[OF assms(1)] assms(5) Let_def)
  next
    case (Some e)
    with others_loop_last_error[OF ne assms(4), of 0 C no_others] assms(3)
    have "others_loop C 0 no_others rs = (Blocked, [])" by simp
    with Some show ?thesis by (simp add: getOthers_run[OF assms(1)] assms(5))
  qed
qed

definition failed_reply :: "u64 \<Rightarrow> Response" where
  "failed_reply rid = \<lparr>rp_ID = rid, rp_Error = Some ErrRequestTimedout, rp_Type = ''state_getStorage'',
     rp_Result = []\<rparr>"

theorem getOthers_swallows_errors_witness:
  "\<exists>ddr b p. fst (getOthers plain_codecs ''b'' ''p'' ''g'' (io_with Map.empty
      (failed_reply RequestTimestamp # replicate 6 (reply RequestSystemChain ''system_chain'' (quoted ''c''))))) =
    Ret (ddr, b, p) \<and> ddr_Timestamp ddr = []"
proof -
  let ?rs = "failed_reply RequestTimestamp # replicate 6 (reply RequestSystemChain ''system_chain'' (quoted ''c''))"
  have "(take_reply plain_codecs (reply RequestSystemChain ''system_chain'' (quoted ''c'')) ^^ n) o1 =
      (if n = 0 then o1 else o1\<lparr>ot_ddr := (ot_ddr o1)\<lparr>ddr_Chain := ''c''\<rparr>\<rparr>)" for n o1
    by (induction n) (simp_all add: take_reply_simps)
  moreover have "take_reply plain_codecs (failed_reply rid) o1 = o1" for rid o1
    by (simp add: take_reply_def failed_reply_def)
  ultimately have "ddr_Timestamp (ot_ddr (fold (take_reply plain_codecs) ?rs no_others)) = []"
    by (simp add: no_others_def zero_ddr_def)
  moreover have "fst (getOthers plain_codecs ''b'' ''p'' ''g'' (io_with Map.empty ?rs)) =
      (if rp_Error (last ?rs) \<noteq> None then Blocked
       else (let o1 = fold (take_reply plain_codecs) ?rs no_others in Ret (ot_ddr o1, ot_block o1, ot_prm o1)))"
    by (rule getOthers_swallows_errors)
      (simp_all add: io_with_def plain_decodes usable_def failed_reply_def reply_def quoted_def)
  moreover have "rp_Error (last ?rs) = None" by (simp add: reply_def)
  ultimately show ?thesis
    by (simp only: Let_def not_True_eq_False if_False simp_thms go.inject prod.inject) blast
qed

subsection \<open>The latest height\<close>

text \<open>
  When the node answers the finalized head with a JSON string and the header with a number
  that parses, \<open>getLatestHeight\<close> asks for the header of exactly that head, returns the low 64
  bits of the number and caches the hash under that height, and has consumed both replies.
\<close>

theorem getLatestHeight_result:
  assumes "io_sends s = []" and "io_inbox s = head # header # rest"
    and "rp_Error head = None" and "rp_Result head = quoted hash" and "rp_Error header = None"
    and "unmarshal (rp_Result header) = (None, \<lparr>bh_Number = num\<rparr>)" and "num \<noteq> []"
    and "BigInt_SetString (Replace num ''0x'' [] None) 16 = Some n" and "0 \<le> n"
  shows "getLatestHeight unmarshal undef L s =
    (Ret (of_nat (nat n)),
     s\<lparr>io_inbox := rest,
       io_log := io_log s @ [(RequestFinalizedHead, ''chain_getFinalizedHead'', None),
                             (RequestTopHeader, ''chain_getHeader'', Some [PRaw (quoted hash)])],
       io_cache := lru_Add L (of_nat (nat n)) hash (io_cache s)\<rparr>)"
  using assms by (simp add: getLatestHeight_def header_number_def Let_def ret_def)

theorem getLatestHeight_result_witness:
  "fst (getLatestHeight (\<lambda>s. (None, \<lparr>bh_Number = s\<rparr>)) (\<lambda>s. 0) map_cache (io_with Map.empty
      [reply RequestFinalizedHead ''chain_getFinalizedHead'' (quoted ''h''),
       reply RequestTopHeader ''chain_getHeader'' ''0xff''])) = Ret 255"
  by (subst getLatestHeight_result[where hash = "''h''" and num = "''0xff''" and n = 255 and rest = "[]"
      and head = "reply RequestFinalizedHead ''chain_getFinalizedHead'' (quoted ''h'')"
      and header = "reply RequestTopHeader ''chain_getHeader'' ''0xff''"])
    (simp_all add: io_with_def reply_def Replace.simps HasPrefix_def BigInt_SetString_def parse_int_def parse_nat_def
      digit_val_def digit_table_def)

text \<open>
  A node that answers the finalized head with a JSON-RPC error object gives a response without
  result and without error, since \<open>JsonRPCResponse\<close> has no error field; cutting the quotes of the
  empty result then panics, once a header with a number arrived.
\<close>

theorem getLatestHeight_empty_result_panics:
  assumes "io_sends s = []" and "io_inbox s = head # header # rest"
    and "rp_Error head = None" and "rp_Result head = []" and "rp_Error header = None"
    and "unmarshal (rp_Result header) = (None, \<lparr>bh_Number = num\<rparr>)" and "num \<noteq> []"
  shows "fst (getLatestHeight unmarshal undef L s) = Panic SliceOutOfRange"
  using assms
  by (simp add: getLatestHeight_def Let_def andthen_Panic[where m = "lift_go (Panic _)"]
      lift_go_def cut_quotes_Nil andthen_def[of "\<lambda>s. (Panic _, s)"])

theorem getLatestHeight_empty_result_panics_witness:
  "fst (getLatestHeight (\<lambda>s. (None, \<lparr>bh_Number = s\<rparr>)) (\<lambda>s. 0) map_cache (io_with Map.empty
      [reply RequestFinalizedHead ''chain_getFinalizedHead'' [],
       reply RequestTopHeader ''chain_getHeader'' ''0x1''])) = Panic SliceOutOfRange"
  by (rule getLatestHeight_empty_result_panics[where num = "''0x1''" and rest = "[]"
      and head = "reply RequestFinalizedHead ''chain_getFinalizedHead'' []"
      and header = "reply RequestTopHeader ''chain_getHeader'' ''0x1''"])
    (simp_all add: io_with_def reply_def)

subsection \<open>Metadata\<close>

lemma GetMetadata_hit: "ds_SpecName ds = n \<Longrightarrow> decoder_of v ds = Some md \<Longrightarrow>
    GetMetadata process bh n v ds s = (Ret (md, ds), s)"
  by (simp add: GetMetadata_def GetMDecoder_def decoder_of_def ret_def)

lemma GetMetadata_miss:
  assumes "ds_SpecName ds = n" "decoder_of v ds = None" "io_sends s = []"
    and "io_inbox s = r # rest" "rp_Error r = None" "rp_Result r = quoted m"
  shows "GetMetadata process bh n v ds s =
    (fmap_go (\<lambda>md. (md, snd (SetMetadataDecoder process v m ds))) (fst (SetMetadataDecoder process v m ds)),
     s\<lparr>io_inbox := rest,
       io_log := io_log s @ [(RequestParentMetadata, ''state_getMetadata'', Some [PStr bh])]\<rparr>)"
  using assms
  by (simp add: GetMetadata_def GetMDecoder_def decoder_of_def, cases s)
    (simp add: lift_go_def split: prod.split)

text \<open>
  \<open>GetMetadata\<close> asks the node for the metadata of a spec version once: when it returned a
  decoder, a later call for that version, whatever other versions were fetched in between and
  whether these failed, returns the same decoder without sending a request or reading a reply.
\<close>

theorem GetMetadata_once:
  assumes "GetMetadata process bh n v ds s = (Ret (md, ds'), s')"
  shows "GetMetadata process bh2 n v
      (fold (\<lambda>(m, k) d. snd (decoders.fetch process m k d)) reqs ds') t =
    (Ret (md, fold (\<lambda>(m, k) d. snd (decoders.fetch process m k d)) reqs ds'), t)"
proof -
  let ?ds = "fold (\<lambda>(m, k) d. snd (decoders.fetch process m k d)) reqs ds'"
  have name: "ds_SpecName (snd (decoders.fetch process m k d)) = ds_SpecName d" for m k d
    by (simp add: decoders.fetch_def split: option.split)
  then have "ds_SpecName (fold (\<lambda>(m, k) d. snd (decoders.fetch process m k d)) reqs d) = ds_SpecName d" for d
    by (induction reqs arbitrary: d) (auto split: prod.split)
  moreover have "ds_SpecName ds' = n \<and> decoder_of v ds' = Some md"
  proof -
    have set: "decoder_of v d' = Some m' \<and> ds_SpecName d' = ds_SpecName d"
      if "SetMetadataDecoder process v x d = (Ret m', d')" for x d m' d'
      using that by (auto simp: SetMetadataDecoder_def decoder_of_def Let_def split: lib.splits sum.splits)
    show ?thesis using assms
      by (auto simp: GetMetadata_def GetMDecoder_def decoder_of_def andthen_def ret_def fail_def
          lift_go_def send_rpc_def receive_def dest!: set[unfolded decoder_of_def]
          split: if_splits option.splits list.splits go.splits prod.splits)
  qed
  ultimately show ?thesis using decoders.fetches_keep[of v ds' md process reqs]
    by (intro GetMetadata_hit) simp_all
qed

subsection \<open>Extrinsics\<close>

lemma transactions_loop_mapM:
  "mapM_go (\<lambda>x. GetExtrinsic decode x metadata specVer) xs = Ret ys \<Longrightarrow>
     transactions_loop decode metadata specVer xs acc = (acc @ ys, None)"
  by (induction xs arbitrary: ys acc) auto

lemma GetExtrinsic_cases:
  obtains e where "GetExtrinsic decode x metadata specVer = Ret e"
  | err where "GetExtrinsic decode x metadata specVer = Fail err"
  by (cases "decode x metadata specVer") (auto simp: GetExtrinsic_def)

text \<open>
  The decoded extrinsics of a block are those of its raw ones, one for one and in order, or
  the first that does not decode (an error or a panic of the library) gives an error; a panic
  never gets out.
\<close>

theorem GetTransactionsForHeight_result:
  "case mapM_go (\<lambda>x. GetExtrinsic decode x (md_Decoder meta) specVer)
        (pbc_Extrinsics (pb_Contents block)) of
     Ret ys \<Rightarrow> GetTransactionsForHeight decode block meta specVer = (ys, None)
   | Fail e \<Rightarrow> \<exists>ys. GetTransactionsForHeight decode block meta specVer = (ys, Some e)
   | _ \<Rightarrow> False"
proof -
  have "case mapM_go (\<lambda>x. GetExtrinsic decode x m specVer) xs of
      Ret ys \<Rightarrow> transactions_loop decode m specVer xs acc = (acc @ ys, None)
    | Fail e \<Rightarrow> \<exists>ys. transactions_loop decode m specVer xs acc = (ys, Some e)
    | _ \<Rightarrow> False" for m xs acc
  proof (induction xs arbitrary: acc)
    case (Cons x xs)
    show ?case
    proof (cases rule: GetExtrinsic_cases[of decode x m specVer])
      case (1 e)
      with Cons[of "acc @ [e]"] show ?thesis
        by (cases "mapM_go (\<lambda>x. GetExtrinsic decode x m specVer) xs") auto
    qed simp
  qed simp
  from this[of "md_Decoder meta" "pbc_Extrinsics (pb_Contents block)" "[]"] show ?thesis
    by (simp add: GetTransactionsForHeight_def split: go.splits)
qed

end
