(* ===== verification/Block_And_Tx.thy ===== *)
theory Block_And_Tx
  imports Block_Contents Block_Balance_Mapper
begin

section \<open>A block with its transactions (indexer/getBlock.go, blockAndTx)\<close>

text \<open>
  \<open>blockAndTx\<close> fetches the data of a height from the node, has the proxy decode it, maps the
  reply, and gives each transaction the id of its extrinsic: its position among the block's raw
  extrinsics, found by hash, or else by position and module name.
\<close>

record BlockWithMeta =
  bwm_Network :: string
  bwm_ChainID :: string
  bwm_Version :: string
  bwm_Block :: Block

record TransactionWithMeta =
  twm_Network :: string
  twm_ChainID :: string
  twm_Version :: string
  twm_Transaction :: Transaction

definition zero_transaction :: Transaction where
  "zero_transaction = \<lparr>tx_Hash = [], tx_BlockHash = [], tx_Height = 0, tx_Epoch = [], tx_ChainID = [],
     tx_Time = (0, 0), tx_Fee = [], tx_Version = [], tx_Events = [], tx_HasErrors = False, tx_Raw = [],
     tx_RawLog = []\<rparr>"

definition zero_twm :: TransactionWithMeta where
  "zero_twm = \<lparr>twm_Network = [], twm_ChainID = [], twm_Version = [], twm_Transaction = zero_transaction\<rparr>"

subsection \<open>Pairing transactions with extrinsics\<close>

text \<open>The loop over the raw extrinsics: the index of the first whose hash is \<open>t.Hash[2:]\<close>.\<close>

fun find_extrinsic :: "string \<Rightarrow> nat \<Rightarrow> 'v ScaleExtrinsic list \<Rightarrow> nat option go" where
  "find_extrinsic hash i [] = Ret None"
| "find_extrinsic hash i (rawTx # rest) =
     bind_go (go_slice hash 2 (int (length hash))) (\<lambda>h.
       if h = sx_ExtrinsicHash rawTx then Ret (Some i) else find_extrinsic hash (Suc i) rest)"

definition set_event_ids :: "u64 \<Rightarrow> nat \<Rightarrow> Transaction \<Rightarrow> Transaction" where
  "set_event_ids height i t =
     t\<lparr>tx_Events := map (\<lambda>ev. ev\<lparr>te_ID := dash_id height (int i)\<rparr>) (tx_Events t)\<rparr>"

definition set_candidate_ids :: "u64 \<Rightarrow> nat \<Rightarrow> 'v ScaleExtrinsic \<Rightarrow> Transaction \<Rightarrow> Transaction" where
  "set_candidate_ids height k candidateTx t =
     t\<lparr>tx_Events := map (\<lambda>ev.
          if ToLower (sx_CallModuleName candidateTx) = te_Module ev \<and> te_Kind ev = ''Extrinsic''
          then ev\<lparr>te_ID := dash_id height (int k)\<rparr> else ev) (tx_Events t)\<rparr>"

definition with_meta :: "string \<Rightarrow> string \<Rightarrow> Transaction \<Rightarrow> TransactionWithMeta" where
  "with_meta network chainID t =
     \<lparr>twm_Network = network, twm_ChainID = chainID, twm_Version = ''0.0.1'', twm_Transaction = t\<rparr>"

text \<open>Entry \<open>k\<close> of the result; without a match and a candidate it stays the zero value.\<close>

definition pair_transaction :: "string \<Rightarrow> string \<Rightarrow> u64 \<Rightarrow> 'v ScaleExtrinsic list \<Rightarrow> nat \<Rightarrow>
    Transaction \<Rightarrow> TransactionWithMeta go" where
  "pair_transaction network chainID height txs k t =
     bind_go (find_extrinsic (tx_Hash t) 0 txs) (\<lambda>found.
       case found of
         Some extIndex \<Rightarrow> Ret (with_meta network chainID (set_event_ids height extIndex t))
       | None \<Rightarrow>
           if length txs \<ge> k + 1
           then Ret (with_meta network chainID (set_candidate_ids height k (txs ! k) t))
           else Ret zero_twm)"

fun pair_loop :: "string \<Rightarrow> string \<Rightarrow> u64 \<Rightarrow> 'v ScaleExtrinsic list \<Rightarrow> nat \<Rightarrow> Transaction list \<Rightarrow>
    TransactionWithMeta list go" where
  "pair_loop network chainID height txs k [] = Ret []"
| "pair_loop network chainID height txs k (t # trs) =
     bind_go (pair_transaction network chainID height txs k t) (\<lambda>w.
       fmap_go ((#) w) (pair_loop network chainID height txs (Suc k) trs))"

subsection \<open>The whole\<close>

text \<open>What a client is set up with, and the code outside the repository that it calls.\<close>

record ('d, 'v, 'c) env =
  en_network :: string
  en_chainID :: string
  en_mapper :: TransactionMapper
  en_proxy :: "DecodeDataRequest \<Rightarrow> u64 \<Rightarrow> DecodeResponse go"
  en_header :: "string \<Rightarrow> goerror option \<times> BlockHeader"
  en_undef :: "string \<Rightarrow> int"
  en_lru :: "'c lru"
  en_codecs :: codecs
  en_process :: "string \<Rightarrow> (goerror + 'd) lib"
  en_decode :: "string \<Rightarrow> 'd \<Rightarrow> int \<Rightarrow> 'v ExtrinsicDecoder lib"

text \<open>\<open>if err != nil { return ..., fmt.Errorf(f, err) }\<close>.\<close>

definition wrap_err :: "string \<Rightarrow> ('a, 'c) act \<Rightarrow> ('a, 'c) act" where
  "wrap_err f m s = (case m s of (r, s') \<Rightarrow> (map_err (Wrapf f []) r, s'))"

definition block_transactions :: "('d, 'v, 'c) env \<Rightarrow> 'v ScaleExtrinsic list \<Rightarrow> DecodeResponse \<Rightarrow>
    (BlockWithMeta \<times> TransactionWithMeta list) go" where
  "block_transactions E txs resp =
     bind_go (map_err (Wrapf ''error while mapping block: %w'' [])
                (BlockMapper (dr_Block resp) (en_chainID E) (dr_Epoch resp))) (\<lambda>b.
       let block = \<lparr>bwm_Network = en_network E, bwm_ChainID = en_chainID E, bwm_Version = ''0.0.1'',
                    bwm_Block = b\<rparr> in
       bind_go (deref (dr_Block resp)) (\<lambda>br.
       bind_go (deref (br_Block br)) (\<lambda>blk.
         if blk_Extrinsics blk = [] then Ret (block, [])
         else
           bind_go (map_err (Wrapf ''error while mapping transactions: %w'' [])
                      (TransactionsMapper (en_mapper E) (dr_Block resp))) (\<lambda>trs.
           bind_go (pair_loop (en_network E) (en_chainID E) (b_Height b) txs 0 trs) (\<lambda>transactions.
             Ret (block, transactions))))))"

text \<open>
  The store of decoders is part of the result; after a failure the caller keeps the one it had, and a
  decoder loaded before the failure is loaded again. The channel comes from the pool before and goes
  back to it after (\<open>Channel_Debt\<close>, \<open>Pool_Traffic\<close>).
\<close>

definition blockAndTx :: "('d, 'v, 'c) env \<Rightarrow> u64 \<Rightarrow> 'd DecodeStorage \<Rightarrow>
    ((BlockWithMeta \<times> TransactionWithMeta list) \<times> 'd DecodeStorage, 'c) act" where
  "blockAndTx E height ds =
     andthen (if height = 0
              then wrap_err ''error getting latest height : %w''
                     (getLatestHeight (en_header E) (en_undef E) (en_lru E))
              else ret height) (\<lambda>height.
     andthen (wrap_err ''error unmarshaling block data: %w'' (GetBlockHashes (en_lru E) height))
       (\<lambda>(blH, pBlH, gpBLH).
     andthen (wrap_err ''error unmarshaling block data: %w'' (getOthers (en_codecs E) blH pBlH gpBLH))
       (\<lambda>(ddr, pblock, prv).
     andthen (wrap_err ''error while getting metadata: %w''
                (GetMetadata (en_process E) gpBLH (prv_SpecName prv) (prv_SpecVersion prv) ds))
       (\<lambda>(meta, ds').
       let ddr = ddr\<lparr>ddr_BlockHash := blH, ddr_MetadataParent := bytes_of (md_Bytes meta)\<rparr> in
       case GetTransactionsForHeight (en_decode E) pblock meta (sint (prv_SpecVersion prv)) of
         (_, Some err) \<Rightarrow> fail (Wrapf ''error getTransactionsForHeight: %w'' [] err)
       | (txs, None) \<Rightarrow>
           andthen (lift_go (map_err (Wrapf ''error while decoding data: %w'' []) (en_proxy E ddr height)))
             (\<lambda>resp.
           andthen (lift_go (block_transactions E txs resp)) (\<lambda>out. ret (out, ds')))))))"

section \<open>What pairing does\<close>

lemma find_extrinsic_spec:
  "2 \<le> length hash \<Longrightarrow> find_extrinsic hash i txs =
     Ret (case find (\<lambda>j. sx_ExtrinsicHash (txs ! j) = drop 2 hash) [0..<length txs] of
            None \<Rightarrow> None | Some j \<Rightarrow> Some (i + j))"
proof (induction txs arbitrary: i)
  case (Cons x txs)
  have sl: "go_slice hash 2 (int (length hash)) = Ret (drop 2 hash)"
    using Cons.prems by (simp add: go_slice_def)
  have up: "[0..<length (x # txs)] = 0 # map Suc [0..<length txs]"
    by (simp add: map_Suc_upt upt_conv_Cons del: upt_Suc)
  have fm: "find (\<lambda>j. P ((x # txs) ! j)) (map Suc js) = map_option Suc (find (\<lambda>j. P (txs ! j)) js)"
    for P and js :: "nat list" by (induction js) auto
  show ?case
  proof (cases "sx_ExtrinsicHash x = drop 2 hash")
    case True
    then show ?thesis unfolding up by (simp add: sl)
  next
    case False
    then show ?thesis unfolding up
      by (simp add: sl Cons.IH[OF Cons.prems] fm[where P = "\<lambda>e. sx_ExtrinsicHash e = drop 2 hash"]
          eq_commute[of "drop 2 hash"] split: option.split)
  qed
qed simp

lemma find_extrinsic_found:
  assumes "2 \<le> length hash" "distinct (map sx_ExtrinsicHash txs)" "j < length txs"
    "sx_ExtrinsicHash (txs ! j) = drop 2 hash"
  shows "find_extrinsic hash 0 txs = Ret (Some j)"
proof -
  have ne: "sx_ExtrinsicHash (txs ! i) \<noteq> drop 2 hash" if "i < j" for i
    using nth_eq_iff_index_eq[OF assms(2), of i j] that assms(3,4) by simp
  have "find (\<lambda>j. sx_ExtrinsicHash (txs ! j) = drop 2 hash) [0..<length txs] = Some j"
    unfolding find_Some_iff using assms
    using ne by (intro exI[of _ j]) auto
  then show ?thesis by (simp add: find_extrinsic_spec[OF assms(1)])
qed

lemma find_extrinsic_missing:
  assumes "2 \<le> length hash" "drop 2 hash \<notin> sx_ExtrinsicHash ` set txs"
  shows "find_extrinsic hash 0 txs = Ret None"
proof -
  have "find (\<lambda>j. sx_ExtrinsicHash (txs ! j) = drop 2 hash) [0..<length txs] = None"
    unfolding find_None_iff using assms(2) nth_mem by (fastforce intro: rev_image_eqI)
  then show ?thesis by (simp add: find_extrinsic_spec[OF assms(1)])
qed

lemma pair_loop_nth:
  "pair_loop network chainID height txs k trs = Ret ws \<Longrightarrow>
     length ws = length trs \<and> (\<forall>i < length trs.
       pair_transaction network chainID height txs (k + i) (trs ! i) = Ret (ws ! i))"
proof (induction trs arbitrary: k ws)
  case (Cons t trs)
  then obtain w us where w: "pair_transaction network chainID height txs k t = Ret w"
    and us: "pair_loop network chainID height txs (Suc k) trs = Ret us" "ws = w # us" by auto
  from Cons.IH[OF us(1)] w us(2) show ?case by (auto simp: nth_Cons split: nat.split)
qed simp

lemma pair_transaction_returns:
  "2 \<le> length (tx_Hash t) \<Longrightarrow> \<exists>w. pair_transaction network chainID height txs k t = Ret w"
  by (simp add: pair_transaction_def find_extrinsic_spec split: option.split)

lemma pair_loop_returns:
  "\<forall>t \<in> set trs. 2 \<le> length (tx_Hash t) \<Longrightarrow> \<exists>ws. pair_loop network chainID height txs k trs = Ret ws"
proof (induction trs arbitrary: k)
  case (Cons t trs)
  then obtain w where "pair_transaction network chainID height txs k t = Ret w"
    using pair_transaction_returns by fastforce
  with Cons show ?case by auto
qed simp

definition event_ids :: "TransactionWithMeta \<Rightarrow> string list" where
  "event_ids w = map te_ID (tx_Events (twm_Transaction w))"

lemma event_ids_simps:
  "event_ids (with_meta network chainID (set_event_ids height j t)) =
     map (\<lambda>ev. dash_id height (int j)) (tx_Events t)"
  by (simp add: event_ids_def with_meta_def set_event_ids_def)

lemma pair_loop_ids:
  assumes "distinct (map sx_ExtrinsicHash txs)"
    and "\<forall>t \<in> set trs. \<exists>e \<in> set txs. tx_Hash t = ''0x'' @ sx_ExtrinsicHash e"
  obtains ws where "pair_loop network chainID height txs 0 trs = Ret ws"
    and "list_all2 (\<lambda>t w. \<exists>j < length txs. tx_Hash t = ''0x'' @ sx_ExtrinsicHash (txs ! j) \<and>
      w = with_meta network chainID (set_event_ids height j t)) trs ws"
proof -
  have two: "\<forall>t \<in> set trs. 2 \<le> length (tx_Hash t)" using assms(2) by auto
  from pair_loop_returns[OF two] obtain ws where
    ws: "pair_loop network chainID height txs 0 trs = Ret ws" by blast
  from pair_loop_nth[OF ws] have len: "length trs = length ws"
    and nth: "\<And>i. i < length trs \<Longrightarrow>
      pair_transaction network chainID height txs i (trs ! i) = Ret (ws ! i)" by auto
  have "\<exists>j < length txs. tx_Hash (trs ! i) = ''0x'' @ sx_ExtrinsicHash (txs ! j) \<and>
       ws ! i = with_meta network chainID (set_event_ids height j (trs ! i))" if i: "i < length trs" for i
  proof -
    from assms(2) i obtain e where "e \<in> set txs" "tx_Hash (trs ! i) = ''0x'' @ sx_ExtrinsicHash e"
      by (meson nth_mem)
    then obtain j where j: "j < length txs" "tx_Hash (trs ! i) = ''0x'' @ sx_ExtrinsicHash (txs ! j)"
      by (auto simp: in_set_conv_nth)
    then have "find_extrinsic (tx_Hash (trs ! i)) 0 txs = Ret (Some j)"
      by (intro find_extrinsic_found assms(1)) simp_all
    with nth[OF i] j show ?thesis by (auto simp: pair_transaction_def)
  qed
  with len ws that show thesis by (simp add: list_all2_conv_all_nth)
qed

text \<open>
  C8: When the raw extrinsics have distinct hashes and every transaction's hash is \<open>0x\<close> plus one
  of them, pairing returns the transactions in order, changed in nothing but their event ids, and
  every event id of a transaction is the block height and the position of its extrinsic; so
  transactions of different hashes never share an id.
\<close>

theorem pairing_ids:
  assumes "distinct (map sx_ExtrinsicHash txs)"
    and "\<forall>t \<in> set trs. \<exists>e \<in> set txs. tx_Hash t = ''0x'' @ sx_ExtrinsicHash e"
  shows "\<exists>ws. pair_loop network chainID height txs 0 trs = Ret ws \<and> length ws = length trs \<and>
    (\<forall>i < length trs. \<exists>j < length txs.
       tx_Hash (trs ! i) = ''0x'' @ sx_ExtrinsicHash (txs ! j) \<and>
       ws ! i = with_meta network chainID (set_event_ids height j (trs ! i)) \<and>
       set (event_ids (ws ! i)) \<subseteq> {dash_id height (int j)}) \<and>
    (\<forall>i < length trs. \<forall>i' < length trs. tx_Hash (trs ! i) \<noteq> tx_Hash (trs ! i') \<longrightarrow>
       set (event_ids (ws ! i)) \<inter> set (event_ids (ws ! i')) = {})"
proof -
  obtain ws where ws: "pair_loop network chainID height txs 0 trs = Ret ws"
    and all: "list_all2 (\<lambda>t w. \<exists>j < length txs. tx_Hash t = ''0x'' @ sx_ExtrinsicHash (txs ! j) \<and>
      w = with_meta network chainID (set_event_ids height j t)) trs ws"
    by (rule pair_loop_ids[OF assms])
  have each: "\<exists>j < length txs. tx_Hash (trs ! i) = ''0x'' @ sx_ExtrinsicHash (txs ! j) \<and>
       ws ! i = with_meta network chainID (set_event_ids height j (trs ! i)) \<and>
       set (event_ids (ws ! i)) \<subseteq> {dash_id height (int j)}" if i: "i < length trs" for i
  proof -
    from list_all2_nthD[OF all i] obtain j where "j < length txs"
      "tx_Hash (trs ! i) = ''0x'' @ sx_ExtrinsicHash (txs ! j)"
      "ws ! i = with_meta network chainID (set_event_ids height j (trs ! i))" by blast
    then show ?thesis by (intro exI[of _ j]) (auto simp: event_ids_simps)
  qed
  have "set (event_ids (ws ! i)) \<inter> set (event_ids (ws ! i')) = {}"
    if i: "i < length trs" "i' < length trs" and ne: "tx_Hash (trs ! i) \<noteq> tx_Hash (trs ! i')" for i i'
  proof -
    from each[OF i(1)] obtain j where j: "tx_Hash (trs ! i) = ''0x'' @ sx_ExtrinsicHash (txs ! j)"
      "set (event_ids (ws ! i)) \<subseteq> {dash_id height (int j)}" by blast
    from each[OF i(2)] obtain j' where j': "tx_Hash (trs ! i') = ''0x'' @ sx_ExtrinsicHash (txs ! j')"
      "set (event_ids (ws ! i')) \<subseteq> {dash_id height (int j')}" by blast
    from ne j(1) j'(1) have "j \<noteq> j'" by auto
    then have "dash_id height (int j) \<noteq> dash_id height (int j')" by (simp add: dash_id_inj)
    with j(2) j'(2) show ?thesis by blast
  qed
  with ws list_all2_lengthD[OF all, symmetric] each show ?thesis by blast
qed

definition raw_extrinsic :: "string \<Rightarrow> string \<Rightarrow> unit ScaleExtrinsic" where
  "raw_extrinsic hash module = \<lparr>sx_ExtrinsicLength = 0, sx_ExtrinsicHash = hash, sx_VersionInfo = [],
     sx_ContainsTransaction = True, sx_Address = None, sx_Signature = [], sx_SignatureVersion = 0,
     sx_Nonce = 0, sx_Era = [], sx_CallIndex = [], sx_Tip = None, sx_CallModuleName = module,
     sx_CallName = [], sx_Params = []\<rparr>"

definition hashed_transaction :: "string \<Rightarrow> Transaction" where
  "hashed_transaction hash = zero_transaction\<lparr>tx_Hash := hash,
     tx_Events := [\<lparr>te_ID = [], te_Kind = ''Extrinsic'', te_Module = ''timestamp'', te_Type = [], te_Sub = []\<rparr>]\<rparr>"

theorem pairing_ids_witness:
  "\<exists>ws. pair_loop ''polkadot'' ''mainnet'' 7 [raw_extrinsic ''aa'' ''Timestamp'', raw_extrinsic ''bb'' ''Balances'']
      0 [hashed_transaction ''0xbb'', hashed_transaction ''0xaa''] = Ret ws \<and>
    set (event_ids (ws ! 0)) \<inter> set (event_ids (ws ! 1)) = {}"
  using pairing_ids[of "[raw_extrinsic ''aa'' ''Timestamp'', raw_extrinsic ''bb'' ''Balances'']"
      "[hashed_transaction ''0xbb'', hashed_transaction ''0xaa'']" "''polkadot''" "''mainnet''" 7]
  by (auto simp: raw_extrinsic_def hashed_transaction_def less_Suc_eq)

text \<open>
  A transaction whose hash matches no raw extrinsic is given its own position as id, on the
  extrinsic events of the module found at that position; past the last raw extrinsic its entry
  of the result is the zero value, so the transaction is lost without an error.
\<close>

theorem unmatched_transaction:
  assumes "2 \<le> length (tx_Hash t)" and "drop 2 (tx_Hash t) \<notin> sx_ExtrinsicHash ` set txs"
  shows "pair_transaction network chainID height txs k t =
    Ret (if k < length txs then with_meta network chainID (set_candidate_ids height k (txs ! k) t)
         else zero_twm)"
  using find_extrinsic_missing[OF assms] by (auto simp: pair_transaction_def)

theorem unmatched_transaction_witness:
  "pair_transaction ''polkadot'' ''mainnet'' 7 [raw_extrinsic ''aa'' ''Timestamp''] 1
     (hashed_transaction ''0xcc'') = Ret zero_twm"
  by (subst unmatched_transaction) (simp_all add: raw_extrinsic_def hashed_transaction_def)

section \<open>The whole path of a block\<close>

lemma wrap_err_Ret: "m s = (Ret x, s') \<Longrightarrow> wrap_err f m s = (Ret x, s')"
  by (simp add: wrap_err_def)

lemma andthen_wrap: "m s = (Ret x, s') \<Longrightarrow> andthen (wrap_err e m) f s = f x s'"
  by (simp add: andthen_def wrap_err_def)

text \<open>What a node knows of a height: the hashes, and the data of the seven replies.\<close>

record node_data =
  nd_hash :: string
  nd_parent :: string
  nd_grandparent :: string
  nd_chain :: string
  nd_block :: string
  nd_time :: string
  nd_events :: string
  nd_fee :: string
  nd_era :: string
  nd_runtime :: string

definition node_hashes :: "node_data \<Rightarrow> Response list" where
  "node_hashes D = [hash_resp RequestBlockHash (nd_hash D), hash_resp RequestParentBlockHash (nd_parent D),
     hash_resp RequestGrandparentBlockHash (nd_grandparent D)]"

definition node_others :: "node_data \<Rightarrow> Response list" where
  "node_others D = other_replies (nd_chain D) (nd_block D) (nd_time D) (nd_events D) (nd_fee D)
     (nd_era D) (nd_runtime D)"

definition node_block :: "codecs \<Rightarrow> node_data \<Rightarrow> PolkaBlock" where
  "node_block C D = snd (cd_block C (CHR ''{'' # nd_block D @ ''}'') zero_block)"

definition node_runtime :: "codecs \<Rightarrow> node_data \<Rightarrow> PolkaRuntimeVersion" where
  "node_runtime C D = snd (cd_runtime C (CHR ''{'' # nd_runtime D @ ''}'') zero_runtime)"

definition decode_request :: "node_data \<Rightarrow> string \<Rightarrow> DecodeDataRequest" where
  "decode_request D metadata = \<lparr>ddr_Block = bytes_of (nd_block D), ddr_Chain = nd_chain D,
     ddr_BlockHash = nd_hash D, ddr_Events = bytes_of (nd_events D),
     ddr_Timestamp = bytes_of (nd_time D), ddr_MetadataParent = bytes_of metadata,
     ddr_RuntimeParent = bytes_of (nd_runtime D), ddr_CurrentEra = bytes_of (nd_era D),
     ddr_NextFeeMultipier = bytes_of (nd_fee D)\<rparr>"

text \<open>
  The node answers the requests for an uncached height above 1: the replies to the three requests
  for hashes, then the replies to the seven for data, each group in any order, then \<open>rest\<close>. The
  cache is \<open>c'\<close> after the lookups.
\<close>

definition node_answers :: "('d, 'v, 'c) env \<Rightarrow> u64 \<Rightarrow> node_data \<Rightarrow> 'c \<Rightarrow> Response list \<Rightarrow> 'c io \<Rightarrow> bool" where
  "node_answers E height D c' rest s \<longleftrightarrow> 1 < height \<and> io_sends s = [] \<and>
     cold (en_lru E) height (io_cache s) c' \<and>
     (\<exists>rs os. mset rs = mset (node_hashes D) \<and> mset os = mset (node_others D) \<and>
        decodes (en_codecs E) os \<and> io_inbox s = rs @ os @ rest)"

text \<open>The decoder of the block's runtime is stored, and it reads the extrinsics \<open>txs\<close> of the block.\<close>

definition known_runtime :: "('d, 'v, 'c) env \<Rightarrow> node_data \<Rightarrow> 'd DecodeStorage \<Rightarrow> 'd MDecoder \<Rightarrow>
    'v ScaleExtrinsic list \<Rightarrow> bool" where
  "known_runtime E D ds meta txs \<longleftrightarrow>
     (let R = node_runtime (en_codecs E) D in
      ds_SpecName ds = prv_SpecName R \<and> decoder_of (prv_SpecVersion R) ds = Some meta \<and>
      GetTransactionsForHeight (en_decode E) (node_block (en_codecs E) D) meta
        (sint (prv_SpecVersion R)) = (txs, None))"

definition after_block :: "('d, 'v, 'c) env \<Rightarrow> u64 \<Rightarrow> node_data \<Rightarrow> 'c \<Rightarrow> Response list \<Rightarrow> 'c io \<Rightarrow> 'c io" where
  "after_block E height D c' rest s =
     s\<lparr>io_inbox := rest,
       io_log := io_log s @ hash_calls height @ other_calls (nd_hash D) (nd_parent D) (nd_grandparent D),
       io_cache := lru_Add (en_lru E) height (nd_hash D) c'\<rparr>"

lemma blockAndTx_run:
  assumes "node_answers E height D c' rest s" and "known_runtime E D ds meta txs"
    and "en_proxy E (decode_request D (md_Bytes meta)) height = Ret resp"
  shows "blockAndTx E height ds s =
    (fmap_go (\<lambda>out. (out, ds)) (block_transactions E txs resp), after_block E height D c' rest s)"
proof -
  let ?b = "nd_hash D" and ?p = "nd_parent D" and ?g = "nd_grandparent D"
  let ?C = "en_codecs E" and ?s2 = "after_block E height D c' rest s"
  let ?B = "node_block ?C D" and ?R = "node_runtime ?C D"
  from assms(1) obtain rs os where h: "1 < height" "io_sends s = []"
    and cold: "cold (en_lru E) height (io_cache s) c'" and rs: "mset rs = mset (node_hashes D)"
    and os: "mset os = mset (node_others D)" and dec: "decodes ?C os" and inb: "io_inbox s = rs @ os @ rest"
    by (auto simp: node_answers_def)
  let ?s1 = "s\<lparr>io_inbox := os @ rest, io_log := io_log s @ hash_calls height,
      io_cache := lru_Add (en_lru E) height ?b c'\<rparr>"
  have h0: "height \<noteq> 0" using h(1) by (auto simp: word_less_def)
  have 1: "GetBlockHashes (en_lru E) height s = (Ret (?b, ?p, ?g), ?s1)"
    by (rule GetBlockHashes_run[OF h(1) cold h(2)]) (use rs inb in \<open>simp_all add: node_hashes_def\<close>)
  have 2: "getOthers ?C ?b ?p ?g ?s1 =
      (Ret ((decode_request D [])\<lparr>ddr_BlockHash := [], ddr_MetadataParent := []\<rparr>, ?B, ?R), ?s2)"
    by (subst getOthers_order[OF _ dec os[unfolded node_others_def]])
      (simp_all add: h decode_request_def node_block_def node_runtime_def after_block_def, cases s, simp)
  from assms(2) have k: "ds_SpecName ds = prv_SpecName ?R" "decoder_of (prv_SpecVersion ?R) ds = Some meta"
    and txs: "GetTransactionsForHeight (en_decode E) ?B meta (sint (prv_SpecVersion ?R)) = (txs, None)"
    by (simp_all add: known_runtime_def Let_def)
  have 3: "GetMetadata (en_process E) ?g (prv_SpecName ?R) (prv_SpecVersion ?R) ds ?s2 = (Ret (meta, ds), ?s2)"
    by (rule GetMetadata_hit[OF k])
  have 4: "en_proxy E ((decode_request D [])\<lparr>ddr_BlockHash := ?b, ddr_MetadataParent := bytes_of (md_Bytes meta)\<rparr>)
      height = Ret resp" using assms(3) by (simp add: decode_request_def)
  show ?thesis
    unfolding blockAndTx_def
    by (simp add: h0 txs 4 andthen_wrap[where m = "GetBlockHashes (en_lru E) height", OF 1]
        andthen_wrap[where m = "getOthers ?C ?b ?p ?g", OF 2]
        andthen_wrap[where m = "GetMetadata (en_process E) ?g (prv_SpecName ?R) (prv_SpecVersion ?R) ds", OF 3])
      (simp add: andthen_def lift_go_def ret_def split: go.split)
qed

text \<open>
  For an uncached height above 1, when the node answers the three hash requests and then the
  seven data requests, each group in any order, and the decoder of the runtime is stored,
  \<open>blockAndTx\<close> sends exactly these ten requests, hands the proxy exactly the data of the replies
  with the block hash and the metadata, returns what the mappers and the pairing make of the
  proxy's answer, and leaves in the channel only what came after the ten replies.
\<close>

theorem blockAndTx_path:
  assumes "node_answers E height D c' rest s" and "known_runtime E D ds meta txs"
    and "en_proxy E \<lparr>ddr_Block = bytes_of (nd_block D), ddr_Chain = nd_chain D, ddr_BlockHash = nd_hash D,
           ddr_Events = bytes_of (nd_events D), ddr_Timestamp = bytes_of (nd_time D),
           ddr_MetadataParent = bytes_of (md_Bytes meta), ddr_RuntimeParent = bytes_of (nd_runtime D),
           ddr_CurrentEra = bytes_of (nd_era D), ddr_NextFeeMultipier = bytes_of (nd_fee D)\<rparr> height = Ret resp"
  shows "blockAndTx E height ds s =
    (fmap_go (\<lambda>out. (out, ds)) (block_transactions E txs resp),
     s\<lparr>io_inbox := rest,
       io_log := io_log s @ hash_calls height @ other_calls (nd_hash D) (nd_parent D) (nd_grandparent D),
       io_cache := lru_Add (en_lru E) height (nd_hash D) c'\<rparr>)"
  using blockAndTx_run[OF assms(1,2), of resp] assms(3) by (simp add: decode_request_def after_block_def)

definition empty_block :: BlockResponse where
  "empty_block = \<lparr>br_Block = Some \<lparr>blk_BlockHash = ''b'',
     blk_Header = Some \<lparr>hd_Height = 9, hd_Time = (0, 0)\<rparr>, blk_Extrinsics = []\<rparr>\<rparr>"

definition sample_env :: "(unit, unit, u64 \<rightharpoonup> string) env" where
  "sample_env = \<lparr>en_network = ''polkadot'', en_chainID = ''mainnet'', en_mapper = dot_mapper,
     en_proxy = (\<lambda>ddr h. if ddr_BlockHash ddr = ''b'' \<and> h = 9
       then Ret \<lparr>dr_Block = Some empty_block, dr_Epoch = ''e''\<rparr> else Fail (Errors_New ''x'')),
     en_header = (\<lambda>s. (None, \<lparr>bh_Number = s\<rparr>)), en_undef = (\<lambda>s. 0), en_lru = map_cache,
     en_codecs = plain_codecs, en_process = (\<lambda>m. Returns (Inr ())),
     en_decode = (\<lambda>x d v. PanicsWith PVOther)\<rparr>"

definition sample_store :: "unit DecodeStorage" where
  "sample_store = \<lparr>ds_SpecName = [],
     ds_decoders = [0 \<mapsto> \<lparr>md_Decoder = (), md_Spec = 0, md_Bytes = ''m''\<rparr>], ds_registered = []\<rparr>"

definition sample_data :: node_data where
  "sample_data = \<lparr>nd_hash = ''b'', nd_parent = ''p'', nd_grandparent = ''g'', nd_chain = ''c'',
     nd_block = ''k'', nd_time = ''t'', nd_events = ''e'', nd_fee = ''f'', nd_era = ''r'', nd_runtime = ''v''\<rparr>"

lemma map_cache_cold: "cold map_cache height Map.empty Map.empty"
  by (simp add: cold_def map_cache_def)

text \<open>A node whose replies all come in the reverse order, to a worker with an empty cache.\<close>

lemma sample_answers:
  assumes "1 < height" and "en_lru E = map_cache" and "\<And>rs. decodes (en_codecs E) rs"
  shows "node_answers E height D Map.empty [] (io_with Map.empty (rev (node_hashes D) @ rev (node_others D)))"
  unfolding node_answers_def using assms
  by (intro conjI exI[of _ "rev (node_hashes D)"] exI[of _ "rev (node_others D)"])
    (simp_all add: io_with_def map_cache_cold)

lemma sample_known:
  "known_runtime sample_env sample_data sample_store \<lparr>md_Decoder = (), md_Spec = 0, md_Bytes = ''m''\<rparr> []"
  by (simp add: known_runtime_def sample_env_def sample_store_def plain_codecs_def zero_runtime_def
        zero_block_def GetTransactionsForHeight_def node_runtime_def node_block_def decoder_of_def)

theorem blockAndTx_path_witness:
  "\<exists>out s'. blockAndTx sample_env 9 sample_store
      (io_with Map.empty (rev (node_hashes sample_data) @ rev (node_others sample_data))) =
        (Ret (out, sample_store), s') \<and>
    b_Height (bwm_Block (fst out)) = 9 \<and> snd out = [] \<and> io_inbox s' = []"
proof -
  let ?resp = "\<lparr>dr_Block = Some empty_block, dr_Epoch = ''e''\<rparr>"
  have ans: "node_answers sample_env 9 sample_data Map.empty []
      (io_with Map.empty (rev (node_hashes sample_data) @ rev (node_others sample_data)))"
    by (rule sample_answers) (simp_all add: sample_env_def word_less_def plain_decodes)
  note known = sample_known
  have "block_transactions sample_env [] ?resp =
      Ret (\<lparr>bwm_Network = ''polkadot'', bwm_ChainID = ''mainnet'', bwm_Version = ''0.0.1'',
        bwm_Block = \<lparr>b_ChainID = ''mainnet'', b_Epoch = ''e'', b_Hash = ''b'', b_Height = 9,
          b_NumberOfTransactions = 0, b_Time = (0, 0)\<rparr>\<rparr>, [])"
    by (simp add: block_transactions_def sample_env_def empty_block_def BlockMapper_def deref_def)
  with blockAndTx_path[OF ans known, of ?resp] show ?thesis
    by (simp add: sample_env_def sample_data_def)
qed

end
