(* ===== verification/Account.thy ===== *)
theory Account
  imports Block_Contents Ss58_Address Chan_Pool
begin

section \<open>Account balances read from a node (indexer/account.go)\<close>

text \<open>
  \<open>GetAccount\<close> reads the storage of an account at a height over a channel taken from the pool.
  Each way out either puts the channel back or, when the node is too slow, leaves it to a
  clean-up goroutine; the model logs which (\<open>chan_fate\<close>). The arguments \<open>slow1\<close> and
  \<open>slow2\<close> say whether the 30 seconds of the two waits run out first; with no response left in
  the channel they always do. SCALE decoding is a parameter; its dynamically typed result is a
  tree of type \<open>dyn\<close>.
\<close>

definition ErrTimeout :: goerror where
  "ErrTimeout = Errors_New ''timeout after 30 seconds''"

datatype chan_fate = PutBack | CleanupStarted

text \<open>Decoded values: \<open>uint32\<close>, \<open>decimal.Decimal\<close> (its \<open>String()\<close>), a map, another type.\<close>

datatype dyn = DUint32 u32 | DDecimal string | DMap "(string \<times> dyn) list" | DOther

text \<open>The two-value type assertions; a missing key gives nil, which has none of the types.\<close>

definition as_uint32 :: "string \<Rightarrow> dyn option \<Rightarrow> u32 go" where
  "as_uint32 what v = (case v of Some (DUint32 n) \<Rightarrow> Ret n | _ \<Rightarrow> Fail (Errors_New (''error decoding '' @ what)))"

definition as_decimal :: "string \<Rightarrow> dyn option \<Rightarrow> string go" where
  "as_decimal what v = (case v of Some (DDecimal d) \<Rightarrow> Ret d | _ \<Rightarrow> Fail (Errors_New (''error decoding '' @ what)))"

definition as_map :: "string \<Rightarrow> dyn option \<Rightarrow> (string \<times> dyn) list go" where
  "as_map what v = (case v of Some (DMap m) \<Rightarrow> Ret m | _ \<Rightarrow> Fail (Errors_New (''error decoding '' @ what)))"

text \<open>From \<open>as := sd.ProcessAndUpdateData("AccountInfo")\<close> on; the first assertion has one value.\<close>

definition decode_account :: "dyn \<Rightarrow> PolkaAccountInfo go" where
  "decode_account as =
     (case as of
        DMap infm \<Rightarrow>
          bind_go (as_uint32 ''nonce'' (map_of infm ''nonce'')) (\<lambda>nonce.
          bind_go (as_uint32 ''consumers'' (map_of infm ''consumers'')) (\<lambda>consumers.
          bind_go (as_uint32 ''providers'' (map_of infm ''providers'')) (\<lambda>providers.
          bind_go (as_map ''data'' (map_of infm ''data'')) (\<lambda>infm2.
          bind_go (as_decimal ''free'' (map_of infm2 ''free'')) (\<lambda>free.
          bind_go (as_decimal ''reserved'' (map_of infm2 ''reserved'')) (\<lambda>reserved.
          bind_go (as_decimal ''misc frozen'' (map_of infm2 ''miscFrozen'')) (\<lambda>miscFrozen.
          bind_go (as_decimal ''fee frozen'' (map_of infm2 ''feeFrozen'')) (\<lambda>feeFrozen.
            Ret \<lparr>pai_Nonce = nonce, pai_Consumers = consumers, pai_Providers = providers,
                 pai_Data = \<lparr>pad_Free = free, pad_Reserved = reserved, pad_MiscFrozen = miscFrozen,
                             pad_FeeFrozen = feeFrozen\<rparr>\<rparr>))))))))
      | _ \<Rightarrow> Panic FailedTypeAssertion)"

text \<open>\<open>select\<close> over the channel and a timer of 30 seconds.\<close>

definition wait30 :: "bool \<Rightarrow> (Response option, 'c) act" where
  "wait30 slow s =
     (if slow then (Ret None, s)
      else case io_inbox s of
             [] \<Rightarrow> (Ret None, s)
           | r # rest \<Rightarrow> (Ret (Some r), s\<lparr>io_inbox := rest\<rparr>))"

record ('d, 'c) acc_env =
  ae_libs :: address_libs
  ae_header :: "string \<Rightarrow> goerror option \<times> BlockHeader"
  ae_undef :: "string \<Rightarrow> int"
  ae_lru :: "'c lru"
  ae_runtime :: "string \<Rightarrow> PolkaRuntimeVersion \<Rightarrow> goerror option \<times> PolkaRuntimeVersion"
  ae_process :: "string \<Rightarrow> (goerror + 'd) lib"
  ae_scale :: "string \<Rightarrow> 'd \<Rightarrow> int \<Rightarrow> dyn lib"

type_synonym ('a, 'c) fact = "'c io \<Rightarrow> 'a go \<times> chan_fate list \<times> 'c io"

definition no_fate :: "'a go \<Rightarrow> ('a, 'c) fact" where
  "no_fate r s = (r, [], s)"

definition with_fate :: "chan_fate \<Rightarrow> 'a go \<Rightarrow> ('a, 'c) fact" where
  "with_fate f r s = (r, [f], s)"

text \<open>Run an action; \<open>f e\<close> is the way out on its error.\<close>

definition or_else :: "('a, 'c) act \<Rightarrow> (goerror \<Rightarrow> ('b, 'c) fact) \<Rightarrow> ('a \<Rightarrow> ('b, 'c) fact) \<Rightarrow> ('b, 'c) fact" where
  "or_else m err f s =
     (case m s of
        (Ret x, s') \<Rightarrow> f x s'
      | (Fail e, s') \<Rightarrow> err e s'
      | (Panic p, s') \<Rightarrow> (Panic p, [], s')
      | (Blocked, s') \<Rightarrow> (Blocked, [], s'))"

definition lib_panic :: "panic_value \<Rightarrow> gopanic" where
  "lib_panic r = ExternalPanic (case r of PVString s \<Rightarrow> s | _ \<Rightarrow> [])"

text \<open>What is made of the response with the account's storage.\<close>

definition account_reply :: "('d, 'c) acc_env \<Rightarrow> 'd MDecoder \<Rightarrow> int \<Rightarrow> Response \<Rightarrow> PolkaAccountInfo go" where
  "account_reply E meta specVer resp =
     (case rp_Error resp of
        Some e \<Rightarrow> Fail (Errorf ''response from ws is wrong: %s '' [AErr e])
      | None \<Rightarrow>
          if rp_Type resp \<noteq> ''state_getStorage'' then Fail (Errors_New ''wrong data returned'')
          else if rp_Result resp = [] then Fail (Errors_New ''response from ws is empty'')
          else
            bind_go (cut_quotes (rp_Result resp)) (\<lambda>respData.
              case ae_scale E respData (md_Decoder meta) specVer of
                PanicsWith p \<Rightarrow> Panic (lib_panic p)
              | Returns d \<Rightarrow> decode_account d))"

definition getAccountData :: "('d, 'c) acc_env \<Rightarrow> bool \<Rightarrow> 'd MDecoder \<Rightarrow> int \<Rightarrow> string \<Rightarrow> string \<Rightarrow>
    (PolkaAccountInfo, 'c) fact" where
  "getAccountData E slow meta specVer blockHash accountID =
     or_else (lift_go (AccountRequest (ae_libs E) accountID)) (\<lambda>e. no_fate (Fail e)) (\<lambda>(aReq, err).
       if err \<noteq> None then no_fate (Ret zero_account)
       else
     or_else (send_rpc RequestSystemAccount ''state_getStorage'' (Some [PStr aReq, PStr blockHash]))
       (\<lambda>e. no_fate (Fail e)) (\<lambda>_.
     or_else (wait30 slow) (\<lambda>e. no_fate (Fail e)) (\<lambda>r.
       case r of
         None \<Rightarrow> with_fate CleanupStarted (Fail ErrTimeout)
       | Some resp \<Rightarrow> no_fate (account_reply E meta specVer resp))))"

text \<open>The wait for the runtime version: its way out is taken with the channel put back.\<close>

definition runtime_reply :: "('d, 'c) acc_env \<Rightarrow> Response \<Rightarrow> PolkaRuntimeVersion go" where
  "runtime_reply E resp =
     (case rp_Error resp of
        Some e \<Rightarrow> Fail (Errorf ''response from ws is wrong: %s '' [AErr e])
      | None \<Rightarrow>
          if rp_Type resp \<noteq> ''state_getRuntimeVersion'' then Fail (Errors_New ''wrong data returned'')
          else if rp_Result resp = [] then Fail (Errors_New ''response from ws is empty'')
          else (case ae_runtime E (rp_Result resp) zero_runtime of
                  (Some err, _) \<Rightarrow> Fail (Wrapf ''error unmarshaling state_getRuntimeVersion: %w'' [] err)
                | (None, prm) \<Rightarrow> Ret prm))"

text \<open>The last step: after \<open>getAccountData\<close> the channel goes back unless it timed out.\<close>

definition put_unless_timeout :: "'a go \<times> chan_fate list \<times> 'c io \<Rightarrow> 'a go \<times> chan_fate list \<times> 'c io" where
  "put_unless_timeout x =
     (case x of (r, fates, s) \<Rightarrow>
        (r, (case r of
               Ret _ \<Rightarrow> fates @ [PutBack]
             | Fail e \<Rightarrow> if errors_Is e ErrTimeout then fates else fates @ [PutBack]
             | _ \<Rightarrow> fates), s))"

text \<open>From the reply with the runtime version on.\<close>

definition account_with_runtime :: "('d, 'c) acc_env \<Rightarrow> bool \<Rightarrow> string \<Rightarrow> string \<Rightarrow> 'd DecodeStorage \<Rightarrow>
    Response \<Rightarrow> (PolkaAccountInfo, 'c) fact" where
  "account_with_runtime E slow blH accountID ds resp =
     or_else (lift_go (runtime_reply E resp)) (\<lambda>e. with_fate PutBack (Fail e)) (\<lambda>prm.
     or_else (GetMetadata (ae_process E) blH (prv_SpecName prm) (prv_SpecVersion prm) ds)
       (\<lambda>e. with_fate PutBack (Fail (Wrapf ''error while getting metadata: %w'' [] e))) (\<lambda>(meta, ds') s.
       put_unless_timeout (getAccountData E slow meta (sint (prv_SpecVersion prm)) blH accountID s)))"

definition account_at :: "('d, 'c) acc_env \<Rightarrow> bool \<Rightarrow> bool \<Rightarrow> string \<Rightarrow> string \<Rightarrow> 'd DecodeStorage \<Rightarrow>
    (PolkaAccountInfo, 'c) fact" where
  "account_at E slow1 slow2 blH accountID ds =
     or_else (send_rpc RequestParentRuntimeVersion ''state_getRuntimeVersion'' (Some [PStr blH]))
       (\<lambda>e. with_fate PutBack (Fail e)) (\<lambda>_.
     or_else (wait30 slow1) (\<lambda>e. no_fate (Fail e)) (\<lambda>r.
       case r of
         None \<Rightarrow> with_fate CleanupStarted (Fail ErrTimeout)
       | Some resp \<Rightarrow> account_with_runtime E slow2 blH accountID ds resp))"

definition GetAccount :: "('d, 'c) acc_env \<Rightarrow> bool \<Rightarrow> bool \<Rightarrow> u64 \<Rightarrow> string \<Rightarrow> 'd DecodeStorage \<Rightarrow>
    (PolkaAccountInfo, 'c) fact" where
  "GetAccount E slow1 slow2 height accountID ds =
     or_else (if height = 0 then getLatestHeight (ae_header E) (ae_undef E) (ae_lru E) else ret height)
       (\<lambda>e. with_fate PutBack (Fail (Wrapf ''error getting latest height : %w'' [] e))) (\<lambda>height.
     or_else (GetBlockHashes (ae_lru E) height)
       (\<lambda>e. with_fate PutBack (Fail (Wrapf ''error unmarshaling block data: %w'' [] e))) (\<lambda>(blH, _, _).
     account_at E slow1 slow2 blH accountID ds))"

text \<open>
  The clean-up: it takes up to \<open>num\<close> late responses out of the channel, then closes it; a panic
  (the channel was closed already) is recovered. What arrives within its ten minutes is taken to be
  in the channel when it starts.
\<close>

definition cleanupTimeoutedCh :: "nat \<Rightarrow> nat \<Rightarrow> 'a chheap \<Rightarrow> 'a chheap" where
  "cleanupTimeoutedCh num r h =
     (case cells h r of
        None \<Rightarrow> h
      | Some c \<Rightarrow>
          (let h = h\<lparr>cells := (cells h)(r \<mapsto> c\<lparr>ch_buf := drop num (ch_buf c)\<rparr>)\<rparr>
           in case close_chan (Some r) h of Ret h' \<Rightarrow> h' | _ \<Rightarrow> h))"

section \<open>The way to the account's storage\<close>

lemma or_else_Ret: "m s = (Ret x, s') \<Longrightarrow> or_else m err f s = f x s'"
  by (simp add: or_else_def)

lemma wait30_reply: "io_inbox s = r # rest \<Longrightarrow> or_else (wait30 False) err f s = f (Some r) (s\<lparr>io_inbox := rest\<rparr>)"
  by (simp add: or_else_def wait30_def)

lemma or_else_send: "io_sends s = [] \<Longrightarrow>
    or_else (send_rpc rid m ps) err f s = f () (s\<lparr>io_log := io_log s @ [(rid, m, ps)]\<rparr>)"
  by (simp add: or_else_def send_rpc_def)

text \<open>
  For an uncached height above 1 the node answers with the hashes, in any order, and with the
  runtime version \<open>R\<close>, whose decoder \<open>meta\<close> is stored; then comes \<open>rest\<close>.
\<close>

definition runtime_answered :: "('d, 'c) acc_env \<Rightarrow> u64 \<Rightarrow> string \<Rightarrow> PolkaRuntimeVersion \<Rightarrow> 'd MDecoder \<Rightarrow>
    'c \<Rightarrow> 'd DecodeStorage \<Rightarrow> Response list \<Rightarrow> 'c io \<Rightarrow> bool" where
  "runtime_answered E height b R meta c' ds rest s \<longleftrightarrow> 1 < height \<and> io_sends s = [] \<and>
     cold (ae_lru E) height (io_cache s) c' \<and> ds_SpecName ds = prv_SpecName R \<and>
     decoder_of (prv_SpecVersion R) ds = Some meta \<and>
     (\<exists>rs p g i v. mset rs = {#hash_resp RequestBlockHash b, hash_resp RequestParentBlockHash p,
          hash_resp RequestGrandparentBlockHash g#} \<and>
        io_inbox s = rs @ reply i ''state_getRuntimeVersion'' v # rest \<and> v \<noteq> [] \<and>
        ae_runtime E v zero_runtime = (None, R))"

definition after_runtime :: "('d, 'c) acc_env \<Rightarrow> u64 \<Rightarrow> string \<Rightarrow> 'c \<Rightarrow> Response list \<Rightarrow> 'c io \<Rightarrow> 'c io" where
  "after_runtime E height b c' rest s =
     s\<lparr>io_inbox := rest,
       io_log := io_log s @ hash_calls height @
         [(RequestParentRuntimeVersion, ''state_getRuntimeVersion'', Some [PStr b])],
       io_cache := lru_Add (ae_lru E) height b c'\<rparr>"

lemma GetAccount_reaches_data:
  assumes "runtime_answered E height b R meta c' ds rest s"
  shows "GetAccount E False slow2 height a ds s = put_unless_timeout
    (getAccountData E slow2 meta (sint (prv_SpecVersion R)) b a (after_runtime E height b c' rest s))"
proof -
  from assms obtain rs p g i v where h: "1 < height" "cold (ae_lru E) height (io_cache s) c'" "io_sends s = []"
      "mset rs = {#hash_resp RequestBlockHash b, hash_resp RequestParentBlockHash p,
          hash_resp RequestGrandparentBlockHash g#}"
      "io_inbox s = rs @ reply i ''state_getRuntimeVersion'' v # rest"
    and k: "ds_SpecName ds = prv_SpecName R" "decoder_of (prv_SpecVersion R) ds = Some meta"
    and v: "v \<noteq> []" "ae_runtime E v zero_runtime = (None, R)"
    by (auto simp: runtime_answered_def)
  let ?s1 = "s\<lparr>io_inbox := reply i ''state_getRuntimeVersion'' v # rest, io_log := io_log s @ hash_calls height,
      io_cache := lru_Add (ae_lru E) height b c'\<rparr>"
  have h0: "height \<noteq> 0" using h(1) by (auto simp: word_less_def)
  have 1: "GetBlockHashes (ae_lru E) height s = (Ret (b, p, g), ?s1)"
    by (rule GetBlockHashes_run[OF h])
  have 2: "runtime_reply E (reply i ''state_getRuntimeVersion'' v) = Ret R"
    using v by (simp add: runtime_reply_def reply_def)
  have 3: "GetMetadata (ae_process E) b (prv_SpecName R) (prv_SpecVersion R) ds t = (Ret (meta, ds), t)" for t
    by (rule GetMetadata_hit[OF k])
  have 4: "account_at E False slow2 b a ds ?s1 = put_unless_timeout
      (getAccountData E slow2 meta (sint (prv_SpecVersion R)) b a (after_runtime E height b c' rest s))"
    unfolding account_at_def
    by (simp add: or_else_send h(3) wait30_reply account_with_runtime_def or_else_Ret[where m = "lift_go (Ret R)"]
        lift_go_def 2 or_else_Ret[where m = "GetMetadata (ae_process E) b (prv_SpecName R) (prv_SpecVersion R) ds", OF 3]
        after_runtime_def, cases s, simp)
  show ?thesis unfolding GetAccount_def
    by (simp add: h0 or_else_Ret[where m = "ret height"] ret_def
        or_else_Ret[where m = "GetBlockHashes (ae_lru E) height", OF 1] 4)
qed

text \<open>With the storage answered too, the account is what the reply decodes to.\<close>

lemma GetAccount_run:
  assumes "runtime_answered E height b R meta c' ds (reply i ''state_getStorage'' (quoted t) # rest) s"
    and "AccountRequest (ae_libs E) a = Ret (key, None)"
    and "ae_scale E t (md_Decoder meta) (sint (prv_SpecVersion R)) = Returns d" and "decode_account d = Ret pai"
  shows "GetAccount E False False height a ds s = (Ret pai, [PutBack],
    s\<lparr>io_inbox := rest,
      io_log := io_log s @ hash_calls height @
        [(RequestParentRuntimeVersion, ''state_getRuntimeVersion'', Some [PStr b]),
         (RequestSystemAccount, ''state_getStorage'', Some [PStr key, PStr b])],
      io_cache := lru_Add (ae_lru E) height b c'\<rparr>)"
proof -
  let ?s = "after_runtime E height b c' (reply i ''state_getStorage'' (quoted t) # rest) s"
  have "io_sends ?s = []" using assms(1) by (simp add: runtime_answered_def after_runtime_def)
  then have "getAccountData E False meta (sint (prv_SpecVersion R)) b a ?s =
      (Ret pai, [], ?s\<lparr>io_inbox := rest, io_log := io_log ?s @
         [(RequestSystemAccount, ''state_getStorage'', Some [PStr key, PStr b])]\<rparr>)"
    unfolding getAccountData_def
    by (simp add: or_else_Ret[where m = "lift_go (Ret (key, None))"] lift_go_def assms(2) or_else_send)
      (simp add: or_else_def wait30_def after_runtime_def account_reply_def reply_def quoted_def
        cut_quotes_quoted[unfolded quoted_def] assms(3,4) no_fate_def)
  then show ?thesis
    by (simp add: GetAccount_reaches_data[OF assms(1)] put_unless_timeout_def after_runtime_def)
qed

section \<open>Every channel is disposed of once\<close>

text \<open>Actions that only consume the outcomes of sends.\<close>

definition keeps_sends :: "('a, 'c) act \<Rightarrow> bool" where
  "keeps_sends m \<longleftrightarrow> (\<forall>s. set (io_sends (snd (m s))) \<subseteq> set (io_sends s))"

named_theorems keeps \<open>actions that only consume the outcomes of sends\<close>

lemma keeps_ret [keeps]: "keeps_sends (ret x)" by (simp add: keeps_sends_def ret_def)
lemma keeps_fail [keeps]: "keeps_sends (fail e)" by (simp add: keeps_sends_def fail_def)
lemma keeps_lift [keeps]: "keeps_sends (lift_go r)" by (simp add: keeps_sends_def lift_go_def)
lemma keeps_receive [keeps]: "keeps_sends receive"
  by (auto simp: keeps_sends_def receive_def split: list.split)
lemma keeps_add [keeps]: "keeps_sends (cache_add L k v)" by (simp add: keeps_sends_def cache_add_def)
lemma keeps_get [keeps]: "keeps_sends (cache_get L k)"
  by (simp add: keeps_sends_def cache_get_def split: prod.split)
lemma keeps_send [keeps]: "keeps_sends (send_rpc rid m ps)"
  by (auto simp: keeps_sends_def send_rpc_def split: list.split option.split)
lemma keeps_wait [keeps]: "keeps_sends (wait30 slow)"
  by (auto simp: keeps_sends_def wait30_def split: list.split)

lemma keeps_andthen [keeps]:
  "keeps_sends m \<Longrightarrow> (\<And>x. keeps_sends (f x)) \<Longrightarrow> keeps_sends (andthen m f)"
  unfolding keeps_sends_def
  by (auto simp: andthen_def split: go.split prod.split) (metis subsetD snd_conv)+

lemma keeps_hash_or_ask [keeps]: "keeps_sends (hash_or_ask L key rid num)"
  unfolding hash_or_ask_def by (auto intro!: keeps split: option.split)

lemma keeps_hash_reply [keeps]: "keeps_sends (hash_reply L height r h)"
  unfolding hash_reply_def by (auto intro!: keeps split: option.split)

lemma keeps_hashes_loop [keeps]: "keeps_sends (hashes_loop L height n h)"
  by (induction n arbitrary: h) (auto intro!: keeps)

lemma keeps_GetBlockHashes [keeps]: "keeps_sends (GetBlockHashes L height)"
  unfolding GetBlockHashes_def Let_def
  by (auto intro!: keeps split: prod.split option.split)

lemma keeps_getLatestHeight [keeps]: "keeps_sends (getLatestHeight u d L)"
  unfolding getLatestHeight_def Let_def
  by (auto intro!: keeps split: prod.split option.split)

lemma keeps_GetMetadata [keeps]: "keeps_sends (GetMetadata p bh n v ds)"
  unfolding GetMetadata_def
  by (auto intro!: keeps split: prod.split option.split bool.split)

definition once :: "'a go \<times> chan_fate list \<times> 'c io \<Rightarrow> bool" where
  "once x = (case x of (r, fates, s) \<Rightarrow>
     (case r of
        Ret _ \<Rightarrow> fates = [PutBack]
      | Fail e \<Rightarrow> fates = [PutBack] \<or> fates = [CleanupStarted] \<and> e = ErrTimeout
      | _ \<Rightarrow> fates = []))"

definition data_once :: "'a go \<times> chan_fate list \<times> 'c io \<Rightarrow> bool" where
  "data_once x = (case x of (r, fates, s) \<Rightarrow>
     (case r of
        Fail e \<Rightarrow> if errors_Is e ErrTimeout then fates = [CleanupStarted] \<and> e = ErrTimeout else fates = []
      | _ \<Rightarrow> fates = []))"

lemma or_else_once:
  assumes "\<And>e s'. m s = (Fail e, s') \<Longrightarrow> once (err e s')"
    and "\<And>x s'. m s = (Ret x, s') \<Longrightarrow> once (f x s')"
  shows "once (or_else m err f s)"
  using assms by (auto simp: or_else_def once_def[of "(Panic _, _, _)"] once_def[of "(Blocked, _, _)"]
      split: go.split prod.split)

lemma or_else_data_once:
  assumes "\<And>e s'. m s = (Fail e, s') \<Longrightarrow> data_once (err e s')"
    and "\<And>x s'. m s = (Ret x, s') \<Longrightarrow> data_once (f x s')"
  shows "data_once (or_else m err f s)"
  using assms by (auto simp: or_else_def data_once_def[of "(Panic _, _, _)"]
      data_once_def[of "(Blocked, _, _)"] split: go.split prod.split)

lemma once_PutBack [simp]: "once (with_fate PutBack (Fail e) s)"
  by (simp add: once_def with_fate_def)

lemma once_cleanup [simp]: "once (with_fate CleanupStarted (Fail ErrTimeout) s)"
  by (simp add: once_def with_fate_def)

lemma data_once_cleanup [simp]: "data_once (with_fate CleanupStarted (Fail ErrTimeout) s)"
  by (simp add: data_once_def with_fate_def)

lemma data_once_Ret [simp]: "data_once (no_fate (Ret x) s)" "data_once (no_fate (Panic p) s)"
  by (simp_all add: data_once_def no_fate_def)

lemma data_once_Fail: "\<not> errors_Is e ErrTimeout \<Longrightarrow> data_once (no_fate (Fail e) s)"
  by (simp add: data_once_def no_fate_def)

lemma not_timeout [simp]:
  "\<not> errors_Is (Errorf f xs) ErrTimeout"
  "\<not> errors_Is (Errors_New ''wrong data returned'') ErrTimeout"
  "\<not> errors_Is (Errors_New ''response from ws is empty'') ErrTimeout"
  "\<not> errors_Is (Errors_New (''error decoding '' @ what)) ErrTimeout"
  by (simp_all add: ErrTimeout_def)

lemma as_Fail:
  "as_uint32 what v = Fail e \<Longrightarrow> \<exists>w. e = Errors_New (''error decoding '' @ w)"
  "as_decimal what v = Fail e \<Longrightarrow> \<exists>w. e = Errors_New (''error decoding '' @ w)"
  "as_map what v = Fail e \<Longrightarrow> \<exists>w. e = Errors_New (''error decoding '' @ w)"
  by (auto simp: as_uint32_def as_decimal_def as_map_def split: option.splits dyn.splits)

lemma decode_account_Fail:
  "decode_account d = Fail e \<Longrightarrow> \<exists>w. e = Errors_New (''error decoding '' @ w)"
  by (cases d) (auto simp: decode_account_def bind_go_eq_Fail dest: as_Fail)

lemma decode_account_not_Blocked: "decode_account d \<noteq> Blocked"
proof -
  have b: "bind_go m f = Blocked \<longleftrightarrow> m = Blocked \<or> (\<exists>x. m = Ret x \<and> f x = Blocked)"
    for m :: "'x go" and f :: "'x \<Rightarrow> 'y go" by (cases m) auto
  have "as_uint32 w v \<noteq> Blocked" "as_decimal w v \<noteq> Blocked" "as_map w v \<noteq> Blocked" for w v
    by (simp_all add: as_uint32_def as_decimal_def as_map_def split: option.split dyn.split)
  then show ?thesis by (cases d) (auto simp: decode_account_def b)
qed

lemma account_reply_Fail: "account_reply E meta v resp = Fail e \<Longrightarrow> \<not> errors_Is e ErrTimeout"
  by (auto simp: account_reply_def bind_go_eq_Fail cut_quotes_def go_slice_def ErrTimeout_def
      dest!: decode_account_Fail split: option.splits if_splits lib.splits)

lemma data_once_reply: "data_once (no_fate (account_reply E meta v resp) s)"
proof (cases "account_reply E meta v resp")
  case (Fail e)
  with account_reply_Fail[OF Fail] show ?thesis by (simp add: data_once_Fail)
qed (simp_all add: data_once_def no_fate_def)

lemma AccountRequest_no_Fail: "AccountRequest L a \<noteq> Fail e"
  by (auto simp: AccountRequest_def Let_def bind_go_eq_Fail account_id_def CheckAddress_def
      go_index_def go_slice_def split: prod.splits if_splits)

text \<open>
  No coming \<open>Send\<close> fails with a timeout. The only error of \<open>Send\<close> is that of a closed connection, so
  this holds of every state whose sends are those of the connection.
\<close>

lemma Send_no_timeout: "Send ch rid method params c = (Some e, c') \<Longrightarrow> \<not> errors_Is e ErrTimeout"
  by (auto simp: Send_def ErrConnectionClosed_def ErrTimeout_def split: if_splits)

definition calm :: "'c io \<Rightarrow> bool" where
  "calm s \<longleftrightarrow> (\<forall>e. Some e \<in> set (io_sends s) \<longrightarrow> \<not> errors_Is e ErrTimeout)"

lemma calm_after: "keeps_sends m \<Longrightarrow> m s = (r, s') \<Longrightarrow> calm s \<Longrightarrow> calm s'"
  unfolding keeps_sends_def calm_def by (metis snd_conv subsetD)

lemma wait_data_once: "data_once (or_else (wait30 slow) (\<lambda>e. no_fate (Fail e)) (\<lambda>r.
    case r of
      None \<Rightarrow> with_fate CleanupStarted (Fail ErrTimeout)
    | Some resp \<Rightarrow> no_fate (account_reply E meta v resp)) t)"
proof (rule or_else_data_once)
  fix r t'
  show "data_once ((case r of None \<Rightarrow> with_fate CleanupStarted (Fail ErrTimeout)
      | Some resp \<Rightarrow> no_fate (account_reply E meta v resp)) t')"
    by (cases r) (simp_all add: data_once_reply)
qed (auto simp: wait30_def split: if_splits list.splits)

lemma send_rpc_Fail: "send_rpc rid m ps s = (Fail e, s') \<Longrightarrow> Some e \<in> set (io_sends s)"
  by (auto simp: send_rpc_def split: list.splits option.splits)

lemma getAccountData_once:
  assumes "calm s"
  shows "data_once (getAccountData E slow meta v bh a s)"
  unfolding getAccountData_def
proof (rule or_else_data_once)
  fix q s1
  assume "lift_go (AccountRequest (ae_libs E) a) s = (Ret q, s1)"
  then have s1: "s1 = s" by (simp add: lift_go_def)
  obtain aReq err where q: "q = (aReq, err)" by (cases q)
  show "data_once ((case q of (aReq, err) \<Rightarrow>
       if err \<noteq> None then no_fate (Ret zero_account)
       else or_else (send_rpc RequestSystemAccount ''state_getStorage'' (Some [PStr aReq, PStr bh]))
         (\<lambda>e. no_fate (Fail e)) (\<lambda>_. or_else (wait30 slow) (\<lambda>e. no_fate (Fail e)) (\<lambda>r.
           case r of
             None \<Rightarrow> with_fate CleanupStarted (Fail ErrTimeout)
           | Some resp \<Rightarrow> no_fate (account_reply E meta v resp)))) s1)"
    unfolding q prod.case s1
  proof (cases "err = None")
    case True
    have "data_once (or_else (send_rpc RequestSystemAccount ''state_getStorage'' (Some [PStr aReq, PStr bh]))
         (\<lambda>e. no_fate (Fail e)) (\<lambda>_. or_else (wait30 slow) (\<lambda>e. no_fate (Fail e)) (\<lambda>r.
           case r of
             None \<Rightarrow> with_fate CleanupStarted (Fail ErrTimeout)
           | Some resp \<Rightarrow> no_fate (account_reply E meta v resp))) s)"
      by (rule or_else_data_once) (auto intro!: data_once_Fail wait_data_once dest!: send_rpc_Fail simp: assms[unfolded calm_def])
    with True show "data_once ((if err \<noteq> None then no_fate (Ret zero_account)
       else or_else (send_rpc RequestSystemAccount ''state_getStorage'' (Some [PStr aReq, PStr bh]))
         (\<lambda>e. no_fate (Fail e)) (\<lambda>_. or_else (wait30 slow) (\<lambda>e. no_fate (Fail e)) (\<lambda>r.
           case r of
             None \<Rightarrow> with_fate CleanupStarted (Fail ErrTimeout)
           | Some resp \<Rightarrow> no_fate (account_reply E meta v resp)))) s)" by simp
  qed simp
qed (simp add: lift_go_def AccountRequest_no_Fail)

lemma once_put: "data_once x \<Longrightarrow> once (put_unless_timeout x)"
  by (cases x; cases "fst x") (auto simp: data_once_def once_def put_unless_timeout_def split: if_splits)

lemma once_with_runtime:
  assumes "calm s"
  shows "once (account_with_runtime E slow blH a ds resp s)"
  unfolding account_with_runtime_def
proof (rule or_else_once, simp)
  fix prm s1
  assume 1: "lift_go (runtime_reply E resp) s = (Ret prm, s1)"
  note ok1 = calm_after[OF keeps_lift 1 assms]
  show "once (or_else (GetMetadata (ae_process E) blH (prv_SpecName prm) (prv_SpecVersion prm) ds)
       (\<lambda>e. with_fate PutBack (Fail (Wrapf ''error while getting metadata: %w'' [] e))) (\<lambda>(meta, ds') s.
       put_unless_timeout (getAccountData E slow meta (sint (prv_SpecVersion prm)) blH a s)) s1)"
  proof (rule or_else_once, simp)
    fix md s2
    assume 2: "GetMetadata (ae_process E) blH (prv_SpecName prm) (prv_SpecVersion prm) ds s1 = (Ret md, s2)"
    note ok2 = calm_after[OF keeps_GetMetadata 2 ok1]
    show "once ((case md of (meta, ds') \<Rightarrow> \<lambda>s.
        put_unless_timeout (getAccountData E slow meta (sint (prv_SpecVersion prm)) blH a s)) s2)"
      by (cases md) (simp add: once_put getAccountData_once ok2)
  qed
qed

lemma once_account_at:
  assumes "calm s"
  shows "once (account_at E slow1 slow2 blH a ds s)"
  unfolding account_at_def
proof (rule or_else_once, simp)
  fix u s1
  assume 1: "send_rpc RequestParentRuntimeVersion ''state_getRuntimeVersion'' (Some [PStr blH]) s = (Ret u, s1)"
  note ok1 = calm_after[OF keeps_send 1 assms]
  show "once (or_else (wait30 slow1) (\<lambda>e. no_fate (Fail e)) (\<lambda>r.
       case r of
         None \<Rightarrow> with_fate CleanupStarted (Fail ErrTimeout)
       | Some resp \<Rightarrow> account_with_runtime E slow2 blH a ds resp) s1)"
  proof (rule or_else_once)
    fix r s2
    assume 2: "wait30 slow1 s1 = (Ret r, s2)"
    note ok2 = calm_after[OF keeps_wait 2 ok1]
    show "once ((case r of
         None \<Rightarrow> with_fate CleanupStarted (Fail ErrTimeout)
       | Some resp \<Rightarrow> account_with_runtime E slow2 blH a ds resp) s2)"
      using once_with_runtime[OF ok2] by (cases r) simp_all
  qed (auto simp: wait30_def split: if_splits list.splits)
qed

lemma keeps_latest_or: "keeps_sends (if h = 0 then getLatestHeight u d L else ret h)"
  by (simp add: keeps)

text \<open>
  C14: As long as \<open>Send\<close> itself does not fail with a timeout (it never does, \<open>Send_no_timeout\<close>),
  whenever \<open>GetAccount\<close> returns, with an account or an error, it has disposed of its channel exactly
  once: it is put back into the pool, or, only when a wait of 30 seconds ran out, left to one
  clean-up goroutine, in which case the error is \<open>ErrTimeout\<close>. A run that does not return, because it
  panics or waits for ever, has done neither.
\<close>

theorem GetAccount_disposes_once:
  assumes "calm s"
  shows "case GetAccount E slow1 slow2 height accountID ds s of (r, fates, s') \<Rightarrow>
    (case r of
       Ret _ \<Rightarrow> fates = [PutBack]
     | Fail e \<Rightarrow> fates = [PutBack] \<or> fates = [CleanupStarted] \<and> e = ErrTimeout
     | _ \<Rightarrow> fates = [])"
  unfolding once_def[symmetric] GetAccount_def
proof (rule or_else_once, simp, rule or_else_once, simp)
  fix h s1 hs s2
  assume 1: "(if height = 0 then getLatestHeight (ae_header E) (ae_undef E) (ae_lru E) else ret height) s =
      (Ret h, s1)" and 2: "GetBlockHashes (ae_lru E) h s1 = (Ret hs, s2)"
  note ok1 = calm_after[OF keeps_latest_or 1 assms]
  note ok2 = calm_after[OF keeps_GetBlockHashes 2 ok1]
  show "once ((case hs of (blH, _, _) \<Rightarrow> account_at E slow1 slow2 blH accountID ds) s2)"
    using once_account_at[OF ok2] by (cases hs) simp
qed

definition slow_env :: "(unit, u64 \<rightharpoonup> string) acc_env" where
  "slow_env = \<lparr>ae_libs = sample_libs, ae_header = (\<lambda>s. (None, \<lparr>bh_Number = s\<rparr>)), ae_undef = (\<lambda>s. 0),
     ae_lru = map_cache, ae_runtime = (\<lambda>s p. (None, p)), ae_process = (\<lambda>m. Returns (Inr ())),
     ae_scale = (\<lambda>s d v. Returns DOther)\<rparr>"

lemma slow_env_run:
  "fst (GetAccount slow_env True False 1 ''a'' NewDecodeStorage (io_with [0 \<mapsto> ''p'', 1 \<mapsto> ''b''] [])) =
     Fail ErrTimeout"
  by (simp add: GetAccount_def or_else_def ret_def GetBlockHashes_def hash_or_ask_def cache_get_def
      slow_env_def map_cache_def io_with_def andthen_def account_at_def send_rpc_def wait30_def
      with_fate_def word_less_def)

theorem GetAccount_disposes_once_witness:
  "fst (snd (GetAccount slow_env True False 1 ''a'' NewDecodeStorage
      (io_with [0 \<mapsto> ''p'', 1 \<mapsto> ''b''] []))) \<in> {[PutBack], [CleanupStarted]}"
proof -
  let ?s = "io_with [0 \<mapsto> ''p'', 1 \<mapsto> ''b''] []"
  have "case GetAccount slow_env True False 1 ''a'' NewDecodeStorage ?s of (r, fates, s') \<Rightarrow>
    (case r of
       Ret _ \<Rightarrow> fates = [PutBack]
     | Fail e \<Rightarrow> fates = [PutBack] \<or> fates = [CleanupStarted] \<and> e = ErrTimeout
     | _ \<Rightarrow> fates = [])"
    by (rule GetAccount_disposes_once) (simp add: calm_def io_with_def)
  with slow_env_run show ?thesis by (auto split: prod.splits go.splits)
qed

text \<open>
  The fields of a decoded account are those of the decoded map: an account is returned
  exactly when nonce, consumers and providers are 32-bit numbers and the data holds the four
  balances as decimals, and then they are its fields.
\<close>

theorem decode_account_fields:
  "decode_account (DMap m) = Ret pai \<longleftrightarrow>
    (\<exists>d. map_of m ''nonce'' = Some (DUint32 (pai_Nonce pai)) \<and>
       map_of m ''consumers'' = Some (DUint32 (pai_Consumers pai)) \<and>
       map_of m ''providers'' = Some (DUint32 (pai_Providers pai)) \<and>
       map_of m ''data'' = Some (DMap d) \<and>
       map_of d ''free'' = Some (DDecimal (pad_Free (pai_Data pai))) \<and>
       map_of d ''reserved'' = Some (DDecimal (pad_Reserved (pai_Data pai))) \<and>
       map_of d ''miscFrozen'' = Some (DDecimal (pad_MiscFrozen (pai_Data pai))) \<and>
       map_of d ''feeFrozen'' = Some (DDecimal (pad_FeeFrozen (pai_Data pai))))"
proof -
  have u: "as_uint32 w v = Ret n \<longleftrightarrow> v = Some (DUint32 n)"
    and d: "as_decimal w v = Ret t \<longleftrightarrow> v = Some (DDecimal t)"
    and m: "as_map w v = Ret mm \<longleftrightarrow> v = Some (DMap mm)" for w v n t mm
    by (auto simp: as_uint32_def as_decimal_def as_map_def split: option.splits dyn.splits)
  show ?thesis
    by (cases pai; cases "pai_Data pai") (auto simp: decode_account_def u d m)
qed

text \<open>
  When building the storage key fails, \<open>getAccountData\<close> returns the zero account without an
  error: the caller cannot tell it from an account that holds nothing.
\<close>

theorem key_error_gives_zero_account:
  assumes "AccountRequest (ae_libs E) a = Ret (key, Some e)"
  shows "getAccountData E slow meta v bh a s = (Ret zero_account, [], s)"
  using assms by (simp add: getAccountData_def or_else_def lift_go_def no_fate_def)

theorem key_error_gives_zero_account_witness:
  "\<exists>E. AccountRequest (ae_libs E) ''a'' \<noteq> Panic p \<and>
     getAccountData E False \<lparr>md_Decoder = (), md_Spec = 0, md_Bytes = []\<rparr> 0 ''b'' ''a'' (io_with Map.empty []) =
       (Ret zero_account, [], io_with Map.empty [])"
proof -
  let ?E = "slow_env\<lparr>ae_libs := sample_libs\<lparr>al_blake := \<lparr>bl_New = Some (Errors_New ''x''),
      bl_Write = (\<lambda>xs. None), bl_Sum = (\<lambda>xs. [])\<rparr>\<rparr>\<rparr>"
  have "account_id (42 # replicate 32 (1 :: u8) @ [0, 0]) = Ret (replicate 32 1)"
    using account_id_split[of "[42]" "replicate 32 1 @ [0, 0]", OF _ _ refl] by simp
  then obtain key where k: "AccountRequest (ae_libs ?E) ''a'' = Ret (key, Some (Errors_New ''x''))"
    by (simp add: AccountRequest_def sample_libs_def ToBlakeSum_def)
  from key_error_gives_zero_account[OF k] k show ?thesis by (intro exI[of _ ?E]) simp
qed

text \<open>
  The clean-up of a channel that is not in the pool closes it and keeps the pool's invariant:
  no channel a later request takes is the closed one.
\<close>

theorem cleanup_keeps_pool:
  assumes "pool_inv p h" and "open_chan h r" and "Some r \<notin> set (stor p)"
  shows "pool_inv p (cleanupTimeoutedCh num r h) \<and> \<not> open_chan (cleanupTimeoutedCh num r h) r \<and>
    (\<exists>q p' h'. getBlockPool_Get p (cleanupTimeoutedCh num r h) = Ret (Some q, p', h') \<and> q \<noteq> r)"
proof -
  from assms(2) obtain c where c: "cells h r = Some c" "\<not> ch_closed c" by (auto simp: open_chan_def)
  then have h': "cleanupTimeoutedCh num r h =
      h\<lparr>cells := (cells h)(r \<mapsto> c\<lparr>ch_buf := drop num (ch_buf c), ch_closed := True\<rparr>)\<rparr>" (is "_ = ?h")
    by (simp add: cleanupTimeoutedCh_def close_chan_def)
  have inv: "pool_inv p ?h" using pool_inv_close[OF assms(1) c(1) assms(3)] .
  moreover have closed: "\<not> open_chan ?h r" by (simp add: open_chan_def)
  moreover from gbPool.get_ok[OF inv] obtain q p' h2 where
    g: "getBlockPool_Get p ?h = Ret (Some q, p', h2)" "Some q \<in> set (stor p) \<or> cells ?h q = None" by blast
  moreover have "q \<noteq> r" using g(2) assms(3) by auto
  ultimately show ?thesis unfolding h' by blast
qed

theorem cleanup_keeps_pool_witness:
  "\<not> open_chan (cleanupTimeoutedCh 1 0 stale_heap) 0"
  using cleanup_keeps_pool[of "NewGetBlockPool 300" stale_heap 0 1]
  by (simp add: pool_inv_def NewGetBlockPool_def stale_heap_def heap_wf_def open_chan_def)

end
