(* ===== verification/Indexer_Client.thy ===== *)
theory Indexer_Client
  imports Block_And_Tx
begin

section \<open>The indexer client (indexer/client.go)\<close>

text \<open>
  Requests of the indexer manager arrive on a stream and are answered by task responses. A
  handler is a function to the responses it sends and the outcome of the call; the order of the
  list is the order of the sends, whose own errors the code only logs. JSON, the range requester
  and the search store are parameters. The text of an error is its format and arguments.
\<close>

type_synonym message = "string \<times> fmtarg list"

record TaskRequest =
  tq_Id :: string
  tq_Type :: string
  tq_Payload :: string

record TaskResponse =
  tr_Id :: string
  tr_Type :: string
  tr_Order :: nat
  tr_Error :: "message option"
  tr_Final :: bool
  tr_Payload :: string

definition ErrBadRequest :: goerror where
  "ErrBadRequest = Errors_New ''bad request''"

definition error_response :: "string \<Rightarrow> message \<Rightarrow> TaskResponse" where
  "error_response id1 msg = \<lparr>tr_Id = id1, tr_Type = [], tr_Order = 0, tr_Error = Some msg,
     tr_Final = True, tr_Payload = []\<rparr>"

record IndexerClient =
  ic_chainID :: string
  ic_currency :: string
  ic_exp :: int
  ic_maxHeightsToGet :: u64
  ic_network :: string
  ic_abMapper :: AccountBalanceMapper
  ic_trMapper :: TransactionMapper

definition NewIndexerClient :: "int \<Rightarrow> u64 \<Rightarrow> string \<Rightarrow> string \<Rightarrow> string \<Rightarrow> IndexerClient" where
  "NewIndexerClient exp maxHeightsToGet chainID currency network =
     \<lparr>ic_chainID = chainID, ic_currency = currency, ic_exp = exp,
      ic_maxHeightsToGet = maxHeightsToGet, ic_network = network,
      ic_abMapper = NewAccountBalanceMapper exp currency,
      ic_trMapper = NewTransactionMapper exp chainID currency\<rparr>"

subsection \<open>Height ranges\<close>

record HeightRange =
  hr_StartHeight :: u64
  hr_EndHeight :: u64

definition getLatestBlockHeightRange :: "u64 \<Rightarrow> u64 \<Rightarrow> u64 \<Rightarrow> HeightRange" where
  "getLatestBlockHeightRange maxHeightsToGet lastHeight lastHeightFromProxy =
     (let startheight = lastHeightFromProxy - maxHeightsToGet in
      if lastHeight = 0 \<and> startheight > 0
      then \<lparr>hr_StartHeight = startheight, hr_EndHeight = lastHeightFromProxy\<rparr>
      else if maxHeightsToGet < lastHeightFromProxy - lastHeight
      then \<lparr>hr_StartHeight = lastHeightFromProxy - maxHeightsToGet, hr_EndHeight = lastHeightFromProxy\<rparr>
      else \<lparr>hr_StartHeight = lastHeight, hr_EndHeight = lastHeightFromProxy\<rparr>)"

subsection \<open>The handlers\<close>

record handler_env =
  he_height_account :: "string \<Rightarrow> goerror option \<times> string \<times> u64"
  he_latest_request :: "string \<Rightarrow> goerror option"
  he_height_range :: "string \<Rightarrow> goerror option \<times> HeightRange"
  he_balance :: "string \<Rightarrow> u64 \<Rightarrow> AccountResponse option go"
  he_range :: "HeightRange \<Rightarrow> (nat \<times> string) \<times> goerror option"
  he_marshal_balance :: "GetAccountBalanceResponse \<Rightarrow> string"
  he_marshal_latest :: "u64 \<Rightarrow> string"

definition getBalanceSummary :: "handler_env \<Rightarrow> IndexerClient \<Rightarrow> string \<Rightarrow> u64 \<Rightarrow>
    GetAccountBalanceResponse go" where
  "getBalanceSummary H c account height =
     bind_go (he_balance H account height) (\<lambda>accountBalanceResp.
       map_balance (ic_abMapper c) accountBalanceResp height)"

definition bad_payload :: "goerror option \<Rightarrow> bool \<Rightarrow> goerror option" where
  "bad_payload err missing = (if missing then Some ErrBadRequest else err)"

definition handle_balance :: "handler_env \<Rightarrow> IndexerClient \<Rightarrow> TaskRequest \<Rightarrow>
    TaskResponse list \<times> unit go" where
  "handle_balance H c tr =
     (case he_height_account H (tq_Payload tr) of (err, account, height) \<Rightarrow>
        (case bad_payload err (account = [] \<or> height = 0) of
           Some e \<Rightarrow> ([error_response (tq_Id tr) (''Cannot unmarshal payload: %s'', [AErr e])], Ret ())
         | None \<Rightarrow>
             (case getBalanceSummary H c account height of
                Fail e \<Rightarrow> ([error_response (tq_Id tr) (''Could not send Account Balance: %s'', [AErr e])], Ret ())
              | Ret balanceSummary \<Rightarrow>
                  ([\<lparr>tr_Id = tq_Id tr, tr_Type = ''AccountBalance'', tr_Order = 0, tr_Error = None,
                     tr_Final = True, tr_Payload = he_marshal_balance H balanceSummary\<rparr>], Ret ())
              | Panic p \<Rightarrow> ([], Panic p)
              | Blocked \<Rightarrow> ([], Blocked))))"

text \<open>The latest height is asked for even when the payload did not parse.\<close>

definition handle_latest :: "handler_env \<Rightarrow> (u64, 'c) act \<Rightarrow> TaskRequest \<Rightarrow> 'c io \<Rightarrow>
    TaskResponse list \<times> unit go \<times> 'c io" where
  "handle_latest H latest tr s =
     (let early = (case he_latest_request H (tq_Payload tr) of
            Some err \<Rightarrow> [error_response (tq_Id tr) (''Cannot unmarshal payload'', [])]
          | None \<Rightarrow> []) in
      case latest s of
        (Fail err, s') \<Rightarrow>
          (early @ [error_response (tq_Id tr) (''Could not fetch latest height from proxy: %s'', [AErr err])],
           Ret (), s')
      | (Ret height, s') \<Rightarrow>
          (early @ [\<lparr>tr_Id = tq_Id tr, tr_Type = ''LatestMark'', tr_Order = 0, tr_Error = None,
             tr_Final = True, tr_Payload = he_marshal_latest H height\<rparr>], Ret (), s')
      | (Panic p, s') \<Rightarrow> (early, Panic p, s')
      | (Blocked, s') \<Rightarrow> (early, Blocked, s'))"

definition handle_transactions :: "handler_env \<Rightarrow> TaskRequest \<Rightarrow> TaskResponse list" where
  "handle_transactions H tr =
     (case he_height_range H (tq_Payload tr) of (err, hr) \<Rightarrow>
        (case bad_payload err (hr_StartHeight hr = 0 \<or> hr_EndHeight hr = 0) of
           Some e \<Rightarrow> [error_response (tq_Id tr) (''Cannot unmarshal payload: %s'', [AErr e])]
         | None \<Rightarrow>
             if hr_StartHeight hr > hr_EndHeight hr
             then [error_response (tq_Id tr) (''Bad range, start height is too high'', [])]
             else
               (case he_range H hr of ((number, payload), err) \<Rightarrow>
                  let resp = \<lparr>tr_Id = tq_Id tr, tr_Type = ''Heights'', tr_Order = 0, tr_Error = None,
                              tr_Final = True, tr_Payload = (if number > 0 then payload else [])\<rparr>
                  in (case err of
                        Some e \<Rightarrow> [resp\<lparr>tr_Error := Some (''%s'', [AErr e])\<rparr>]
                      | None \<Rightarrow> [resp]))))"

subsection \<open>The loop over a stream\<close>

text \<open>The request types are constants of another package.\<close>

record request_types =
  ty_balance :: string
  ty_transactions :: string
  ty_latest :: string

text \<open>\<open>latest\<close> is \<open>getLatestHeight\<close> with the client's cache.\<close>

definition dispatch :: "request_types \<Rightarrow> handler_env \<Rightarrow> IndexerClient \<Rightarrow> (u64, 'c) act \<Rightarrow>
    TaskRequest \<Rightarrow> 'c io \<Rightarrow> TaskResponse list \<times> unit go \<times> 'c io" where
  "dispatch T H c latest tr s =
     (if tq_Type tr = ty_balance T then (case handle_balance H c tr of (out, r) \<Rightarrow> (out, r, s))
      else if tq_Type tr = ty_transactions T then (handle_transactions H tr, Ret (), s)
      else if tq_Type tr = ty_latest T then handle_latest H latest tr s
      else ([error_response (tq_Id tr) (''Unknown request %s'', [AStr (tq_Type tr)])], Ret (), s))"

datatype stream_event = CtxDone | Finish | RequestTask TaskRequest

record 'c loop_state =
  ls_streams :: "string set"
  ls_sent :: "TaskResponse list"
  ls_io :: "'c io"

text \<open>\<open>Run\<close> for the stream \<open>sid\<close> on what its select finds, in order; with nothing left it waits.\<close>

fun run_stream :: "(TaskRequest \<Rightarrow> 'c io \<Rightarrow> TaskResponse list \<times> unit go \<times> 'c io) \<Rightarrow> string \<Rightarrow>
    stream_event list \<Rightarrow> 'c loop_state \<Rightarrow> unit go \<times> 'c loop_state" where
  "run_stream f sid [] s = (Blocked, s)"
| "run_stream f sid (CtxDone # evs) s = (Ret (), s\<lparr>ls_streams := ls_streams s - {sid}\<rparr>)"
| "run_stream f sid (Finish # evs) s = (Ret (), s)"
| "run_stream f sid (RequestTask tr # evs) s =
     (case f tr (ls_io s) of (out, r, io) \<Rightarrow>
        let s = s\<lparr>ls_sent := ls_sent s @ out, ls_io := io\<rparr> in
        (case r of
           Ret _ \<Rightarrow> run_stream f sid evs s
         | Fail e \<Rightarrow> (Fail e, s)
         | Panic p \<Rightarrow> (Panic p, s)
         | Blocked \<Rightarrow> (Blocked, s)))"

text \<open>\<open>RegisterStream\<close> records the stream and starts 40 copies of \<open>Run\<close>; \<open>CloseStream\<close> forgets it.\<close>

definition RegisterStream :: "string \<Rightarrow> string set \<Rightarrow> string set \<times> nat" where
  "RegisterStream sid streams = (insert sid streams, 40)"

definition CloseStream :: "string \<Rightarrow> string set \<Rightarrow> string set" where
  "CloseStream sid streams = streams - {sid}"

subsection \<open>Storing a block and its transactions\<close>

datatype store_op = StoreBlocks "BlockWithMeta list" | StoreTransactions "TransactionWithMeta list"

record search_store =
  ss_session :: "goerror option"
  ss_run :: "store_op \<Rightarrow> goerror option"

text \<open>The result and the store operations tried, in order.\<close>

definition store_fetched :: "search_store \<Rightarrow> u64 \<Rightarrow> (BlockWithMeta \<times> TransactionWithMeta list) go \<Rightarrow>
    (BlockWithMeta \<times> TransactionWithMeta list) go \<times> store_op list" where
  "store_fetched S height fetched =
     (case fetched of
        Fail err \<Rightarrow>
          (Fail (Wrapf ''error fetching block and transactions: %d %w '' [AInt (uint height)] err), [])
      | Panic p \<Rightarrow> (Panic p, [])
      | Blocked \<Rightarrow> (Blocked, [])
      | Ret (blockWM, txsWM) \<Rightarrow>
          (case ss_session S of
             Some err \<Rightarrow> (Fail (Errorf ''Error while getting store session: %s'' [AErr err]), [])
           | None \<Rightarrow>
               (case ss_run S (StoreBlocks [blockWM]) of
                  Some err \<Rightarrow> (Fail (Errorf ''Error while storing block: %s'' [AErr err]),
                               [StoreBlocks [blockWM]])
                | None \<Rightarrow>
                    if length txsWM > 0 then
                      (case ss_run S (StoreTransactions txsWM) of
                         Some err \<Rightarrow> (Fail (Errorf ''Error while storing transactions: %s'' [AErr err]),
                                      [StoreBlocks [blockWM], StoreTransactions txsWM])
                       | None \<Rightarrow> (Ret (blockWM, txsWM), [StoreBlocks [blockWM], StoreTransactions txsWM]))
                    else (Ret (blockWM, txsWM), [StoreBlocks [blockWM]]))))"

definition BlockAndTx :: "('d, 'v, 'c) env \<Rightarrow> search_store \<Rightarrow> u64 \<Rightarrow> 'd DecodeStorage \<Rightarrow> 'c io \<Rightarrow>
    (BlockWithMeta \<times> TransactionWithMeta list) go \<times> store_op list \<times> 'c io" where
  "BlockAndTx E S height ds s =
     (case blockAndTx E height ds s of (r, s') \<Rightarrow>
        case store_fetched S height (fmap_go fst r) of (r, ops) \<Rightarrow> (r, ops, s'))"

section \<open>Properties\<close>

text \<open>One final response with the id of the request.\<close>

definition answers_once :: "TaskRequest \<Rightarrow> TaskResponse list \<Rightarrow> bool" where
  "answers_once tr out \<longleftrightarrow> (\<exists>r. out = [r] \<and> tr_Id r = tq_Id tr \<and> tr_Final r)"

lemma handle_transactions_once: "answers_once tr (handle_transactions H tr)"
  by (auto simp: handle_transactions_def answers_once_def error_response_def Let_def
      split: prod.split option.split)

lemma handle_balance_once:
  "snd (handle_balance H c tr) = Ret () \<Longrightarrow> answers_once tr (fst (handle_balance H c tr))"
  by (auto simp: handle_balance_def answers_once_def error_response_def
      split: prod.splits option.splits go.splits)

lemma handle_latest_once:
  "he_latest_request H (tq_Payload tr) = None \<Longrightarrow> fst (snd (handle_latest H latest tr s)) = Ret () \<Longrightarrow>
     answers_once tr (fst (handle_latest H latest tr s))"
  by (auto simp: handle_latest_def answers_once_def error_response_def Let_def
      split: prod.splits go.splits)

lemma dispatch_once:
  assumes "tq_Type tr = ty_latest T \<longrightarrow> he_latest_request H (tq_Payload tr) = None"
    and "fst (snd (dispatch T H c latest tr s)) = Ret ()"
  shows "answers_once tr (fst (dispatch T H c latest tr s))"
  using assms handle_balance_once[of H c tr] handle_latest_once[of H tr latest s]
  by (auto simp: dispatch_def handle_transactions_once split: prod.splits)
    (auto simp: answers_once_def error_response_def)

lemma run_stream_once:
  assumes "\<forall>tr \<in> set trs. \<forall>s out io. f tr s = (out, Ret (), io) \<longrightarrow> answers_once tr out"
    and "run_stream f sid (map RequestTask trs @ Finish # evs) s = (Ret (), s')"
  shows "\<exists>rs. ls_sent s' = ls_sent s @ rs \<and> list_all2 (\<lambda>tr r. tr_Id r = tq_Id tr \<and> tr_Final r) trs rs"
  using assms
proof (induction trs arbitrary: s)
  case (Cons tr trs)
  obtain out r io where f: "f tr (ls_io s) = (out, r, io)" by (cases "f tr (ls_io s)")
  with Cons.prems(2) have r: "r = Ret ()"
    and run: "run_stream f sid (map RequestTask trs @ Finish # evs)
      (s\<lparr>ls_sent := ls_sent s @ out, ls_io := io\<rparr>) = (Ret (), s')"
    by (auto simp: Let_def split: go.splits)
  obtain q where q: "out = [q]" "tr_Id q = tq_Id tr" "tr_Final q"
    using Cons.prems(1) f r by (auto simp: answers_once_def)
  from Cons.IH[OF _ run] Cons.prems(1) obtain rs where
    "ls_sent s' = ls_sent s @ out @ rs" "list_all2 (\<lambda>tr r. tr_Id r = tq_Id tr \<and> tr_Final r) trs rs"
    by auto
  with q show ?case by (intro exI[of _ "q # rs"]) simp
qed simp

text \<open>
  A loop that handles the requests of its stream until the stream is finished has sent exactly
  one response to each request, in the order of the requests, each final and with the id of its
  request, whatever the types and the contents of the requests are. The one exception is a request
  for the latest mark whose payload does not parse.
\<close>

theorem requests_get_one_response:
  assumes "\<forall>tr \<in> set trs. tq_Type tr = ty_latest T \<longrightarrow> he_latest_request H (tq_Payload tr) = None"
    and "run_stream (dispatch T H c latest) sid (map RequestTask trs @ [Finish]) s = (Ret (), s')"
  shows "\<exists>rs. ls_sent s' = ls_sent s @ rs \<and>
    list_all2 (\<lambda>tr r. tr_Id r = tq_Id tr \<and> tr_Final r) trs rs"
proof (rule run_stream_once[OF _ assms(2)])
  show "\<forall>tr \<in> set trs. \<forall>s out io. dispatch T H c latest tr s = (out, Ret (), io) \<longrightarrow> answers_once tr out"
  proof (intro ballI allI impI)
    fix tr s out io
    assume "tr \<in> set trs" "dispatch T H c latest tr s = (out, Ret (), io)"
    then show "answers_once tr out" using dispatch_once[of tr T H c latest s] assms(1) by simp
  qed
qed

definition sample_types :: request_types where
  "sample_types = \<lparr>ty_balance = ''b'', ty_transactions = ''t'', ty_latest = ''l''\<rparr>"

definition sample_handlers :: handler_env where
  "sample_handlers = \<lparr>he_height_account = (\<lambda>p. (None, p, 1)),
     he_latest_request = (\<lambda>p. if p = [] then Some (Errors_New ''eof'') else None),
     he_height_range = (\<lambda>p. (None, \<lparr>hr_StartHeight = 5, hr_EndHeight = 4\<rparr>)),
     he_balance = (\<lambda>a h. Ret None), he_range = (\<lambda>r. ((0, []), None)),
     he_marshal_balance = (\<lambda>b. ''{}''), he_marshal_latest = (\<lambda>h. ''{}'')\<rparr>"

definition sample_client :: IndexerClient where
  "sample_client = NewIndexerClient 10 100 ''mainnet'' ''DOT'' ''polkadot''"

theorem requests_get_one_response_witness:
  "\<exists>s' rs. run_stream (dispatch sample_types sample_handlers sample_client (ret 7)) ''s''
      (map RequestTask [\<lparr>tq_Id = ''i'', tq_Type = ''t'', tq_Payload = []\<rparr>,
        \<lparr>tq_Id = ''k'', tq_Type = ''x'', tq_Payload = []\<rparr>] @ [Finish])
      \<lparr>ls_streams = {}, ls_sent = [], ls_io = io_with Map.empty []\<rparr> = (Ret (), s') \<and>
    ls_sent s' = rs \<and> map tr_Id rs = [''i'', ''k'']"
proof -
  let ?trs = "[\<lparr>tq_Id = ''i'', tq_Type = ''t'', tq_Payload = []\<rparr>,
      \<lparr>tq_Id = ''k'', tq_Type = ''x'', tq_Payload = []\<rparr>]"
  let ?s = "\<lparr>ls_streams = {}, ls_sent = [], ls_io = io_with Map.empty []\<rparr>"
  obtain r s' where run: "run_stream (dispatch sample_types sample_handlers sample_client (ret 7)) ''s''
      (map RequestTask ?trs @ [Finish]) ?s = (r, s')" by (cases "run_stream (dispatch sample_types
      sample_handlers sample_client (ret 7)) ''s'' (map RequestTask ?trs @ [Finish]) ?s")
  then have "r = Ret ()" by (auto simp: dispatch_def sample_types_def Let_def)
  with run requests_get_one_response[OF _ run[unfolded \<open>r = Ret ()\<close>]]
  show ?thesis by (auto simp: sample_types_def list_all2_Cons1)
qed

text \<open>
  A request for the latest mark whose payload does not parse is answered twice, first with the
  error and then with the latest height, both marked final.
\<close>

theorem bad_latest_request_answered_twice:
  assumes "he_latest_request H (tq_Payload tr) = Some err" and "latest s = (Ret height, s')"
  shows "\<exists>r1 r2. handle_latest H latest tr s = ([r1, r2], Ret (), s') \<and>
    tr_Final r1 \<and> tr_Error r1 \<noteq> None \<and> tr_Final r2 \<and> tr_Error r2 = None \<and>
    tr_Id r1 = tq_Id tr \<and> tr_Id r2 = tq_Id tr"
  using assms by (simp add: handle_latest_def error_response_def)

theorem bad_latest_request_answered_twice_witness:
  "length (fst (handle_latest sample_handlers (ret 7) \<lparr>tq_Id = ''i'', tq_Type = ''l'', tq_Payload = []\<rparr>
      (io_with Map.empty []))) = 2"
  using bad_latest_request_answered_twice[of sample_handlers "\<lparr>tq_Id = ''i'', tq_Type = ''l'', tq_Payload = []\<rparr>"
      "Errors_New ''eof''" "ret 7" "io_with Map.empty []" 7 "io_with Map.empty []"]
  by (auto simp: sample_handlers_def ret_def)

lemma store_fetched_spec:
  "store_fetched S height fetched = (r, ops) \<Longrightarrow>
     (\<forall>txs. StoreTransactions txs \<in> set ops \<longrightarrow>
        (\<exists>b. fetched = Ret (b, txs) \<and> txs \<noteq> [] \<and> ops = [StoreBlocks [b], StoreTransactions txs] \<and>
          ss_run S (StoreBlocks [b]) = None)) \<and>
     (\<forall>out. r = Ret out \<longrightarrow> fetched = Ret out \<and> (\<forall>op \<in> set ops. ss_run S op = None) \<and>
        ops = StoreBlocks [fst out] # (if snd out = [] then [] else [StoreTransactions (snd out)]))"
  by (cases fetched; cases "ss_session S")
    (auto simp: store_fetched_def split: prod.splits option.splits if_splits)

lemma uint_minus_wrap:
  fixes a b :: u64
  assumes "a < b"
  shows "uint (a - b) = uint a - uint b + 2 ^ 64"
  using assms by (simp add: word_less_def uint_sub_if')

text \<open>
  C33: Whatever the last height up to the proxy's, the range to fetch ends at the proxy's height and
  the 64-bit difference of its ends is at most the maximum. Its start lies between the last height
  and the proxy's height exactly when there is a last height or the maximum does not exceed the
  proxy's height; else the subtraction wraps and the range starts above its end.
\<close>

theorem height_range_bounds:
  assumes "lastHeight \<le> head"
  shows "hr_EndHeight (getLatestBlockHeightRange maxH lastHeight head) = head \<and>
    head - hr_StartHeight (getLatestBlockHeightRange maxH lastHeight head) \<le> maxH \<and>
    (if lastHeight \<noteq> 0 \<or> maxH \<le> head
     then lastHeight \<le> hr_StartHeight (getLatestBlockHeightRange maxH lastHeight head) \<and>
       hr_StartHeight (getLatestBlockHeightRange maxH lastHeight head) \<le> head
     else hr_StartHeight (getLatestBlockHeightRange maxH lastHeight head) = head - maxH \<and>
       head < hr_StartHeight (getLatestBlockHeightRange maxH lastHeight head))"
proof -
  let ?r = "getLatestBlockHeightRange maxH lastHeight head"
  have u: "uint (head - lastHeight) = uint head - uint lastHeight"
    using assms by (simp add: word_le_def uint_sub_if')
  have d: "head - (head - maxH) = maxH" by simp
  have wrap: "head < head - maxH" if "head < maxH"
    using uint_minus_wrap[OF that] uint_bounded[of maxH] by (simp add: word_less_def)
  have le: "uint (head - maxH) = uint head - uint maxH" if "maxH \<le> head"
    using that by (simp add: word_le_def uint_sub_if')
  consider (a) "lastHeight = 0 \<and> 0 < head - maxH" | (b) "\<not> (lastHeight = 0 \<and> 0 < head - maxH)" "maxH < head - lastHeight"
    | (c) "\<not> (lastHeight = 0 \<and> 0 < head - maxH)" "\<not> maxH < head - lastHeight" by blast
  then show ?thesis
  proof cases
    case a
    then have r: "?r = \<lparr>hr_StartHeight = head - maxH, hr_EndHeight = head\<rparr>"
      by (simp add: getLatestBlockHeightRange_def Let_def)
    show ?thesis
    proof (cases "maxH \<le> head")
      case True
      then have "head - maxH \<le> head" using le by (simp add: word_le_def)
      with True a d show ?thesis unfolding r by simp
    next
      case False
      then show ?thesis using a d wrap unfolding r by (auto simp: not_le)
    qed
  next
    case b
    then have r: "?r = \<lparr>hr_StartHeight = head - maxH, hr_EndHeight = head\<rparr>"
      by (auto simp: getLatestBlockHeightRange_def Let_def)
    have max: "uint maxH < uint head - uint lastHeight" using b(2) u by (simp add: word_less_def)
    then have "maxH \<le> head" by (simp add: word_le_def) (use uint_ge_0[of lastHeight] in linarith)
    with max have "lastHeight \<le> head - maxH" "head - maxH \<le> head" "maxH \<le> head"
      by (simp_all add: word_le_def le)
    with d show ?thesis unfolding r by simp
  next
    case c
    then have r: "?r = \<lparr>hr_StartHeight = lastHeight, hr_EndHeight = head\<rparr>"
      unfolding getLatestBlockHeightRange_def Let_def by presburger
    have "lastHeight \<noteq> 0 \<or> maxH \<le> head"
    proof (rule ccontr)
      assume n: "\<not> (lastHeight \<noteq> 0 \<or> maxH \<le> head)"
      then have "head < maxH" by (simp add: not_le)
      then have "head < head - maxH" by (rule wrap)
      then have "0 < head - maxH" by (rule le_less_trans[OF word_zero_le])
      with n c(1) show False by blast
    qed
    with c(2) assms show ?thesis unfolding r by (simp add: not_less)
  qed
qed

theorem height_range_bounds_witness:
  "7 \<le> hr_StartHeight (getLatestBlockHeightRange 100 7 1000) \<and>
   1000 - hr_StartHeight (getLatestBlockHeightRange 100 7 1000) \<le> 100 \<and>
   50 < hr_StartHeight (getLatestBlockHeightRange 10000 0 50)"
  using height_range_bounds[of 7 1000 100] height_range_bounds[of 0 50 10000] by (simp add: word_le_def)

text \<open>
  With no last height and a maximum above the proxy's height the subtraction wraps, and the
  range starts at a height no block has, far above its end.
\<close>

theorem height_range_wraps:
  assumes "head < maxH"
  shows "hr_StartHeight (getLatestBlockHeightRange maxH 0 head) = head - maxH \<and>
    hr_EndHeight (getLatestBlockHeightRange maxH 0 head) < hr_StartHeight (getLatestBlockHeightRange maxH 0 head)"
proof -
  have "head < head - maxH"
    using uint_minus_wrap[OF assms] uint_bounded[of maxH] by (simp add: word_less_def)
  moreover then have "0 < head - maxH" by (rule le_less_trans[OF word_zero_le])
  ultimately show ?thesis by (simp add: getLatestBlockHeightRange_def Let_def)
qed

theorem height_range_wraps_witness:
  "hr_EndHeight (getLatestBlockHeightRange 10000 0 50) < hr_StartHeight (getLatestBlockHeightRange 10000 0 50)"
proof -
  have "(50 :: u64) < 10000" by (simp add: word_less_def)
  from height_range_wraps[OF this] show ?thesis by (rule conjunct2)
qed

end
