(* ===== verification/Http_Transport.thy ===== *)
theory Http_Transport
  imports Account
begin

section \<open>The HTTP server of polkadot-live (transport/http/http.go)\<close>

text \<open>
  The handler is a function from the \<open>height\<close> parameter and the path of the request to what it
  does to the response writer, in order. The client that reads accounts is the interface
  \<open>retrieveClienter\<close>, an argument; the second argument of the handler is the error of writing
  the JSON of the result, if any.
\<close>

record AccountView =
  av_Nonce :: int
  av_Free :: string
  av_Reserved :: string
  av_MiscFrozen :: string
  av_FeeFrozen :: string

datatype http_body = ServiceError "string \<times> fmtarg list" | View AccountView

datatype http_out = WriteHeader nat | Encode http_body

definition StatusBadRequest :: nat where "StatusBadRequest = 400"
definition StatusInternalServerError :: nat where "StatusInternalServerError = 500"

text \<open>\<open>ServiceError.Error()\<close>.\<close>

definition ServiceError_Error :: "string \<times> fmtarg list \<Rightarrow> string \<times> (string \<times> fmtarg list)" where
  "ServiceError_Error msg = (''Bad Request: %s'', msg)"

definition account_view :: "PolkaAccountInfo \<Rightarrow> AccountView" where
  "account_view ac = \<lparr>av_Nonce = uint (pai_Nonce ac), av_Free = pad_Free (pai_Data ac),
     av_Reserved = pad_Reserved (pai_Data ac), av_MiscFrozen = pad_MiscFrozen (pai_Data ac),
     av_FeeFrozen = pad_FeeFrozen (pai_Data ac)\<rparr>"

definition fail_with :: "nat \<Rightarrow> string \<times> fmtarg list \<Rightarrow> http_out list" where
  "fail_with status msg = [WriteHeader status, Encode (ServiceError msg)]"

text \<open>The account's address in the path.\<close>

definition path_parts :: "string \<Rightarrow> string list" where
  "path_parts path = Split CHR ''/'' (Replace path ''/account'' [] (Some 1))"

definition height_param :: "string \<Rightarrow> u64 go" where
  "height_param height = (if height \<noteq> [] then ParseUint height else Ret 0)"

definition http_GetAccount :: "(u64 \<Rightarrow> string \<Rightarrow> PolkaAccountInfo go) \<Rightarrow> goerror option \<Rightarrow> string \<Rightarrow> string \<Rightarrow>
    http_out list go" where
  "http_GetAccount cli write_err height path =
     (case height_param height of
        Fail err \<Rightarrow> Ret (fail_with StatusBadRequest (''Invalid height param: %s'', [AErr err]))
      | Panic p \<Rightarrow> Panic p
      | Blocked \<Rightarrow> Blocked
      | Ret intHeight \<Rightarrow>
          (let s = path_parts path in
           if length s < 2 \<or> s ! 1 = []
           then Ret (fail_with StatusBadRequest (''empty address parameter '', []))
           else
             (case cli intHeight (s ! (length s - 1)) of
                Fail err \<Rightarrow> Ret (fail_with StatusInternalServerError (''Error processing account request'', []))
              | Panic p \<Rightarrow> Panic p
              | Blocked \<Rightarrow> Blocked
              | Ret ac \<Rightarrow>
                  Ret (Encode (View (account_view ac)) #
                    (if write_err \<noteq> None
                     then fail_with StatusInternalServerError (''Error processing account request'', [])
                     else [])))))"

text \<open>The patterns the handler is attached to; \<open>Serving\<close> has the mux.\<close>

definition AttachToHandler :: "string list" where
  "AttachToHandler = [''/account'', ''/account/'']"

section \<open>Properties\<close>

text \<open>The status a client sees: the first one written, 200 when the body comes first.\<close>

fun status_of :: "http_out list \<Rightarrow> nat" where
  "status_of (WriteHeader n # out) = n"
| "status_of (Encode b # out) = 200"
| "status_of [] = 200"

text \<open>A path below \<open>/account/\<close> with the given segments.\<close>

definition account_path :: "string list \<Rightarrow> string" where
  "account_path ws = ''/account/'' @ Join ''/'' ws"

lemma path_parts_account_path:
  assumes "ws \<noteq> []" and "\<forall>w \<in> set ws. CHR ''/'' \<notin> set w"
  shows "path_parts (account_path ws) = [] # ws"
proof -
  have "path_parts (account_path ws) = Split CHR ''/'' (CHR ''/'' # Join ''/'' ws)"
    using Replace_hit[of "''/account''" "Some 1" "CHR ''/'' # Join ''/'' ws" "[]"]
    by (simp add: path_parts_def account_path_def)
  with Split_Join[OF assms] show ?thesis by simp
qed

text \<open>What the path asks for: no account, or the last segment below \<open>/account/\<close>.\<close>

definition asked_account :: "string \<Rightarrow> string option" where
  "asked_account path =
     (let s = path_parts path in if length s < 2 \<or> s ! 1 = [] then None else Some (last s))"

lemma asked_account_path:
  "ws \<noteq> [] \<Longrightarrow> \<forall>w \<in> set ws. CHR ''/'' \<notin> set w \<Longrightarrow> hd ws \<noteq> [] \<Longrightarrow>
     asked_account (account_path ws) = Some (last ws)"
  by (simp add: asked_account_def path_parts_account_path hd_conv_nth Let_def)

definition respond :: "goerror option \<Rightarrow> PolkaAccountInfo go \<Rightarrow> http_out list go" where
  "respond write_err r =
     (case r of
        Fail err \<Rightarrow> Ret (fail_with 500 (''Error processing account request'', []))
      | Panic p \<Rightarrow> Panic p
      | Blocked \<Rightarrow> Blocked
      | Ret ac \<Rightarrow> Ret (Encode (View (account_view ac)) #
          (if write_err \<noteq> None then fail_with 500 (''Error processing account request'', []) else [])))"

lemma http_GetAccount_asked:
  "http_GetAccount cli write_err height path =
     (case height_param height of
        Fail err \<Rightarrow> Ret (fail_with 400 (''Invalid height param: %s'', [AErr err]))
      | Ret h \<Rightarrow>
          (case asked_account path of
             None \<Rightarrow> Ret (fail_with 400 (''empty address parameter '', []))
           | Some a \<Rightarrow> respond write_err (cli h a))
      | Panic p \<Rightarrow> Panic p
      | Blocked \<Rightarrow> Blocked)"
proof (cases "length (path_parts path) < 2 \<or> path_parts path ! 1 = []")
  case True
  then show ?thesis
    by (cases "height_param height")
      (simp_all add: http_GetAccount_def asked_account_def Let_def StatusBadRequest_def)
next
  case False
  then have "path_parts path ! (length (path_parts path) - 1) = last (path_parts path)"
    by (subst last_conv_nth) auto
  with False show ?thesis
    by (cases "height_param height")
      (auto simp: http_GetAccount_def asked_account_def Let_def StatusBadRequest_def
        StatusInternalServerError_def respond_def split: go.split)
qed

lemma height_param_total: "(\<exists>h. height_param height = Ret h) \<or> (\<exists>e. height_param height = Fail e)"
  by (simp add: height_param_def ParseUint_def split: option.splits)

text \<open>
  The account asked for is the last segment below \<open>/account/\<close>, whatever is between the first
  and the last (after a trailing slash it is the account with the empty id). It is answered with
  the client's account at the given height, or at height 0 (the latest) without one, field by
  field and under status 200; an error of the client gives 500 and tells the caller nothing about it.
\<close>

theorem account_view_served:
  assumes "ws \<noteq> []" and "\<forall>w \<in> set ws. CHR ''/'' \<notin> set w" and "hd ws \<noteq> []"
    and "height = (case h of None \<Rightarrow> [] | Some n \<Rightarrow> show_u64 n)" and "n0 = (case h of None \<Rightarrow> 0 | Some n \<Rightarrow> n)"
  shows "(\<forall>ac. cli n0 (last ws) = Ret ac \<longrightarrow>
      http_GetAccount cli None height (account_path ws) =
        Ret [Encode (View \<lparr>av_Nonce = uint (pai_Nonce ac), av_Free = pad_Free (pai_Data ac),
          av_Reserved = pad_Reserved (pai_Data ac), av_MiscFrozen = pad_MiscFrozen (pai_Data ac),
          av_FeeFrozen = pad_FeeFrozen (pai_Data ac)\<rparr>)]) \<and>
    (\<forall>err. cli n0 (last ws) = Fail err \<longrightarrow>
      http_GetAccount cli None height (account_path ws) =
        Ret [WriteHeader 500, Encode (ServiceError (''Error processing account request'', []))])"
proof -
  have "show_u64 n \<noteq> []" for n by (simp add: show_u64_def)
  then have "height_param height = Ret n0"
    using assms(4,5) by (cases h) (simp_all add: height_param_def)
  then show ?thesis
    by (simp add: http_GetAccount_asked asked_account_path[OF assms(1-3)] account_view_def fail_with_def
        respond_def)
qed

definition some_account :: PolkaAccountInfo where
  "some_account = \<lparr>pai_Nonce = 3, pai_Consumers = 0, pai_Providers = 1,
     pai_Data = \<lparr>pad_Free = ''10'', pad_Reserved = ''0'', pad_MiscFrozen = ''0'', pad_FeeFrozen = ''0''\<rparr>\<rparr>"

definition one_account :: "u64 \<Rightarrow> string \<Rightarrow> PolkaAccountInfo go" where
  "one_account n a = (if n = 7 \<and> a = ''X'' then Ret some_account else Blocked)"

theorem account_view_served_witness:
  "http_GetAccount one_account None (show_u64 7) (account_path [''W'', ''X'']) =
    Ret [Encode (View \<lparr>av_Nonce = 3, av_Free = ''10'', av_Reserved = ''0'', av_MiscFrozen = ''0'',
      av_FeeFrozen = ''0''\<rparr>)]"
proof -
  have "one_account 7 (last [''W'', ''X'']) = Ret some_account" by (simp add: one_account_def)
  with account_view_served[of "[''W'', ''X'']" "show_u64 7" "Some 7" 7 one_account]
  have "http_GetAccount one_account None (show_u64 7) (account_path [''W'', ''X'']) =
    Ret [Encode (View \<lparr>av_Nonce = uint (pai_Nonce some_account), av_Free = pad_Free (pai_Data some_account),
      av_Reserved = pad_Reserved (pai_Data some_account), av_MiscFrozen = pad_MiscFrozen (pai_Data some_account),
      av_FeeFrozen = pad_FeeFrozen (pai_Data some_account)\<rparr>)]" by auto
  then show ?thesis by (simp add: some_account_def)
qed

lemma status_400:
  "(\<exists>out. http_GetAccount cli write_err height path = Ret out \<and> status_of out = 400) \<longleftrightarrow>
     (\<exists>e. height_param height = Fail e) \<or> asked_account path = None"
proof (cases "\<exists>e. height_param height = Fail e")
  case True
  then show ?thesis by (auto simp: http_GetAccount_asked fail_with_def)
next
  case False
  then obtain h where h: "height_param height = Ret h" using height_param_total[of height] by blast
  show ?thesis
  proof (cases "asked_account path")
    case None
    with h show ?thesis by (simp add: http_GetAccount_asked fail_with_def)
  next
    case (Some a)
    with h show ?thesis by (cases "cli h a") (simp_all add: http_GetAccount_asked fail_with_def respond_def)
  qed
qed

text \<open>
  A request gets status 400 exactly when its height does not parse or its path names no
  account, and then the client is not asked: the answer is the same for every client.
\<close>

theorem bad_request_iff:
  "((\<exists>out. http_GetAccount cli write_err height path = Ret out \<and> status_of out = 400) \<longleftrightarrow>
     (height \<noteq> [] \<and> (\<exists>e. ParseUint height = Fail e)) \<or>
     length (path_parts path) < 2 \<or> path_parts path ! 1 = []) \<and>
   ((height \<noteq> [] \<and> (\<exists>e. ParseUint height = Fail e)) \<or>
     length (path_parts path) < 2 \<or> path_parts path ! 1 = [] \<longrightarrow>
     http_GetAccount cli write_err height path = http_GetAccount cli' write_err' height path)"
proof -
  have h: "(\<exists>e. height_param height = Fail e) \<longleftrightarrow> height \<noteq> [] \<and> (\<exists>e. ParseUint height = Fail e)"
    by (simp add: height_param_def)
  have a: "asked_account path = None \<longleftrightarrow> length (path_parts path) < 2 \<or> path_parts path ! 1 = []"
    by (simp add: asked_account_def Let_def)
  have "(\<exists>e. height_param height = Fail e) \<or> asked_account path = None \<Longrightarrow>
      http_GetAccount cli write_err height path = http_GetAccount cli' write_err' height path"
    by (auto simp: http_GetAccount_asked split: go.split)
  with status_400[of cli write_err height path] show ?thesis unfolding h a by blast
qed

theorem bad_request_iff_witness:
  "\<exists>out. http_GetAccount one_account None ''x'' (account_path [''X'']) = Ret out \<and> status_of out = 400"
proof -
  have "\<exists>e. ParseUint ''x'' = Fail e"
    by (simp add: ParseUint_def parse_nat_def digit_val_def digit_table_def)
  with bad_request_iff[of one_account None "''x''" "account_path [''X'']"] show ?thesis by blast
qed

end
