(* ===== verification/Logging.thy ===== *)
theory Logging
  imports Go_Strings
begin

section \<open>The logger of the commands (cmd/*/logger/logger.go)\<close>

text \<open>
  Both commands hold the same file. The global \<open>Log\<close> is a zap logger (nil before \<open>Init\<close>) with
  the atomic level it shares, and the settings given to rollbar. What \<open>zap.Config.Build\<close> says is
  a parameter of \<open>Init\<close>; a call on the nil logger dereferences it.
\<close>

datatype Level = DebugLevel | InfoLevel | WarnLevel | ErrorLevel | DPanicLevel | PanicLevel | FatalLevel

record RollbarConfig =
  rc_AccessToken :: string
  rc_ServerRoot :: string
  rc_AppEnv :: string
  rc_Version :: string
  rc_ChainIDs :: "string list"

record zap_config =
  zc_OutputPaths :: "string list"
  zc_Encoding :: string
  zc_Level :: Level

record Logger =
  lg_built :: "zap_config option"
  lg_level :: "Level option"
  lg_rollbar :: "RollbarConfig option"
  lg_tee :: bool
  lg_calls :: "(Level \<times> string) list"

definition no_logger :: Logger where
  "no_logger = \<lparr>lg_built = None, lg_level = None, lg_rollbar = None, lg_tee = False, lg_calls = []\<rparr>"

definition getLevel :: "string \<Rightarrow> Level" where
  "getLevel level =
     (let l = ToLower level in
      if l = ''panic'' then PanicLevel
      else if l = ''fatal'' then FatalLevel
      else if l = ''error'' then ErrorLevel
      else if l = ''warn'' \<or> l = ''warning'' then WarnLevel
      else if l = ''info'' then InfoLevel
      else if l = ''debug'' then DebugLevel
      else InfoLevel)"

definition SetLevel :: "string \<Rightarrow> Logger \<Rightarrow> Logger go" where
  "SetLevel logLevel L =
     (case lg_level L of
        None \<Rightarrow> Panic NilDereference
      | Some _ \<Rightarrow> Ret (L\<lparr>lg_level := Some (getLevel logLevel)\<rparr>))"

text \<open>A call of the logger that \<open>Init\<close> installed: a message handed to zap under a level.\<close>

definition log_call :: "Level \<Rightarrow> string \<Rightarrow> Logger \<Rightarrow> Logger go" where
  "log_call lv msg L =
     (case lg_built L of
        None \<Rightarrow> Panic NilDereference
      | Some _ \<Rightarrow> Ret (L\<lparr>lg_calls := lg_calls L @ [(lv, msg)]\<rparr>))"

definition logger_Info :: "string \<Rightarrow> Logger \<Rightarrow> Logger go" where
  "logger_Info msg = log_call InfoLevel msg"

definition logger_Debug :: "string \<Rightarrow> Logger \<Rightarrow> Logger go" where
  "logger_Debug msg = log_call DebugLevel msg"

definition logger_Warn :: "string \<Rightarrow> Logger \<Rightarrow> Logger go" where
  "logger_Warn msg = log_call WarnLevel msg"

definition logger_Fatal :: "string \<Rightarrow> Logger \<Rightarrow> Logger go" where
  "logger_Fatal msg = log_call FatalLevel msg"

text \<open>\<open>err.Error()\<close> is taken first; \<open>None\<close> is the nil error.\<close>

definition logger_Error :: "string option \<Rightarrow> Logger \<Rightarrow> Logger go" where
  "logger_Error err L =
     (case err of None \<Rightarrow> Panic NilDereference | Some msg \<Rightarrow> log_call ErrorLevel msg L)"

text \<open>\<open>GetLogger\<close> gives the zap logger, nil before \<open>Init\<close>; \<open>Field\<close> makes a field of a key and any value; \<open>Sync\<close>
  dereferences the zap logger and drops its error.\<close>

definition GetLogger :: "Logger \<Rightarrow> zap_config option" where
  "GetLogger L = lg_built L"

definition logger_Field :: "(string \<Rightarrow> 'v \<Rightarrow> 'f) \<Rightarrow> string \<Rightarrow> 'v \<Rightarrow> 'f" where
  "logger_Field zap_Any key val = zap_Any key val"

definition logger_Sync :: "Logger \<Rightarrow> Logger go" where
  "logger_Sync L = (case lg_built L of None \<Rightarrow> Panic NilDereference | Some _ \<Rightarrow> Ret L)"

text \<open>Connecting to rollbar, its settings being made: the first five bytes of the token are logged with the new logger.\<close>

definition enable_rollbar :: "RollbarConfig option \<Rightarrow> Logger \<Rightarrow> Logger go" where
  "enable_rollbar rollbarConfig new =
     (case rollbarConfig of
        None \<Rightarrow> Ret new
      | Some rc \<Rightarrow>
          if rc_AccessToken rc = [] then Ret new
          else bind_go (go_slice (rc_AccessToken rc) 0 5) (\<lambda>tok.
            bind_go (log_call InfoLevel ''Enabling rollbar integration'' new) (\<lambda>new.
              Ret (new\<lparr>lg_rollbar := Some rc, lg_tee := True\<rparr>))))"

definition logger_Init :: "(zap_config \<Rightarrow> goerror option) \<Rightarrow> string \<Rightarrow> string \<Rightarrow> string list \<Rightarrow>
    RollbarConfig option \<Rightarrow> Logger \<Rightarrow> goerror option go \<times> Logger" where
  "logger_Init build encoding logLevel logOutputs rollbarConfig L =
     (let lLev = getLevel logLevel;
          cfg = \<lparr>zc_OutputPaths = logOutputs, zc_Encoding = ''json'', zc_Level = lLev\<rparr> in
      case build cfg of
        Some err \<Rightarrow> (Ret (Some err), L)
      | None \<Rightarrow>
          (case enable_rollbar rollbarConfig (L\<lparr>lg_built := Some cfg, lg_level := Some lLev, lg_tee := False\<rparr>) of
             Ret L' \<Rightarrow> (Ret None, L')
           | Fail e \<Rightarrow> (Fail e, L)
           | Panic p \<Rightarrow> (Panic p, L\<lparr>lg_rollbar := rollbarConfig\<rparr>)
           | Blocked \<Rightarrow> (Blocked, L)))"

section \<open>Properties\<close>

text \<open>The names zap gives the levels, in lower and in upper case.\<close>

fun level_name :: "Level \<Rightarrow> string" where
  "level_name DebugLevel = ''debug''"
| "level_name InfoLevel = ''info''"
| "level_name WarnLevel = ''warn''"
| "level_name ErrorLevel = ''error''"
| "level_name DPanicLevel = ''dpanic''"
| "level_name PanicLevel = ''panic''"
| "level_name FatalLevel = ''fatal''"

lemma lower_level_name: "ToLower (level_name l) = level_name l"
  by (cases l) (simp_all add: ToLower_def lower_char_def lower_table_def)

text \<open>
  The name of every level, in any mixture of cases, is read as that level; only the name of
  zap's development panic level is not known and read as the info level.
\<close>

theorem level_names_read_back:
  assumes "ToLower s = ToLower (level_name l)"
  shows "getLevel s = (if l = DPanicLevel then InfoLevel else l)"
proof -
  have "ToLower s = level_name l" using assms by (simp only: lower_level_name)
  then show ?thesis by (cases l) (simp_all add: getLevel_def)
qed

theorem level_names_read_back_witness: "getLevel ''WaRn'' = WarnLevel"
  using level_names_read_back[of "''WaRn''" WarnLevel]
  by (simp add: ToLower_def lower_char_def lower_table_def)

text \<open>
  \<open>Init\<close> installs no logger when zap refuses the configuration, and none when it panics, which
  it does on a rollbar token of one to four bytes (rollbar itself has its settings by then). Otherwise it installs a logger at the given
  level, always with the JSON encoding, and connects it to rollbar exactly when a token is given.
\<close>

theorem logger_Init_result:
  "let cfg = \<lparr>zc_OutputPaths = outs, zc_Encoding = ''json'', zc_Level = getLevel level\<rparr>;
       token = (case rc of None \<Rightarrow> [] | Some c \<Rightarrow> rc_AccessToken c);
       res = logger_Init build encoding level outs rc L in
   case build cfg of
     Some e \<Rightarrow> res = (Ret (Some e), L)
   | None \<Rightarrow>
       if token \<noteq> [] \<and> length token < 5 then res = (Panic SliceOutOfRange, L\<lparr>lg_rollbar := rc\<rparr>)
       else fst res = Ret None \<and> lg_built (snd res) = Some cfg \<and> lg_level (snd res) = Some (getLevel level) \<and>
         (lg_tee (snd res) \<longleftrightarrow> token \<noteq> []) \<and> (token \<noteq> [] \<longrightarrow> lg_rollbar (snd res) = rc)"
proof (cases "build \<lparr>zc_OutputPaths = outs, zc_Encoding = ''json'', zc_Level = getLevel level\<rparr>")
  case None
  then show ?thesis
    by (cases rc) (auto simp: logger_Init_def enable_rollbar_def go_slice_def log_call_def Let_def)
qed (simp add: logger_Init_def Let_def)

definition short_token :: RollbarConfig where
  "short_token = \<lparr>rc_AccessToken = ''abc'', rc_ServerRoot = [], rc_AppEnv = [], rc_Version = [], rc_ChainIDs = []\<rparr>"

theorem logger_Init_result_witness:
  "fst (logger_Init (\<lambda>c. None) ''console'' ''debug'' [''stderr''] (Some short_token) no_logger) = Panic SliceOutOfRange"
  using logger_Init_result[of "[''stderr'']" "''debug''" "Some short_token" "\<lambda>c. None" "''console''" no_logger]
  by (simp add: Let_def short_token_def)

end
