(* ===== verification/Migration.thy ===== *)
theory Migration
  imports Account Block_And_Tx
begin

section \<open>The data migration (cmd/data-migration/0001-migration-ext-id)\<close>

text \<open>
  The command gives the events of stored transactions the ids of their extrinsics, height by
  height. The state is what the node does (\<open>mg_io\<close>), the metadata store, and the updates
  executed on the database, in order. The database's answers, JSON and the node's slowness
  are in \<open>mig_env\<close>. \<open>sort.Slice\<close> is the insertion sort it uses for short slices, comparing
  from the right; what it does with a panic of the comparison is the same for any algorithm.
\<close>

record row =
  mr_id :: string
  mr_tx :: Transaction

definition ErrNoRows :: goerror where
  "ErrNoRows = Errors_New ''sql: no rows in result set''"

record ('d, 'v, 'c) mig_env =
  mi_lru :: "'c lru"
  mi_query :: "string \<Rightarrow> string \<Rightarrow> u64 \<Rightarrow> goerror + (goerror + row) list"
  mi_marshal :: "TransactionEvent list \<Rightarrow> goerror + string"
  mi_exec :: "string \<Rightarrow> string \<Rightarrow> goerror option"
  mi_codecs :: codecs
  mi_process :: "string \<Rightarrow> (goerror + 'd) lib"
  mi_decode :: "string \<Rightarrow> 'd \<Rightarrow> int \<Rightarrow> 'v ExtrinsicDecoder lib"
  mi_slow :: "nat \<Rightarrow> bool"

record ('d, 'c) mig =
  mg_io :: "'c io"
  mg_ds :: "'d DecodeStorage"
  mg_updates :: "(string \<times> string) list"

type_synonym ('a, 'd, 'c) mact = "('d, 'c) mig \<Rightarrow> 'a go \<times> ('d, 'c) mig"

definition mret :: "'a \<Rightarrow> ('a, 'd, 'c) mact" where
  "mret x s = (Ret x, s)"

definition mlift :: "'a go \<Rightarrow> ('a, 'd, 'c) mact" where
  "mlift m s = (m, s)"

definition mthen :: "('a, 'd, 'c) mact \<Rightarrow> ('a \<Rightarrow> ('b, 'd, 'c) mact) \<Rightarrow> ('b, 'd, 'c) mact" where
  "mthen m f s =
     (case m s of
        (Ret x, s') \<Rightarrow> f x s'
      | (Fail e, s') \<Rightarrow> (Fail e, s')
      | (Panic p, s') \<Rightarrow> (Panic p, s')
      | (Blocked, s') \<Rightarrow> (Blocked, s'))"

definition on_io :: "('a, 'c) act \<Rightarrow> ('a, 'd, 'c) mact" where
  "on_io m s = (case m (mg_io s) of (r, io) \<Rightarrow> (r, s\<lparr>mg_io := io\<rparr>))"

subsection \<open>Rows\<close>

fun scan_rows :: "(goerror + row) list \<Rightarrow> row list go" where
  "scan_rows [] = Ret []"
| "scan_rows (Inl err # rows) = Fail err"
| "scan_rows (Inr r # rows) = fmap_go ((#) r) (scan_rows rows)"

text \<open>\<open>json.Marshal\<close>, then the UPDATE of one row.\<close>

definition update_row :: "('d, 'v, 'c) mig_env \<Rightarrow> string \<Rightarrow> TransactionEvent list \<Rightarrow> (unit, 'd, 'c) mact" where
  "update_row E id1 events s =
     (case mi_marshal E events of
        Inl err \<Rightarrow> (Fail err, s)
      | Inr evts \<Rightarrow>
          (case mi_exec E evts id1 of
             Some err \<Rightarrow> (Fail err, s)
           | None \<Rightarrow> (Ret (), s\<lparr>mg_updates := mg_updates s @ [(id1, evts)]\<rparr>)))"

text \<open>A lone row: its first event gets the id of the first extrinsic.\<close>

definition singular_update :: "('d, 'v, 'c) mig_env \<Rightarrow> u64 \<Rightarrow> row \<Rightarrow> (row, 'd, 'c) mact" where
  "singular_update E height r =
     (case tx_Events (mr_tx r) of
        [] \<Rightarrow> mlift (Panic IndexOutOfRange)
      | ev # evs \<Rightarrow>
          (let events = ev\<lparr>te_ID := dash_id height 0\<rparr> # evs in
           mthen (update_row E (mr_id r) events) (\<lambda>_.
             mret (r\<lparr>mr_tx := (mr_tx r)\<lparr>tx_Events := events\<rparr>\<rparr>))))"

text \<open>\<open>strconv.ParseInt(s, 10, 64)\<close>; its error is only tested.\<close>

definition ParseInt :: "string \<Rightarrow> int option" where
  "ParseInt s = (case parse_int 10 s of
     Some i \<Rightarrow> if - (2 ^ 63) \<le> i \<and> i < 2 ^ 63 then Some i else None | None \<Rightarrow> None)"

text \<open>\<open>strings.Split(t.Events[0].Sub[0].ID, "-")\<close>.\<close>

definition sub_id_parts :: "row \<Rightarrow> string list go" where
  "sub_id_parts r =
     bind_go (go_index (tx_Events (mr_tx r)) 0) (\<lambda>ev.
     bind_go (go_index (te_Sub ev) 0) (\<lambda>sub. Ret (Split CHR ''-'' (se_ID sub))))"

definition less_row :: "row \<Rightarrow> row \<Rightarrow> bool go" where
  "less_row ri rj =
     bind_go (sub_id_parts ri) (\<lambda>ev1.
     bind_go (sub_id_parts rj) (\<lambda>ev2.
     bind_go (go_index ev1 1) (\<lambda>s1.
     bind_go (go_index ev2 1) (\<lambda>s2.
       Ret (case (ParseInt s1, ParseInt s2) of (Some val1, Some val2) \<Rightarrow> val1 < val2 | _ \<Rightarrow> False)))))"

text \<open>The insertion sort: \<open>done\<close> is the sorted part, last element first.\<close>

fun insert_back :: "('a \<Rightarrow> 'a \<Rightarrow> bool go) \<Rightarrow> 'a \<Rightarrow> 'a list \<Rightarrow> 'a list go" where
  "insert_back lt x [] = Ret [x]"
| "insert_back lt x (y # ys) =
     bind_go (lt x y) (\<lambda>b. if b then fmap_go ((#) y) (insert_back lt x ys) else Ret (x # y # ys))"

fun sort_loop :: "('a \<Rightarrow> 'a \<Rightarrow> bool go) \<Rightarrow> 'a list \<Rightarrow> 'a list \<Rightarrow> 'a list go" where
  "sort_loop lt sorted_rev [] = Ret (rev sorted_rev)"
| "sort_loop lt sorted_rev (x # xs) =
     bind_go (insert_back lt x sorted_rev) (\<lambda>ys. sort_loop lt ys xs)"

definition sort_Slice :: "('a \<Rightarrow> 'a \<Rightarrow> bool go) \<Rightarrow> 'a list \<Rightarrow> 'a list go" where
  "sort_Slice lt xs = sort_loop lt [] xs"

definition prepare_rows :: "('d, 'v, 'c) mig_env \<Rightarrow> u64 \<Rightarrow> row list \<Rightarrow> (row list, 'd, 'c) mact" where
  "prepare_rows E height rows =
     (case rows of
        [r] \<Rightarrow> mthen (singular_update E height r) (\<lambda>r. mret [r])
      | _ \<Rightarrow> mlift (sort_Slice less_row rows))"

subsection \<open>What the node says\<close>

text \<open>A request whose error is not looked at.\<close>

definition send_ignored :: "u64 \<Rightarrow> string \<Rightarrow> rpc_param list option \<Rightarrow> (unit, 'c) act" where
  "send_ignored rid method params s = (Ret (), snd (send_rpc rid method params s))"

definition node_reply :: "codecs \<Rightarrow> Response \<Rightarrow> PolkaRuntimeVersion \<times> PolkaBlock \<Rightarrow>
    (PolkaRuntimeVersion \<times> PolkaBlock) go" where
  "node_reply C resp acc =
     (case acc of (prm, block) \<Rightarrow>
      (case rp_Error resp of
        Some e \<Rightarrow> Fail (Errorf ''response from ws is wrong: %s '' [AErr e])
      | None \<Rightarrow>
          if rp_Result resp = [] then Fail (Errors_New ''response from ws is empty'')
          else if rp_Type resp = ''state_getRuntimeVersion'' then
            (case cd_runtime C (rp_Result resp) prm of
               (Some err, _) \<Rightarrow> Fail (Errors_New ''wrong data returned state_getRuntimeVersion'')
             | (None, prm) \<Rightarrow> Ret (prm, block))
          else if rp_Type resp = ''chain_getBlock'' then
            (case cd_block C (rp_Result resp) block of
               (Some err, _) \<Rightarrow> Fail (Errors_New ''wrong data returned state_getRuntimeVersion'')
             | (None, block) \<Rightarrow> Ret (prm, block))
          else Fail (Errors_New ''wrong data returned'')))"

fun node_loop :: "('d, 'v, 'c) mig_env \<Rightarrow> nat \<Rightarrow> PolkaRuntimeVersion \<times> PolkaBlock \<Rightarrow>
    (PolkaRuntimeVersion \<times> PolkaBlock, 'c) act" where
  "node_loop E 0 acc = ret acc"
| "node_loop E (Suc n) acc =
     andthen (wait30 (mi_slow E n)) (\<lambda>r.
       case r of
         None \<Rightarrow> fail (Errors_New ''timeout on state_getRuntimeVersion after 30 seconds'')
       | Some resp \<Rightarrow> andthen (lift_go (node_reply (mi_codecs E) resp acc)) (\<lambda>acc. node_loop E n acc))"

definition mig_GetMetadata :: "('d, 'v, 'c) mig_env \<Rightarrow> string \<Rightarrow> PolkaRuntimeVersion \<Rightarrow>
    ('d MDecoder, 'd, 'c) mact" where
  "mig_GetMetadata E blockHash prm s =
     (case wrap_err ''error while getting metadata: %w''
             (GetMetadata (mi_process E) blockHash (prv_SpecName prm) (prv_SpecVersion prm) (mg_ds s)) (mg_io s) of
        (r, io) \<Rightarrow>
          (fmap_go fst r,
           s\<lparr>mg_io := io, mg_ds := (case r of Ret (m, ds) \<Rightarrow> ds | _ \<Rightarrow> mg_ds s)\<rparr>))"

text \<open>The raw extrinsics of the block at a height.\<close>

definition node_extrinsics :: "('d, 'v, 'c) mig_env \<Rightarrow> u64 \<Rightarrow> ('v ScaleExtrinsic list, 'd, 'c) mact" where
  "node_extrinsics E height =
     mthen (on_io (wrap_err ''error unmarshaling block data: %w'' (GetBlockHashes (mi_lru E) height)))
       (\<lambda>(blH, _, gpBLH).
     mthen (on_io (send_ignored 1234 ''state_getRuntimeVersion'' (Some [PStr blH]))) (\<lambda>_.
     mthen (on_io (send_ignored 2345 ''chain_getBlock'' (Some [PStr blH]))) (\<lambda>_.
     mthen (on_io (node_loop E 2 (zero_runtime, zero_block))) (\<lambda>(prm, block).
     mthen (mig_GetMetadata E gpBLH prm) (\<lambda>meta.
       case GetTransactionsForHeight (mi_decode E) block meta (sint (prv_SpecVersion prm)) of
         (_, Some err) \<Rightarrow> mlift (Fail (Wrapf ''error getTransactionsForHeight: %w'' [] err))
       | (txs, None) \<Rightarrow> mret txs)))))"

subsection \<open>Pairing and storing\<close>

text \<open>An event the candidate's module matches.\<close>

definition matches_candidate :: "'v ScaleExtrinsic \<Rightarrow> TransactionEvent \<Rightarrow> bool" where
  "matches_candidate candidateTx ev \<longleftrightarrow>
     ToLower (sx_CallModuleName candidateTx) = te_Module ev \<and> te_Kind ev = ''Extrinsic''"

definition pair_row :: "u64 \<Rightarrow> 'v ScaleExtrinsic list \<Rightarrow> nat \<Rightarrow> row \<Rightarrow> row go" where
  "pair_row height txs k r =
     bind_go (find_extrinsic (tx_Hash (mr_tx r)) 0 txs) (\<lambda>found.
       case found of
         Some extIndex \<Rightarrow> Ret (r\<lparr>mr_tx := set_event_ids height extIndex (mr_tx r)\<rparr>)
       | None \<Rightarrow>
           if length txs \<ge> k + 1 \<and> list_ex (matches_candidate (txs ! k)) (tx_Events (mr_tx r))
           then Ret (r\<lparr>mr_tx := set_candidate_ids height k (txs ! k) (mr_tx r)\<rparr>)
           else Fail (Errorf ''fatal error on height %s'' [AStr (show_u64 height)]))"

fun pair_rows :: "u64 \<Rightarrow> 'v ScaleExtrinsic list \<Rightarrow> nat \<Rightarrow> row list \<Rightarrow> row list go" where
  "pair_rows height txs k [] = Ret []"
| "pair_rows height txs k (r # rows) =
     bind_go (pair_row height txs k r) (\<lambda>r'. fmap_go ((#) r') (pair_rows height txs (Suc k) rows))"

fun update_rows :: "('d, 'v, 'c) mig_env \<Rightarrow> row list \<Rightarrow> (unit, 'd, 'c) mact" where
  "update_rows E [] = mret ()"
| "update_rows E (r # rows) =
     mthen (update_row E (mr_id r) (tx_Events (mr_tx r))) (\<lambda>_. update_rows E rows)"

definition getTransaction :: "('d, 'v, 'c) mig_env \<Rightarrow> string \<Rightarrow> string \<Rightarrow> u64 \<Rightarrow> (unit, 'd, 'c) mact" where
  "getTransaction E network chain height =
     (case mi_query E network chain height of
        Inl err \<Rightarrow> mlift (Fail (if err = ErrNoRows then ErrNoRows else Wrapf ''query error: %w'' [] err))
      | Inr rows \<Rightarrow>
          mthen (mlift (scan_rows rows)) (\<lambda>initTxs.
            if initTxs = [] then mret ()
            else
              mthen (prepare_rows E height initTxs) (\<lambda>initTxs.
              mthen (node_extrinsics E height) (\<lambda>txs.
              mthen (mlift (pair_rows height txs 0 initTxs)) (\<lambda>initTxs.
                update_rows E initTxs)))))"

subsection \<open>The loop over the heights\<close>

lemma next_height:
  fixes i k :: u64
  assumes "i < k"
  shows "unat (i + 1) = Suc (unat i)"
proof -
  have "unat k < 2 ^ 64" using unsigned_less[of k] by simp
  with assms have "Suc (unat i) < 2 ^ 64" unfolding word_less_nat_alt by linarith
  then show ?thesis by (simp add: unat_word_ariths)
qed

lemma height_measure:
  fixes i k :: u64
  assumes "i < k"
  shows "unat k - unat (i + 1) < unat k - unat i"
  using assms next_height[OF assms] by (simp add: word_less_nat_alt)

text \<open>\<open>for i := from; i < to+1; i++\<close> on 64 bits; \<open>step\<close> is the body's call.\<close>

function height_loop :: "(u64 \<Rightarrow> (unit, 'd, 'c) mact) \<Rightarrow> u64 \<Rightarrow> u64 \<Rightarrow> (unit, 'd, 'c) mact" where
  "height_loop step i to1 s =
     (if i < to1 + 1
      then (case step i s of
              (Ret _, s') \<Rightarrow> height_loop step (i + 1) to1 s'
            | (Fail err, s') \<Rightarrow> if err \<noteq> ErrNoRows then (Fail err, s') else height_loop step (i + 1) to1 s'
            | (Panic p, s') \<Rightarrow> (Panic p, s')
            | (Blocked, s') \<Rightarrow> (Blocked, s'))
      else (Ret (), s))"
  by pat_completeness auto
termination
  by (relation "measure (\<lambda>(step, i, to1, s). unat (to1 + 1) - unat i)")
    (simp_all add: height_measure)

declare height_loop.simps [simp del]

definition getTransactions :: "('d, 'v, 'c) mig_env \<Rightarrow> string \<Rightarrow> string \<Rightarrow> u64 \<Rightarrow> u64 \<Rightarrow> (unit, 'd, 'c) mact" where
  "getTransactions E network chain from1 to1 = height_loop (getTransaction E network chain) from1 to1"

section \<open>Evaluation of steps\<close>

lemma mthen_Ret: "m s = (Ret x, s') \<Longrightarrow> mthen m f s = f x s'"
  by (simp add: mthen_def)

lemma mthen_eq_Ret: "mthen m f s = (Ret y, s'') \<longleftrightarrow> (\<exists>x s'. m s = (Ret x, s') \<and> f x s' = (Ret y, s''))"
  by (auto simp: mthen_def split: prod.splits go.splits)

lemma mlift_eq_Ret [simp]: "mlift m s = (Ret x, s') \<longleftrightarrow> m = Ret x \<and> s' = s"
  by (auto simp: mlift_def)

lemma mret_eq [simp]: "mret x s = (r, s') \<longleftrightarrow> r = Ret x \<and> s' = s"
  by (auto simp: mret_def)

text \<open>Steps that leave the database alone, also when they fail.\<close>

definition no_updates :: "('a, 'd, 'c) mact \<Rightarrow> bool" where
  "no_updates m \<longleftrightarrow> (\<forall>s. mg_updates (snd (m s)) = mg_updates s)"

lemma no_updatesD: "no_updates m \<Longrightarrow> m s = (r, s') \<Longrightarrow> mg_updates s' = mg_updates s"
  by (metis no_updates_def snd_conv)

lemma no_updates_mthen:
  "no_updates m \<Longrightarrow> (\<And>x. no_updates (f x)) \<Longrightarrow> no_updates (mthen m f)"
  by (auto simp: no_updates_def mthen_def split: prod.split go.split) (metis snd_conv)+

lemma no_updates_basic [intro]:
  "no_updates (mlift m)" "no_updates (mret x)" "no_updates (on_io a)" "no_updates (mig_GetMetadata E bh prm)"
  by (auto simp: no_updates_def mlift_def mret_def on_io_def mig_GetMetadata_def split: prod.split)

lemma no_updates_node: "no_updates (node_extrinsics E height)"
  unfolding node_extrinsics_def
  by (auto intro!: no_updates_mthen split: prod.split option.split)

section \<open>The sort\<close>

lemma insert_back_mset: "insert_back lt x ys = Ret zs \<Longrightarrow> mset zs = add_mset x (mset ys)"
  by (induction ys arbitrary: zs) (auto split: if_splits)

lemma sort_loop_mset: "sort_loop lt acc xs = Ret zs \<Longrightarrow> mset zs = mset acc + mset xs"
  by (induction xs arbitrary: acc) (auto dest!: insert_back_mset)

definition keyed :: "('a \<Rightarrow> 'a \<Rightarrow> bool go) \<Rightarrow> ('a \<Rightarrow> int) \<Rightarrow> 'a set \<Rightarrow> bool" where
  "keyed lt key S \<longleftrightarrow> (\<forall>x \<in> S. \<forall>y \<in> S. lt x y = Ret (key x < key y))"

lemma insert_back_sorted:
  assumes "keyed lt key (insert x (set ys))" and "sorted_wrt (\<lambda>a b. key b \<le> key a) ys"
  shows "\<exists>zs. insert_back lt x ys = Ret zs \<and> sorted_wrt (\<lambda>a b. key b \<le> key a) zs"
  using assms
proof (induction ys)
  case (Cons y ys)
  have k: "lt x y = Ret (key x < key y)" "keyed lt key (insert x (set ys))"
    using Cons.prems(1) by (auto simp: keyed_def)
  from Cons.IH[OF k(2)] Cons.prems(2) obtain zs where
    zs: "insert_back lt x ys = Ret zs" "sorted_wrt (\<lambda>a b. key b \<le> key a) zs" by auto
  then have "set zs = insert x (set ys)" using insert_back_mset[OF zs(1)] by (metis set_mset_add_mset_insert set_mset_mset)
  with zs Cons.prems(2) k(1) show ?case by auto
qed simp

lemma sort_loop_sorted:
  assumes "keyed lt key (set acc \<union> set xs)" and "sorted_wrt (\<lambda>a b. key b \<le> key a) acc"
  shows "\<exists>zs. sort_loop lt acc xs = Ret zs \<and> sorted (map key zs)"
  using assms
proof (induction xs arbitrary: acc)
  case Nil
  then show ?case by (auto simp: sorted_wrt_rev sorted_map)
next
  case (Cons x xs)
  have "keyed lt key (insert x (set acc))" using Cons.prems(1) by (auto simp: keyed_def)
  from insert_back_sorted[OF this Cons.prems(2)] obtain ys where
    ys: "insert_back lt x acc = Ret ys" "sorted_wrt (\<lambda>a b. key b \<le> key a) ys" by blast
  have "set ys = insert x (set acc)"
    using insert_back_mset[OF ys(1)] by (metis set_mset_add_mset_insert set_mset_mset)
  with Cons.prems(1) have "keyed lt key (set ys \<union> set xs)" by (simp add: insert_commute)
  from Cons.IH[OF this ys(2)] ys(1) show ?case by simp
qed

text \<open>The position a row's first event names in the id of its first part.\<close>

definition names_position :: "row \<Rightarrow> int \<Rightarrow> bool" where
  "names_position r n \<longleftrightarrow> (\<exists>ps s. sub_id_parts r = Ret ps \<and> go_index ps 1 = Ret s \<and> ParseInt s = Some n)"

lemma less_row_positions:
  "names_position r n \<Longrightarrow> names_position q m \<Longrightarrow> less_row r q = Ret (n < m)"
  by (auto simp: names_position_def less_row_def)

text \<open>
  When the first event of every row names a position, \<open>sort.Slice\<close> returns the rows of the
  height, each exactly once, in the order of their positions.
\<close>

theorem rows_sorted_by_position:
  assumes "\<forall>r \<in> set rows. names_position r (pos r)"
  shows "\<exists>sorted_rows. sort_Slice less_row rows = Ret sorted_rows \<and> mset sorted_rows = mset rows \<and>
    sorted (map pos sorted_rows)"
proof -
  have "keyed less_row pos (set [] \<union> set rows)"
    using assms less_row_positions by (simp add: keyed_def)
  from sort_loop_sorted[OF this] obtain zs where "sort_loop less_row [] rows = Ret zs" "sorted (map pos zs)"
    by auto
  with sort_loop_mset[of less_row "[]" rows zs] show ?thesis by (simp add: sort_Slice_def)
qed

definition sub_row :: "string \<Rightarrow> string \<Rightarrow> string \<Rightarrow> row" where
  "sub_row rid hash sub = \<lparr>mr_id = rid, mr_tx = zero_transaction\<lparr>tx_Hash := hash, tx_Events :=
     [\<lparr>te_ID = [], te_Kind = ''Extrinsic'', te_Module = ''timestamp'', te_Type = [],
       te_Sub = [zero_subset_event\<lparr>se_ID := sub\<rparr>]\<rparr>]\<rparr>\<rparr>"

lemma sub_row_position: "ParseInt s = Some n \<Longrightarrow> CHR ''-'' \<notin> set h \<Longrightarrow> CHR ''-'' \<notin> set s \<Longrightarrow>
    names_position (sub_row rid hash (h @ CHR ''-'' # s)) n"
  by (auto simp: names_position_def sub_row_def sub_id_parts_def go_index_def
      Split_append_sep[of "CHR ''-''"] Split_no_sep)

theorem rows_sorted_by_position_witness:
  "\<exists>sorted_rows. sort_Slice less_row [sub_row ''a'' [] ''7-2'', sub_row ''b'' [] ''7-1''] = Ret sorted_rows \<and>
    length sorted_rows = 2"
proof -
  have p: "ParseInt ''2'' = Some 2" "ParseInt ''1'' = Some 1"
    by (simp_all add: ParseInt_def parse_int_def parse_nat_def digit_val_def digit_table_def)
  have "names_position (sub_row ''a'' [] ''7-2'') 2" "names_position (sub_row ''b'' [] ''7-1'') 1"
    using sub_row_position[OF p(1), of "''7''"] sub_row_position[OF p(2), of "''7''"] by simp_all
  then have "\<forall>r \<in> set [sub_row ''a'' [] ''7-2'', sub_row ''b'' [] ''7-1''].
      names_position r (if mr_id r = ''a'' then 2 else 1)"
    by (simp add: sub_row_def)
  from rows_sorted_by_position[OF this] show ?thesis
    by (metis length_Cons list.size(3) numeral_2_eq_2 size_mset)
qed

section \<open>One height\<close>

lemma scan_rows_Inr [simp]: "scan_rows (map Inr rows) = Ret rows"
  by (induction rows) auto

lemma update_row_Ret:
  "update_row E rid events s = (Ret u, s') \<longleftrightarrow>
     (\<exists>evts. mi_marshal E events = Inr evts \<and> mi_exec E evts rid = None \<and>
       s' = s\<lparr>mg_updates := mg_updates s @ [(rid, evts)]\<rparr>)"
  by (auto simp: update_row_def split: sum.splits option.splits)

lemma update_rows_Ret:
  "update_rows E rows s = (Ret u, s') \<Longrightarrow>
     \<exists>evts. list_all2 (\<lambda>r e. mi_marshal E (tx_Events (mr_tx r)) = Inr e \<and> mi_exec E e (mr_id r) = None) rows evts \<and>
       mg_updates s' = mg_updates s @ zip (map mr_id rows) evts"
proof (induction rows arbitrary: s)
  case (Cons r rows)
  then obtain e where e: "mi_marshal E (tx_Events (mr_tx r)) = Inr e" "mi_exec E e (mr_id r) = None"
    "update_rows E rows (s\<lparr>mg_updates := mg_updates s @ [(mr_id r, e)]\<rparr>) = (Ret u, s')"
    by (auto simp: mthen_eq_Ret update_row_Ret)
  from Cons.IH[OF e(3)] e(1,2) show ?case by (auto simp: list_all2_Cons1)
qed simp

lemma update_rows_prefix: "\<exists>us. mg_updates (snd (update_rows E rows s)) = mg_updates s @ us"
proof (induction rows arbitrary: s)
  case (Cons r rows)
  show ?case
  proof (cases "update_row E (mr_id r) (tx_Events (mr_tx r)) s")
    case (Pair x s1)
    then have s1: "mg_updates s1 = mg_updates s \<or> (\<exists>u. mg_updates s1 = mg_updates s @ [u])"
      by (auto simp: update_row_def split: sum.splits option.splits)
    with Cons.IH[of s1] Pair show ?thesis by (cases x) (auto simp: mthen_def)
  qed
qed (auto simp: mret_def)

lemma pair_rows_ids:
  "pair_rows height txs k rows = Ret paired \<Longrightarrow> map mr_id paired = map mr_id rows"
proof (induction rows arbitrary: k paired)
  case (Cons r rows)
  then show ?case
    by (auto simp: pair_row_def split: option.splits if_splits)
qed simp

lemma prepare_many: "2 \<le> length rows \<Longrightarrow> prepare_rows E height rows = mlift (sort_Slice less_row rows)"
  by (cases rows rule: remdups_adj.cases) (simp_all add: prepare_rows_def)

lemma getTransaction_many:
  assumes "mi_query E network chain height = Inr (map Inr rows)" and "2 \<le> length rows"
  shows "getTransaction E network chain height =
    mthen (mlift (sort_Slice less_row rows)) (\<lambda>rows. mthen (node_extrinsics E height) (\<lambda>txs.
      mthen (mlift (pair_rows height txs 0 rows)) (update_rows E)))"
proof -
  have "rows \<noteq> []" using assms(2) by auto
  then show ?thesis
    by (intro ext) (simp add: getTransaction_def assms(1) mthen_Ret[of "mlift (Ret rows)"] mlift_def
        prepare_many[OF assms(2)])
qed

text \<open>
  C11: When a height with several rows is migrated without an error, every row of it was updated
  exactly once, in the order \<open>sort.Slice\<close> gave them, with the JSON of its events after pairing
  them with the extrinsics of the node's block; nothing else was written.
\<close>

theorem height_migrated:
  assumes "mi_query E network chain height = Inr (map Inr rows)" and "2 \<le> length rows"
    and "getTransaction E network chain height s = (Ret (), s')"
  shows "\<exists>sorted_rows txs paired evts. sort_Slice less_row rows = Ret sorted_rows \<and>
    pair_rows height txs 0 sorted_rows = Ret paired \<and> fst (node_extrinsics E height s) = Ret txs \<and>
    mset (map mr_id paired) = mset (map mr_id rows) \<and>
    list_all2 (\<lambda>r e. mi_marshal E (tx_Events (mr_tx r)) = Inr e) paired evts \<and>
    mg_updates s' = mg_updates s @ zip (map mr_id paired) evts"
proof -
  from assms(3) obtain sorted_rows txs s1 paired where
    st: "sort_Slice less_row rows = Ret sorted_rows" and nx: "node_extrinsics E height s = (Ret txs, s1)"
    and pr: "pair_rows height txs 0 sorted_rows = Ret paired" and up: "update_rows E paired s1 = (Ret (), s')"
    by (auto simp: getTransaction_many[OF assms(1,2)] mthen_eq_Ret)
  from update_rows_Ret[OF up] no_updatesD[OF no_updates_node nx] obtain evts where
    "list_all2 (\<lambda>r e. mi_marshal E (tx_Events (mr_tx r)) = Inr e \<and> mi_exec E e (mr_id r) = None) paired evts"
    "mg_updates s' = mg_updates s @ zip (map mr_id paired) evts" by auto
  moreover have "mset sorted_rows = mset rows"
    using st sort_loop_mset[of less_row "[]" rows] by (simp add: sort_Slice_def)
  then have "mset (map mr_id paired) = mset (map mr_id rows)"
    by (simp only: pair_rows_ids[OF pr] mset_map)
  ultimately show ?thesis using st nx pr by (auto elim: list_all2_mono)
qed

lemma pair_rows_unmatched:
  assumes "\<forall>r \<in> set rows. 2 \<le> length (tx_Hash (mr_tx r))" and "i < length rows"
    and "drop 2 (tx_Hash (mr_tx (rows ! i))) \<notin> sx_ExtrinsicHash ` set txs"
    and "k + i < length txs \<longrightarrow> \<not> list_ex (matches_candidate (txs ! (k + i))) (tx_Events (mr_tx (rows ! i)))"
  shows "\<exists>e. pair_rows height txs k rows = Fail e"
  using assms
proof (induction rows arbitrary: k i)
  case (Cons r rows)
  have h: "2 \<le> length (tx_Hash (mr_tx r))" using Cons.prems(1) by simp
  show ?case
  proof (cases i)
    case 0
    with Cons.prems have "find_extrinsic (tx_Hash (mr_tx r)) 0 txs = Ret None"
      by (intro find_extrinsic_missing) simp_all
    with 0 Cons.prems(4) show ?thesis by (auto simp: pair_row_def)
  next
    case (Suc j)
    obtain f where f: "find_extrinsic (tx_Hash (mr_tx r)) 0 txs = Ret f"
      using find_extrinsic_spec[OF h] by blast
    from Cons.IH[of j "Suc k"] Cons.prems Suc obtain e where "pair_rows height txs (Suc k) rows = Fail e"
      by auto
    with f show ?thesis by (cases f) (auto simp: pair_row_def)
  qed
qed simp

text \<open>
  C29: When a height has two rows or more, and the hash of one of them is not among the block's extrinsics and no event of it
  fits the extrinsic at its position, the height fails and none of its rows is written. (A single
  row is written before the pairing, \<open>single_row_written_first\<close>.)
\<close>

theorem unpaired_height_untouched:
  assumes "mi_query E network chain height = Inr (map Inr rows)" and "2 \<le> length rows"
    and "sort_Slice less_row rows = Ret sorted_rows" and "node_extrinsics E height s = (Ret txs, s1)"
    and "\<forall>r \<in> set rows. 2 \<le> length (tx_Hash (mr_tx r))" and "i < length rows"
    and "drop 2 (tx_Hash (mr_tx (sorted_rows ! i))) \<notin> sx_ExtrinsicHash ` set txs"
    and "i < length txs \<longrightarrow> \<not> list_ex (matches_candidate (txs ! i)) (tx_Events (mr_tx (sorted_rows ! i)))"
  shows "\<exists>e s'. getTransaction E network chain height s = (Fail e, s') \<and> mg_updates s' = mg_updates s"
proof -
  have m: "mset sorted_rows = mset rows"
    using assms(3) sort_loop_mset[of less_row "[]" rows] by (simp add: sort_Slice_def)
  then have "set sorted_rows = set rows" "length sorted_rows = length rows"
    by (metis set_mset_mset) (metis m size_mset)
  with assms(5-8) obtain e where "pair_rows height txs 0 sorted_rows = Fail e"
    using pair_rows_unmatched[of sorted_rows i txs 0 height] by auto
  moreover have "mg_updates s1 = mg_updates s" by (rule no_updatesD[OF no_updates_node assms(4)])
  ultimately show ?thesis
    by (simp add: getTransaction_many[OF assms(1,2)] assms(3,4) mthen_def mlift_def)
qed

text \<open>
  A height with a single row is written before the node is asked anything: its first event
  gets the id of extrinsic 0 in the database whatever the node then says, and when the node
  answers too the row is written a second time.
\<close>

theorem single_row_written_first:
  assumes "mi_query E network chain height = Inr [Inr r]" and "tx_Events (mr_tx r) = ev # evs"
    and "mi_marshal E (ev\<lparr>te_ID := dash_id height 0\<rparr> # evs) = Inr e" and "mi_exec E e (mr_id r) = None"
  shows "\<exists>us. mg_updates (snd (getTransaction E network chain height s)) = mg_updates s @ (mr_id r, e) # us \<and>
    (fst (getTransaction E network chain height s) = Ret () \<longrightarrow> map fst us = [mr_id r])"
proof -
  let ?r = "r\<lparr>mr_tx := (mr_tx r)\<lparr>tx_Events := ev\<lparr>te_ID := dash_id height 0\<rparr> # evs\<rparr>\<rparr>"
  let ?s = "s\<lparr>mg_updates := mg_updates s @ [(mr_id r, e)]\<rparr>"
  let ?rest = "mthen (node_extrinsics E height) (\<lambda>txs. mthen (mlift (pair_rows height txs 0 [?r])) (update_rows E))"
  have p: "prepare_rows E height [r] s = (Ret [?r], ?s)"
    by (simp add: prepare_rows_def singular_update_def assms(2-4) mthen_def update_row_def mret_def Let_def)
  have "scan_rows [Inr r] = Ret [r]" by simp
  then have g: "getTransaction E network chain height s = ?rest ?s"
    by (simp add: getTransaction_def assms(1) mthen_Ret[where m = "prepare_rows E height [r]", OF p] mthen_Ret[of "mlift (Ret [r])" s "[r]" s] mlift_def)
  obtain x s1 where n: "node_extrinsics E height ?s = (x, s1)" by (cases "node_extrinsics E height ?s")
  have u1: "mg_updates s1 = mg_updates s @ [(mr_id r, e)]"
    using no_updatesD[OF no_updates_node n] by simp
  have "\<exists>us. mg_updates (snd (?rest ?s)) = mg_updates s1 @ us \<and>
      (fst (?rest ?s) = Ret () \<longrightarrow> map fst us = [mr_id r])"
  proof (cases x)
    case (Ret txs)
    show ?thesis
    proof (cases "pair_rows height txs 0 [?r]")
      case (Ret paired)
      have ids: "map mr_id paired = [mr_id r]" using pair_rows_ids[OF Ret] by simp
      obtain us where us: "mg_updates (snd (update_rows E paired s1)) = mg_updates s1 @ us"
        using update_rows_prefix by blast
      have "map fst us = [mr_id r]" if "fst (update_rows E paired s1) = Ret ()"
      proof -
        from that have "update_rows E paired s1 = (Ret (), snd (update_rows E paired s1))"
          by (metis prod.collapse)
        from update_rows_Ret[OF this] us ids show ?thesis
          by (auto dest!: list_all2_lengthD simp: map_fst_zip)
      qed
      with us n Ret \<open>x = Ret txs\<close> show ?thesis by (auto simp: mthen_def mlift_def)
    qed (use n Ret in \<open>auto simp: mthen_def mlift_def\<close>)
  qed (use n in \<open>auto simp: mthen_def\<close>)
  with u1 g show ?thesis by auto
qed

section \<open>All heights\<close>

fun run_heights :: "(u64 \<Rightarrow> (unit, 'd, 'c) mact) \<Rightarrow> u64 list \<Rightarrow> (unit, 'd, 'c) mact" where
  "run_heights step [] s = (Ret (), s)"
| "run_heights step (h # hs) s =
     (case step h s of
        (Ret _, s') \<Rightarrow> run_heights step hs s'
      | (Fail err, s') \<Rightarrow> if err = ErrNoRows then run_heights step hs s' else (Fail err, s')
      | (Panic p, s') \<Rightarrow> (Panic p, s')
      | (Blocked, s') \<Rightarrow> (Blocked, s'))"

lemma height_loop_run:
  "height_loop step i to1 s = run_heights step (map of_nat [unat i..<unat (to1 + 1)]) s"
proof (induction step i to1 s rule: height_loop.induct)
  case (1 step i to1 s)
  show ?case
  proof (cases "i < to1 + 1")
    case True
    then have "[unat i..<unat (to1 + 1)] = unat i # [unat (i + 1)..<unat (to1 + 1)]"
      using next_height[OF True] by (simp add: word_less_nat_alt upt_conv_Cons)
    with True 1 show ?thesis
      by (subst height_loop.simps) (simp split: prod.split go.split)
  next
    case False
    then have e: "[unat i..<unat (to1 + 1)] = []" by (simp add: word_less_nat_alt)
    show ?thesis unfolding e using False by (subst height_loop.simps) simp
  qed
qed

text \<open>
  C21: The migration of a range is the migration of each of its heights, both ends included, in
  increasing order up to the first error; a height without rows is no error. A range that
  ends at the largest 64-bit height is not migrated at all.
\<close>

theorem every_height_migrated:
  "getTransactions E network chain from1 to1 s =
     run_heights (getTransaction E network chain)
       (if to1 = - 1 then [] else map of_nat [unat from1..<Suc (unat to1)]) s"
proof (cases "to1 = - 1")
  case False
  then have "to1 < - 1" using word_order.extremum[of to1] by (simp add: order_less_le)
  from next_height[OF this] False show ?thesis by (simp add: getTransactions_def height_loop_run)
qed (simp add: getTransactions_def height_loop_run)

section \<open>A concrete migration\<close>

definition raw_decoder :: "string \<Rightarrow> unit ExtrinsicDecoder" where
  "raw_decoder raw = \<lparr>xd_ExtrinsicLength = 0, xd_ExtrinsicHash = raw, xd_VersionInfo = [],
     xd_ContainsTransaction = True, xd_Address = None, xd_Signature = [], xd_SignatureVersion = 0,
     xd_Nonce = 0, xd_Era = [], xd_CallIndex = [], xd_Tip = None, xd_CallModuleName = ''Timestamp'',
     xd_Params = []\<rparr>"

definition block_of :: "string list \<Rightarrow> PolkaBlock" where
  "block_of raws = zero_block\<lparr>pb_Contents := (pb_Contents zero_block)\<lparr>pbc_Extrinsics := raws\<rparr>\<rparr>"

definition sample_migration :: "row list \<Rightarrow> string list \<Rightarrow> (unit, unit, u64 \<rightharpoonup> string) mig_env" where
  "sample_migration rows raws = \<lparr>mi_lru = map_cache, mi_query = (\<lambda>n c h. Inr (map Inr rows)),
     mi_marshal = (\<lambda>evs. Inr (Join '','' (map te_ID evs))), mi_exec = (\<lambda>e i. None),
     mi_codecs = \<lparr>cd_block = (\<lambda>s b. (None, block_of raws)), cd_runtime = (\<lambda>s p. (None, p))\<rparr>,
     mi_process = (\<lambda>m. Returns (Inr ())), mi_decode = (\<lambda>x d v. Returns (raw_decoder x)),
     mi_slow = (\<lambda>n. False)\<rparr>"

definition sample_mig :: "(unit, u64 \<rightharpoonup> string) mig" where
  "sample_mig = \<lparr>mg_io = io_with [7 \<mapsto> ''b'', 6 \<mapsto> ''p'']
     [reply 1234 ''state_getRuntimeVersion'' ''v'', reply 2345 ''chain_getBlock'' ''k''],
     mg_ds = sample_store, mg_updates = []\<rparr>"

lemma raw_decoder_loop:
  "transactions_loop (\<lambda>x d v. Returns (raw_decoder x)) d v xs acc =
     (acc @ map (\<lambda>raw. raw_extrinsic raw ''Timestamp'') xs, None)"
  by (induction xs arbitrary: acc) (simp_all add: GetExtrinsic_def raw_decoder_def raw_extrinsic_def)

lemma sample_node:
  "\<exists>s1. node_extrinsics (sample_migration rows raws) 7 sample_mig =
     (Ret (map (\<lambda>raw. raw_extrinsic raw ''Timestamp'') raws), s1)"
proof -
  have h: "(0 :: u64) < 7" "(1 :: u64) < 7" by (simp_all add: word_less_def)
  have "GetBlockHashes map_cache 7 (mg_io sample_mig) = (Ret (''b'', ''p'', ''p''), mg_io sample_mig)"
    by (simp add: GetBlockHashes_def hash_or_ask_hit sample_mig_def io_with_def map_cache_def h ret_def Let_def)
  then show ?thesis
    by (simp add: node_extrinsics_def mthen_def on_io_def wrap_err_def sample_migration_def)
      (simp add: mthen_def on_io_def send_ignored_def send_rpc_def sample_mig_def io_with_def numeral_2_eq_2 andthen_def
        wait30_def lift_go_def node_reply_def reply_def ret_def mig_GetMetadata_def wrap_err_def
        GetMetadata_def GetMDecoder_def sample_store_def zero_runtime_def
        GetTransactionsForHeight_def raw_decoder_loop block_of_def mret_def mlift_def fail_def)
qed

definition two_rows :: "row list" where
  "two_rows = [sub_row ''q'' ''0xaa'' ''7-1'', sub_row ''r'' ''0xbb'' ''7-0'']"

lemma two_rows_sorted: "sort_Slice less_row two_rows = Ret [sub_row ''r'' ''0xbb'' ''7-0'', sub_row ''q'' ''0xaa'' ''7-1'']"
proof -
  have p: "ParseInt ''0'' = Some 0" "ParseInt ''1'' = Some 1"
    by (simp_all add: ParseInt_def parse_int_def parse_nat_def digit_val_def digit_table_def)
  have "names_position (sub_row ''r'' ''0xbb'' ''7-0'') 0" "names_position (sub_row ''q'' ''0xaa'' ''7-1'') 1"
    using sub_row_position[OF p(1), of "''7''"] sub_row_position[OF p(2), of "''7''"] by simp_all
  from less_row_positions[OF this] show ?thesis by (simp add: sort_Slice_def two_rows_def)
qed

lemma sample_query: "mi_query (sample_migration rows raws) n c h = Inr (map Inr rows)"
  by (simp add: sample_migration_def)

theorem height_migrated_witness:
  "\<exists>s'. getTransaction (sample_migration two_rows [''aa'', ''bb'']) ''n'' ''c'' 7 sample_mig = (Ret (), s') \<and>
    map fst (mg_updates s') = [''r'', ''q'']"
proof -
  let ?E = "sample_migration two_rows [''aa'', ''bb'']"
  have two: "2 \<le> length two_rows" by (simp add: two_rows_def)
  note s = two_rows_sorted
  obtain s1 where n: "node_extrinsics ?E 7 sample_mig =
      (Ret [raw_extrinsic ''aa'' ''Timestamp'', raw_extrinsic ''bb'' ''Timestamp''], s1)"
    using sample_node[of two_rows "[''aa'', ''bb'']"] by auto
  obtain paired where p: "pair_rows 7 [raw_extrinsic ''aa'' ''Timestamp'', raw_extrinsic ''bb'' ''Timestamp''] 0
      [sub_row ''r'' ''0xbb'' ''7-0'', sub_row ''q'' ''0xaa'' ''7-1''] = Ret paired"
    by (simp add: pair_row_def sub_row_def raw_extrinsic_def go_slice_def)
  have "\<exists>s'. update_rows ?E ps t = (Ret (), s')" for ps t
    by (induction ps arbitrary: t) (auto simp: mthen_def update_row_def sample_migration_def)
  then obtain s' where u: "update_rows ?E paired s1 = (Ret (), s')" by blast
  have g: "getTransaction ?E ''n'' ''c'' 7 sample_mig = (Ret (), s')"
    unfolding getTransaction_many[OF sample_query two] by (simp add: mthen_eq_Ret s n u p del: pair_rows.simps)
  obtain ps evts where e: "pair_rows 7 [raw_extrinsic ''aa'' ''Timestamp'', raw_extrinsic ''bb'' ''Timestamp''] 0
      [sub_row ''r'' ''0xbb'' ''7-0'', sub_row ''q'' ''0xaa'' ''7-1''] = Ret ps"
    "length ps = length evts" "mg_updates s' = mg_updates sample_mig @ zip (map mr_id ps) evts"
    using height_migrated[OF sample_query two g] by (auto simp: s n dest: list_all2_lengthD)
  have ids: "map mr_id ps = [''r'', ''q'']" using pair_rows_ids[OF e(1)] by (simp add: sub_row_def)
  have "length [''r'', ''q''] = length evts" using e(2) unfolding ids[symmetric] by simp
  from map_fst_zip[OF this] e(3) g ids show ?thesis by (auto simp: sample_mig_def)
qed

theorem unpaired_height_untouched_witness:
  "\<exists>e s'. getTransaction (sample_migration two_rows []) ''n'' ''c'' 7 sample_mig = (Fail e, s') \<and>
    mg_updates s' = []"
proof -
  obtain s1 where n: "node_extrinsics (sample_migration two_rows []) 7 sample_mig = (Ret [], s1)"
    using sample_node[of two_rows "[]"] by auto
  have two: "2 \<le> length two_rows" by (simp add: two_rows_def)
  have h: "\<forall>r \<in> set two_rows. 2 \<le> length (tx_Hash (mr_tx r))" by (simp add: two_rows_def sub_row_def)
  have u: "mg_updates sample_mig = []" by (simp add: sample_mig_def)
  show ?thesis
    by (rule unpaired_height_untouched[OF sample_query two two_rows_sorted n h, of 0, unfolded u])
      (simp_all add: two_rows_def)
qed

theorem single_row_written_first_witness:
  "\<exists>us. mg_updates (snd (getTransaction (sample_migration [sub_row ''q'' ''0xaa'' ''7-1''] [])
      ''n'' ''c'' 7 sample_mig)) = (''q'', dash_id 7 0) # us"
proof -
  let ?E = "sample_migration [sub_row ''q'' ''0xaa'' ''7-1''] []"
  let ?ev = "hd (tx_Events (mr_tx (sub_row ''q'' ''0xaa'' ''7-1'')))"
  have "\<exists>us. mg_updates (snd (getTransaction ?E ''n'' ''c'' 7 sample_mig)) =
      mg_updates sample_mig @ (mr_id (sub_row ''q'' ''0xaa'' ''7-1''), dash_id 7 0) # us \<and>
      (fst (getTransaction ?E ''n'' ''c'' 7 sample_mig) = Ret () \<longrightarrow> map fst us = [mr_id (sub_row ''q'' ''0xaa'' ''7-1'')])"
    by (rule single_row_written_first[where ev = ?ev and evs = "[]"])
      (simp_all add: sample_migration_def sub_row_def)
  then show ?thesis by (auto simp: sample_mig_def sub_row_def)
qed

end
