(* ===== verification/Serving.thy ===== *)
theory Serving
  imports Http_Transport Logging
begin

section \<open>Serving HTTP and gRPC (cmd/*/main.go, cmd/*/profiling*.go)\<close>

text \<open>
  The mux of net/http with the patterns the two commands register, the servers they start, and what
  a request to the live server meets: a redirect to its cleaned path, a handler, or nothing. The
  patterns of the library's health monitor are a parameter. No pattern of this program names a host,
  and the method CONNECT, whose paths are not cleaned, is left out.
\<close>

datatype handler = AccountHandler | MetricsHandler | MonitorHandler string | PprofHandler string

type_synonym mux = "(string \<times> handler) list"

subsection \<open>ServeMux\<close>

text \<open>\<open>Handle\<close> refuses a pattern that is already there.\<close>

definition Handle :: "string \<Rightarrow> handler \<Rightarrow> mux \<Rightarrow> mux go" where
  "Handle pattern h mux =
     (if pattern = [] then Panic (ExternalPanic ''http: invalid pattern'')
      else if pattern \<in> set (map fst mux)
      then Panic (ExternalPanic (''http: multiple registrations for '' @ pattern))
      else Ret (mux @ [(pattern, h)]))"

fun Handle_all :: "(string \<times> handler) list \<Rightarrow> mux \<Rightarrow> mux go" where
  "Handle_all [] mux = Ret mux"
| "Handle_all ((pattern, h) # ps) mux = bind_go (Handle pattern h mux) (Handle_all ps)"

text \<open>\<open>path.Clean\<close> of a rooted path: the segments that stay, the latest first.\<close>

fun clean_segments :: "string list \<Rightarrow> string list \<Rightarrow> string list" where
  "clean_segments acc [] = rev acc"
| "clean_segments acc (w # ws) =
     (if w = [] \<or> w = ''.'' then clean_segments acc ws
      else if w = ''..'' then clean_segments (tl acc) ws
      else clean_segments (w # acc) ws)"

definition path_Clean :: "string \<Rightarrow> string" where
  "path_Clean p = CHR ''/'' # Join ''/'' (clean_segments [] (Split CHR ''/'' p))"

definition cleanPath :: "string \<Rightarrow> string" where
  "cleanPath p =
     (if p = [] then ''/''
      else
        let p = (if hd p \<noteq> CHR ''/'' then CHR ''/'' # p else p);
            np = path_Clean p
        in if last p = CHR ''/'' \<and> np \<noteq> ''/'' then np @ ''/'' else np)"

text \<open>The patterns that end in a slash, the longest first.\<close>

fun appendSorted :: "mux \<Rightarrow> string \<times> handler \<Rightarrow> mux" where
  "appendSorted [] e = [e]"
| "appendSorted (x # xs) e =
     (if length (fst x) < length (fst e) then e # x # xs else x # appendSorted xs e)"

definition slash_entries :: "mux \<Rightarrow> mux" where
  "slash_entries mux = foldl appendSorted [] (filter (\<lambda>(pat, h). last pat = CHR ''/'') mux)"

definition mux_match :: "mux \<Rightarrow> string \<Rightarrow> handler option" where
  "mux_match mux path =
     (case map_of mux path of
        Some h \<Rightarrow> Some h
      | None \<Rightarrow> map_option snd (find (\<lambda>(pat, h). HasPrefix path pat) (slash_entries mux)))"

datatype routed = Redirect string | Serve handler | NotFound

definition mux_Handler :: "mux \<Rightarrow> string \<Rightarrow> routed" where
  "mux_Handler mux p =
     (let path = cleanPath p in
      if path \<notin> set (map fst mux) \<and> path @ ''/'' \<in> set (map fst mux) \<and> last path \<noteq> CHR ''/''
      then Redirect (path @ ''/'')
      else if path \<noteq> p then Redirect path
      else (case mux_match mux path of Some h \<Rightarrow> Serve h | None \<Rightarrow> NotFound))"

subsection \<open>The routes of the commands\<close>

definition attach_account :: "mux \<Rightarrow> mux go" where
  "attach_account = Handle_all (map (\<lambda>pat. (pat, AccountHandler)) AttachToHandler)"

text \<open>\<open>attachProfiling\<close>: of the worker built with the tag \<open>profiling\<close>, of the worker built without, and of
  the live server, whose file has no tag.\<close>

definition worker_profiling :: "mux \<Rightarrow> mux go" where
  "worker_profiling = Handle_all [(''/debug/pprof/'', PprofHandler ''Index''),
     (''/debug/pprof/cmdline'', PprofHandler ''Cmdline''), (''/debug/pprof/profile'', PprofHandler ''Profile''),
     (''/debug/pprof/symbol'', PprofHandler ''Symbol''), (''/debug/pprof/trace'', PprofHandler ''Trace'')]"

definition worker_profiling_disabled :: "mux \<Rightarrow> mux go" where
  "worker_profiling_disabled mux = Ret mux"

definition live_profiling :: "mux \<Rightarrow> mux go" where
  "live_profiling = Handle_all [(''/debug/pprof/'', PprofHandler ''Index''),
     (''/debug/pprof/cmdline'', PprofHandler ''Cmdline''), (''/debug/pprof/profile'', PprofHandler ''Profile''),
     (''/debug/pprof/symbol'', PprofHandler ''Symbol''), (''/debug/pprof/trace'', PprofHandler ''Trace'')]"

definition attach_monitor :: "string list \<Rightarrow> mux \<Rightarrow> mux go" where
  "attach_monitor monitor = Handle_all (map (\<lambda>pat. (pat, MonitorHandler pat)) monitor)"

definition worker_mux :: "bool \<Rightarrow> string list \<Rightarrow> mux go" where
  "worker_mux profiling monitor =
     bind_go (Handle ''/metrics'' MetricsHandler []) (\<lambda>mux.
     bind_go (attach_monitor monitor mux) (\<lambda>mux.
       if profiling then worker_profiling mux else worker_profiling_disabled mux))"

definition live_mux :: "string list \<Rightarrow> mux go" where
  "live_mux monitor =
     bind_go (attach_account []) (\<lambda>mux.
     bind_go (Handle ''/metrics'' MetricsHandler mux) (\<lambda>mux.
     bind_go (attach_monitor monitor mux) live_profiling))"

subsection \<open>The servers\<close>

text \<open>Times are in seconds. \<open>listen\<close> is what \<open>ListenAndServe\<close> returns in the end.\<close>

record http_server =
  sv_Addr :: string
  sv_Handler :: mux
  sv_ReadTimeout :: int
  sv_WriteTimeout :: int

definition worker_server :: "string \<Rightarrow> string \<Rightarrow> mux \<Rightarrow> http_server" where
  "worker_server address port mux =
     \<lparr>sv_Addr = address @ '':'' @ port, sv_Handler = mux, sv_ReadTimeout = 10, sv_WriteTimeout = 10\<rparr>"

definition live_server :: "string \<Rightarrow> string \<Rightarrow> mux \<Rightarrow> http_server" where
  "live_server address port mux =
     \<lparr>sv_Addr = address @ '':'' @ port, sv_Handler = mux, sv_ReadTimeout = 10, sv_WriteTimeout = 40\<rparr>"

definition worker_handleHTTP :: "(http_server \<Rightarrow> goerror option) \<Rightarrow> string \<Rightarrow> string \<Rightarrow> mux \<Rightarrow> Logger \<Rightarrow> Logger go" where
  "worker_handleHTTP listen address port mux L =
     (let s = worker_server address port mux in
      bind_go (log_call InfoLevel ''[HTTP] Listening on'' L) (\<lambda>L.
        case listen s of
          Some err \<Rightarrow> log_call ErrorLevel ''[GRPC] Error while listening '' L
        | None \<Rightarrow> Ret L))"

definition live_handleHTTP :: "(http_server \<Rightarrow> goerror option) \<Rightarrow> string \<Rightarrow> string \<Rightarrow> mux \<Rightarrow> Logger \<Rightarrow> Logger go" where
  "live_handleHTTP listen address port mux L =
     (let s = live_server address port mux in
      bind_go (log_call InfoLevel ''[HTTP] Listening on'' L) (\<lambda>L.
        case listen s of
          Some err \<Rightarrow> log_call ErrorLevel ''[GRPC] Error while listening '' L
        | None \<Rightarrow> Ret L))"

definition serveGRPC :: "(string \<Rightarrow> goerror + 'l) \<Rightarrow> ('l \<Rightarrow> goerror option) \<Rightarrow> string \<Rightarrow> string \<Rightarrow> Logger \<Rightarrow> Logger go" where
  "serveGRPC net_Listen serve address port L =
     bind_go (log_call InfoLevel ''[GRPC] Listening on'' L) (\<lambda>L.
       case net_Listen (address @ '':'' @ port) of
         Inl err \<Rightarrow> bind_go (log_call ErrorLevel ''[GRPC] Error while listening '' L) logger_Sync
       | Inr lis \<Rightarrow>
           (case serve lis of
              Some err \<Rightarrow> bind_go (log_call ErrorLevel ''[GRPC] Error while serving '' L) logger_Sync
            | None \<Rightarrow> logger_Sync L))"

text \<open>A request to the live server: its path, and the \<open>height\<close> of its query.\<close>

datatype live_answer = Redirected string | Missing | Library handler | Answered "http_out list go"

definition live_request :: "mux \<Rightarrow> (u64 \<Rightarrow> string \<Rightarrow> PolkaAccountInfo go) \<Rightarrow> goerror option \<Rightarrow> string \<Rightarrow> string \<Rightarrow> live_answer" where
  "live_request mux cli write_err height path =
     (case mux_Handler mux path of
        Redirect p \<Rightarrow> Redirected p
      | NotFound \<Rightarrow> Missing
      | Serve AccountHandler \<Rightarrow> Answered (http_GetAccount cli write_err height path)
      | Serve h \<Rightarrow> Library h)"

section \<open>Cleaned paths\<close>

text \<open>A segment that stays in a cleaned path, and the paths that are left as they are.\<close>

definition segment :: "string \<Rightarrow> bool" where
  "segment w \<longleftrightarrow> w \<noteq> [] \<and> w \<noteq> ''.'' \<and> w \<noteq> ''..'' \<and> CHR ''/'' \<notin> set w"

definition path_of :: "string list \<Rightarrow> bool \<Rightarrow> string" where
  "path_of ws slash = CHR ''/'' # Join ''/'' ws @ (if slash then ''/'' else [])"

lemma segmentD: "segment w \<Longrightarrow> CHR ''/'' \<notin> set w" "segment w \<Longrightarrow> w \<noteq> []"
  by (simp_all add: segment_def)

lemma clean_segments_segment:
  "\<forall>w \<in> set acc. segment w \<Longrightarrow> \<forall>w \<in> set ws. CHR ''/'' \<notin> set w \<Longrightarrow> \<forall>w \<in> set (clean_segments acc ws). segment w"
proof (induction ws arbitrary: acc)
  case (Cons w ws)
  have no: "\<forall>v \<in> set ws. CHR ''/'' \<notin> set v" using Cons.prems(2) by simp
  show ?case
  proof (cases "w = [] \<or> w = ''.'' \<or> w = ''..''")
    case True
    have "\<forall>v \<in> set (tl acc). segment v" using Cons.prems(1) by (cases acc) simp_all
    with True Cons.IH[OF _ no] Cons.prems(1) show ?thesis by auto
  next
    case False
    then have "\<forall>v \<in> set (w # acc). segment v" using Cons.prems by (simp add: segment_def)
    with False Cons.IH[OF this no] show ?thesis by simp
  qed
qed simp

lemma clean_segments_id: "\<forall>w \<in> set ws. segment w \<Longrightarrow> clean_segments acc (ws @ us) = clean_segments (rev ws @ acc) us"
  by (induction ws arbitrary: acc) (simp_all add: segment_def)

lemma Join_snoc: "ws \<noteq> [] \<Longrightarrow> Join sep (ws @ [w]) = Join sep ws @ sep @ w"
proof (induction ws)
  case (Cons v ws)
  then show ?case by (cases ws) simp_all
qed simp

lemma Join_segments_last:
  assumes "\<forall>w \<in> set ws. segment w" and "ws \<noteq> []"
  shows "Join ''/'' ws \<noteq> [] \<and> last (Join ''/'' ws) \<noteq> CHR ''/''"
  using assms
proof (induction ws rule: rev_induct)
  case (snoc w ws)
  then have "w \<noteq> []" "CHR ''/'' \<notin> set w" using segmentD[of w] by auto
  moreover from this have "last w \<noteq> CHR ''/''" using last_in_set[of w] by metis
  ultimately show ?case by (cases "ws = []") (simp_all add: Join_snoc)
qed simp

lemma Split_slash:
  assumes "ws \<noteq> []" and "\<forall>w \<in> set ws. CHR ''/'' \<notin> set w"
  shows "Split CHR ''/'' (Join ''/'' ws @ ''/'') = ws @ [[]]"
proof -
  have "Split CHR ''/'' (Join ''/'' (ws @ [[]])) = ws @ [[]]" using assms(2) by (intro Split_Join) auto
  then show ?thesis using assms(1) by (simp add: Join_snoc)
qed

lemma path_Clean_path_of:
  assumes "\<forall>w \<in> set ws. segment w"
  shows "path_Clean (path_of ws slash) = path_of ws False"
proof (cases "ws = []")
  case True
  then show ?thesis by (simp add: path_Clean_def path_of_def)
next
  case False
  have no: "\<forall>w \<in> set ws. CHR ''/'' \<notin> set w" using assms segmentD(1) by blast
  have "Split CHR ''/'' (Join ''/'' ws @ (if slash then ''/'' else [])) = ws @ (if slash then [[]] else [])"
    by (cases slash) (simp_all add: Split_slash[OF False no] Split_Join[OF False no])
  then have "Split CHR ''/'' (path_of ws slash) = [] # ws @ (if slash then [[]] else [])"
    by (simp add: path_of_def)
  moreover have "clean_segments [] (ws @ (if slash then [[]] else [])) = ws"
    by (simp add: clean_segments_id[OF assms])
  ultimately show ?thesis by (simp add: path_Clean_def) (simp add: path_of_def)
qed

lemma cleanPath_path_of:
  assumes "\<forall>w \<in> set ws. segment w" and "ws \<noteq> [] \<or> \<not> slash"
  shows "cleanPath (path_of ws slash) = path_of ws slash"
proof (cases "ws = []")
  case True
  with assms(2) show ?thesis by (simp add: cleanPath_def path_of_def path_Clean_def)
next
  case False
  note l = Join_segments_last[OF assms(1) False]
  have hd: "hd (path_of ws slash) = CHR ''/''" "path_of ws slash \<noteq> []" by (simp_all add: path_of_def)
  have "last (path_of ws slash) = CHR ''/'' \<longleftrightarrow> slash" using l by (simp add: path_of_def)
  moreover have "path_of ws False \<noteq> ''/''" using l by (simp add: path_of_def)
  ultimately show ?thesis
    using hd path_Clean_path_of[OF assms(1), of slash] unfolding cleanPath_def Let_def
    by (cases slash) (simp_all, simp_all add: path_of_def)
qed

lemma cleanPath_shape:
  obtains ws slash where "cleanPath p = path_of ws slash" "\<forall>w \<in> set ws. segment w" "ws \<noteq> [] \<or> \<not> slash"
proof (cases "p = []")
  case True
  then have "cleanPath p = path_of [] False" by (simp add: cleanPath_def path_of_def)
  then show thesis by (rule that) simp_all
next
  case False
  let ?p = "if hd p \<noteq> CHR ''/'' then CHR ''/'' # p else p"
  let ?ws = "clean_segments [] (Split CHR ''/'' ?p)"
  have seg: "\<forall>w \<in> set ?ws. segment w"
    by (rule clean_segments_segment) (auto dest: Split_parts_no_sep split: if_splits)
  have np: "path_Clean ?p = path_of ?ws False" by (simp add: path_Clean_def path_of_def)
  show thesis
  proof (cases "last ?p = CHR ''/'' \<and> path_Clean ?p \<noteq> ''/''")
    case True
    then have "cleanPath p = path_of ?ws True" using False np by (simp add: cleanPath_def Let_def path_of_def)
    moreover have "?ws \<noteq> []" using True np by (auto simp: path_of_def)
    ultimately show thesis using seg that by blast
  next
    case no: False
    then have "cleanPath p = path_of ?ws False" using False np unfolding cleanPath_def Let_def by simp
    with seg that show thesis by blast
  qed
qed

lemma cleanPath_idem [simp]: "cleanPath (cleanPath p) = cleanPath p"
  by (rule cleanPath_shape[of p]) (simp add: cleanPath_path_of)

lemma cleanPath_slash:
  assumes "last (cleanPath p) \<noteq> CHR ''/''"
  shows "cleanPath (cleanPath p @ ''/'') = cleanPath p @ ''/''"
proof (rule cleanPath_shape[of p])
  fix ws slash
  assume c: "cleanPath p = path_of ws slash" "\<forall>w \<in> set ws. segment w"
  with assms have "\<not> slash" "ws \<noteq> []" by (auto simp: path_of_def split: if_splits)
  with cleanPath_path_of[OF c(2), of True] c(1) show ?thesis by (simp add: path_of_def)
qed

text \<open>
  A client that follows a redirect of a mux is not redirected again, whatever patterns are registered.
\<close>

theorem redirected_once:
  assumes "mux_Handler mux p = Redirect q"
  shows "cleanPath q = q \<and> (\<forall>r. mux_Handler mux q \<noteq> Redirect r)"
proof -
  let ?c = "cleanPath p"
  show ?thesis
  proof (cases "?c \<notin> set (map fst mux) \<and> ?c @ ''/'' \<in> set (map fst mux) \<and> last ?c \<noteq> CHR ''/''")
    case True
    then have "q = ?c @ ''/''" using assms by (simp add: mux_Handler_def Let_def)
    with True cleanPath_slash[of p] show ?thesis
      by (auto simp: mux_Handler_def Let_def split: option.splits)
  next
    case False
    then have "q = ?c" using assms unfolding mux_Handler_def Let_def by (simp split: if_splits option.splits)
    with False show ?thesis by (auto simp: mux_Handler_def Let_def split: option.splits if_splits)
  qed
qed

section \<open>The mux picks the longest pattern\<close>

lemma appendSorted_set [simp]: "set (appendSorted xs e) = insert e (set xs)"
  by (induction xs) auto

definition longest_first :: "mux \<Rightarrow> bool" where
  "longest_first = sorted_wrt (\<lambda>x y. length (fst y) \<le> length (fst x))"

lemma appendSorted_sorted: "longest_first xs \<Longrightarrow> longest_first (appendSorted xs e)"
  by (induction xs) (auto simp: longest_first_def)

lemma foldl_appendSorted:
  "longest_first xs \<Longrightarrow> longest_first (foldl appendSorted xs es) \<and> set (foldl appendSorted xs es) = set xs \<union> set es"
  by (induction es arbitrary: xs) (auto simp: appendSorted_sorted)

lemma slash_entries_props:
  "longest_first (slash_entries mux)" "set (slash_entries mux) = {e \<in> set mux. last (fst e) = CHR ''/''}"
  using foldl_appendSorted[of "[]" "filter (\<lambda>(pat, h). last pat = CHR ''/'') mux"]
  by (auto simp: slash_entries_def longest_first_def)

lemma find_longest:
  assumes "longest_first es" and "find P es = Some x"
  shows "x \<in> set es \<and> P x \<and> (\<forall>y \<in> set es. P y \<longrightarrow> length (fst y) \<le> length (fst x))"
  using assms
proof (induction es)
  case (Cons e es)
  then show ?case by (cases "P e") (auto simp: longest_first_def)
qed simp

lemma mux_match_exact:
  "distinct (map fst mux) \<Longrightarrow> (path, h) \<in> set mux \<Longrightarrow> mux_match mux path = Some h"
  by (simp add: mux_match_def)

lemma mux_match_longest:
  assumes "path \<notin> set (map fst mux)" and "mux_match mux path = Some h"
  obtains pat where "(pat, h) \<in> set mux" "last pat = CHR ''/''" "HasPrefix path pat"
    "\<forall>(pat', h') \<in> set mux. last pat' = CHR ''/'' \<and> HasPrefix path pat' \<longrightarrow> length pat' \<le> length pat"
proof -
  have "map_of mux path = None" using assms(1) by (auto simp: map_of_eq_None_iff)
  with assms(2) obtain pat where "find (\<lambda>(pat, h). HasPrefix path pat) (slash_entries mux) = Some (pat, h)"
    by (auto simp: mux_match_def)
  from find_longest[OF slash_entries_props(1) this] show thesis
    by (intro that[of pat]) (auto simp: slash_entries_props(2))
qed

lemma mux_match_some:
  assumes "(pat, h) \<in> set mux" "last pat = CHR ''/''" "HasPrefix path pat"
  shows "mux_match mux path \<noteq> None"
proof -
  have "find (\<lambda>(pat, h). HasPrefix path pat) (slash_entries mux) \<noteq> None"
    using assms by (auto simp: find_None_iff slash_entries_props(2))
  then show ?thesis by (auto simp: mux_match_def split: option.splits)
qed

section \<open>The routes of the live server\<close>

lemma Handle_Ret: "Handle pat h mux = Ret mux' \<Longrightarrow> mux' = mux @ [(pat, h)] \<and> pat \<notin> set (map fst mux)"
  by (auto simp: Handle_def split: if_splits)

lemma Handle_all_Ret:
  "Handle_all ps mux = Ret mux' \<Longrightarrow> distinct (map fst mux) \<Longrightarrow> mux' = mux @ ps \<and> distinct (map fst mux')"
proof (induction ps mux rule: Handle_all.induct)
  case (2 pat h ps mux)
  from 2(2) obtain mux1 where m: "Handle pat h mux = Ret mux1" "Handle_all ps mux1 = Ret mux'"
    by (cases "Handle pat h mux") auto
  note h = Handle_Ret[OF m(1)]
  have "distinct (map fst mux1)" using h 2(3) by auto
  note r = conjunct1[OF 2(1)[OF m(2) this]] conjunct2[OF 2(1)[OF m(2) this]]
  have "mux' = mux @ (pat, h) # ps" using r(1) h by simp
  from this r(2) show ?case by (rule conjI)
qed simp

text \<open>The health monitor registers nothing below \<open>/account\<close>.\<close>

definition monitor_apart :: "string list \<Rightarrow> bool" where
  "monitor_apart monitor \<longleftrightarrow> (\<forall>pat \<in> set monitor. \<not> HasPrefix pat ''/account'')"

definition pprof_routes :: mux where
  "pprof_routes = [(''/debug/pprof/'', PprofHandler ''Index''),
     (''/debug/pprof/cmdline'', PprofHandler ''Cmdline''), (''/debug/pprof/profile'', PprofHandler ''Profile''),
     (''/debug/pprof/symbol'', PprofHandler ''Symbol''), (''/debug/pprof/trace'', PprofHandler ''Trace'')]"

lemma profiling_routes: "worker_profiling = Handle_all pprof_routes" "live_profiling = Handle_all pprof_routes"
  by (simp_all add: worker_profiling_def live_profiling_def pprof_routes_def)

lemma bind_go_Ret: "bind_go x f = Ret y \<Longrightarrow> \<exists>a. x = Ret a \<and> f a = Ret y"
  by (cases x) auto

lemma live_mux_routes:
  assumes "live_mux monitor = Ret m"
  shows "m = [(''/account'', AccountHandler), (''/account/'', AccountHandler), (''/metrics'', MetricsHandler)] @
      map (\<lambda>pat. (pat, MonitorHandler pat)) monitor @ pprof_routes" (is "_ = ?a @ ?b @ _")
    and "distinct (map fst m)"
proof -
  have "bind_go (attach_account []) (Handle ''/metrics'' MetricsHandler) = Ret ?a"
    by (simp add: attach_account_def AttachToHandler_def Handle_def)
  then have "bind_go (attach_monitor monitor ?a) live_profiling = Ret m"
    using assms by (simp add: live_mux_def attach_account_def AttachToHandler_def Handle_def)
  from bind_go_Ret[OF this] obtain m1 where m1: "attach_monitor monitor ?a = Ret m1" "live_profiling m1 = Ret m"
    by blast
  have a: "distinct (map fst ?a)" by simp
  note 1 = Handle_all_Ret[OF m1(1)[unfolded attach_monitor_def] a]
  note 2 = Handle_all_Ret[OF m1(2)[unfolded profiling_routes] conjunct2[OF 1]]
  from 1 2 show "m = ?a @ ?b @ pprof_routes" by simp
  show "distinct (map fst m)" by (rule conjunct2[OF 2])
qed

lemma worker_mux_routes:
  assumes "worker_mux profiling monitor = Ret m"
  shows "m = [(''/metrics'', MetricsHandler)] @ map (\<lambda>pat. (pat, MonitorHandler pat)) monitor @
      (if profiling then pprof_routes else [])" (is "_ = ?a @ ?b @ _")
proof -
  have "bind_go (attach_monitor monitor ?a)
      (\<lambda>mux. if profiling then worker_profiling mux else worker_profiling_disabled mux) = Ret m"
    using assms by (simp add: worker_mux_def Handle_def)
  from bind_go_Ret[OF this] obtain m1 where m1: "attach_monitor monitor ?a = Ret m1"
    "(if profiling then worker_profiling m1 else worker_profiling_disabled m1) = Ret m" by blast
  have a: "distinct (map fst ?a)" by simp
  note 1 = Handle_all_Ret[OF m1(1)[unfolded attach_monitor_def] a]
  show ?thesis
  proof (cases profiling)
    case True
    with m1(2) have "Handle_all pprof_routes m1 = Ret m" by (simp add: profiling_routes)
    from Handle_all_Ret[OF this conjunct2[OF 1]] 1 True show ?thesis by simp
  next
    case False
    with m1(2) 1 show ?thesis by (simp add: worker_profiling_disabled_def)
  qed
qed

lemma HasPrefix_iff: "HasPrefix s p \<longleftrightarrow> (\<exists>t. s = p @ t)"
  unfolding HasPrefix_def by (metis append_eq_conv_conj append_take_drop_id)

lemma HasPrefix_trans: "HasPrefix p q \<Longrightarrow> HasPrefix q r \<Longrightarrow> HasPrefix p r"
  by (auto simp: HasPrefix_iff)

lemma HasPrefix_longer: "HasPrefix p q \<Longrightarrow> HasPrefix p r \<Longrightarrow> length r \<le> length q \<Longrightarrow> HasPrefix q r"
  by (auto simp: HasPrefix_iff append_eq_append_conv2)

lemma account_prefix [simp]: "HasPrefix ''/account'' ''/account''" "HasPrefix ''/account/'' ''/account''"
  by (simp_all add: HasPrefix_def)

lemma pprof_apart: "(pat, h) \<in> set pprof_routes \<Longrightarrow> h \<noteq> AccountHandler \<and> \<not> HasPrefix pat ''/account''"
  by (auto simp: pprof_routes_def HasPrefix_def)

lemma live_account_patterns:
  assumes "live_mux monitor = Ret m" and "monitor_apart monitor"
  shows "(pat, h) \<in> set m \<Longrightarrow> HasPrefix pat ''/account'' \<or> h = AccountHandler \<Longrightarrow>
    (pat = ''/account'' \<or> pat = ''/account/'') \<and> h = AccountHandler"
    and "(''/account'', AccountHandler) \<in> set m" "(''/account/'', AccountHandler) \<in> set m"
proof -
  note m = live_mux_routes(1)[OF assms(1)]
  show "(''/account'', AccountHandler) \<in> set m" "(''/account/'', AccountHandler) \<in> set m"
    by (simp_all add: m)
  assume in_m: "(pat, h) \<in> set m" and acc: "HasPrefix pat ''/account'' \<or> h = AccountHandler"
  from in_m consider "(pat = ''/account'' \<or> pat = ''/account/'') \<and> h = AccountHandler"
    | "pat = ''/metrics''" "h = MetricsHandler" | "pat \<in> set monitor" "h = MonitorHandler pat"
    | "(pat, h) \<in> set pprof_routes"
    unfolding m by auto
  then show "(pat = ''/account'' \<or> pat = ''/account/'') \<and> h = AccountHandler"
  proof cases
    case 2
    with acc show ?thesis by (simp add: HasPrefix_def)
  next
    case 3
    with acc assms(2) show ?thesis by (simp add: monitor_apart_def)
  next
    case 4
    from pprof_apart[OF this] acc show ?thesis by simp
  qed
qed

text \<open>Which cleaned paths the account handler serves.\<close>

lemma live_match_account:
  assumes "live_mux monitor = Ret m" and "monitor_apart monitor"
  shows "mux_match m p = Some AccountHandler \<longleftrightarrow> p = ''/account'' \<or> HasPrefix p ''/account/''"
proof
  note pats = live_account_patterns[OF assms]
  assume h: "mux_match m p = Some AccountHandler"
  show "p = ''/account'' \<or> HasPrefix p ''/account/''"
  proof (cases "p \<in> set (map fst m)")
    case True
    then obtain h' where "(p, h') \<in> set m" by auto
    moreover from mux_match_exact[OF live_mux_routes(2)[OF assms(1)] this] h have "h' = AccountHandler" by simp
    ultimately have "p = ''/account'' \<or> p = ''/account/''" using pats(1)[of p h'] by blast
    then show ?thesis by (auto simp: HasPrefix_def)
  next
    case False
    then obtain pat where p: "(pat, AccountHandler) \<in> set m" "last pat = CHR ''/''" "HasPrefix p pat"
      by (rule mux_match_longest[OF _ h])
    with pats(1)[of pat AccountHandler] have "pat = ''/account/''" by auto
    with p(3) show ?thesis by simp
  qed
next
  note pats = live_account_patterns[OF assms]
  note exact = mux_match_exact[OF live_mux_routes(2)[OF assms(1)]]
  assume p: "p = ''/account'' \<or> HasPrefix p ''/account/''"
  show "mux_match m p = Some AccountHandler"
  proof (cases "p \<in> set (map fst m)")
    case True
    then obtain h where h: "(p, h) \<in> set m" by auto
    from p have "HasPrefix p ''/account''" by (auto intro: HasPrefix_trans[OF _ account_prefix(2)])
    with pats(1)[OF h] h exact[of p h] show ?thesis by simp
  next
    case False
    have "p \<noteq> ''/account''" using False pats(2) by force
    with p have pre: "HasPrefix p ''/account/''" by simp
    have "mux_match m p \<noteq> None" by (rule mux_match_some[OF pats(3) _ pre]) simp
    then obtain h where h: "mux_match m p = Some h" by auto
    from False obtain pat where pat: "(pat, h) \<in> set m" "HasPrefix p pat"
      and long: "\<forall>(pat', h') \<in> set m. last pat' = CHR ''/'' \<and> HasPrefix p pat' \<longrightarrow> length pat' \<le> length pat"
      by (rule mux_match_longest[OF _ h])
    from long pats(3) pre have "length ''/account/'' \<le> length pat" by auto
    with HasPrefix_longer[OF pat(2) pre] have "HasPrefix pat ''/account/''" by simp
    then have "HasPrefix pat ''/account''" by (rule HasPrefix_trans) simp
    with pats(1)[OF pat(1)] h show ?thesis by simp
  qed
qed

lemma live_no_slash_redirect:
  assumes "live_mux monitor = Ret m" and "monitor_apart monitor"
    and "c = ''/account'' \<or> HasPrefix c ''/account/''"
  shows "\<not> (c \<notin> set (map fst m) \<and> c @ ''/'' \<in> set (map fst m))"
proof
  note pats = live_account_patterns[OF assms(1,2)]
  assume r: "c \<notin> set (map fst m) \<and> c @ ''/'' \<in> set (map fst m)"
  with pats(2) have ne: "c \<noteq> ''/account''" by force
  with assms(3) have pre: "HasPrefix c ''/account/''" by simp
  then have l: "9 \<le> length c" by (auto simp: HasPrefix_def dest: arg_cong[where f = length])
  from r obtain h where h: "(c @ ''/'', h) \<in> set m" by auto
  have "HasPrefix (c @ ''/'') c" by (simp add: HasPrefix_iff)
  from HasPrefix_trans[OF HasPrefix_trans[OF this pre] account_prefix(2)]
  have "HasPrefix (c @ ''/'') ''/account''" .
  with pats(1)[OF h] have "c @ ''/'' = ''/account'' \<or> c @ ''/'' = ''/account/''" by blast
  then have "length (c @ ''/'') \<le> 9" by auto
  with l show False by simp
qed

text \<open>
  C40: The account handler of a started live server serves exactly the cleaned paths \<open>/account\<close> and those
  below \<open>/account/\<close>; a path that only cleans to one of these is redirected to it once and then served.
\<close>

theorem live_routes:
  assumes "live_mux monitor = Ret m" and "monitor_apart monitor"
  shows "(mux_Handler m p = Serve AccountHandler \<longleftrightarrow>
      cleanPath p = p \<and> (p = ''/account'' \<or> HasPrefix p ''/account/'')) \<and>
    (cleanPath p \<noteq> p \<and> (cleanPath p = ''/account'' \<or> HasPrefix (cleanPath p) ''/account/'') \<longrightarrow>
      mux_Handler m p = Redirect (cleanPath p) \<and> mux_Handler m (cleanPath p) = Serve AccountHandler)"
proof -
  let ?acc = "\<lambda>p. p = ''/account'' \<or> HasPrefix p ''/account/''"
  have serve: "mux_Handler m q = Serve AccountHandler" if "cleanPath q = q" "?acc q" for q
  proof -
    have "mux_match m q = Some AccountHandler" using live_match_account[OF assms] that(2) by simp
    then show ?thesis using live_no_slash_redirect[OF assms that(2)] that(1) by (auto simp: mux_Handler_def Let_def)
  qed
  moreover have "cleanPath p = p \<and> ?acc p" if "mux_Handler m p = Serve AccountHandler"
  proof -
    from that have "cleanPath p = p" "mux_match m p = Some AccountHandler"
      by (auto simp: mux_Handler_def Let_def split: if_splits option.splits)
    with live_match_account[OF assms, of p] show ?thesis by simp
  qed
  moreover have "mux_Handler m p = Redirect (cleanPath p)" if "cleanPath p \<noteq> p" "?acc (cleanPath p)"
    using live_no_slash_redirect[OF assms that(2)] that(1) by (auto simp: mux_Handler_def Let_def)
  ultimately show ?thesis using serve[OF cleanPath_idem] by blast
qed

definition sample_monitor :: "string list" where
  "sample_monitor = [''/health'']"

definition sample_live_mux :: mux where
  "sample_live_mux = [(''/account'', AccountHandler), (''/account/'', AccountHandler), (''/metrics'', MetricsHandler),
     (''/health'', MonitorHandler ''/health'')] @ pprof_routes"

lemma sample_live: "live_mux sample_monitor = Ret sample_live_mux" "monitor_apart sample_monitor"
  by (simp_all add: live_mux_def attach_account_def AttachToHandler_def Handle_def attach_monitor_def
      sample_monitor_def sample_live_mux_def profiling_routes pprof_routes_def monitor_apart_def HasPrefix_def)

theorem live_routes_witness:
  "mux_Handler sample_live_mux ''//account/./X'' = Redirect ''/account/X'' \<and>
   mux_Handler sample_live_mux ''/account/X'' = Serve AccountHandler"
  using live_routes[OF sample_live, of "''//account/./X''"]
  by (simp add: cleanPath_def path_Clean_def HasPrefix_def)

lemma account_path_of:
  "ws \<noteq> [] \<Longrightarrow> account_path ws = path_of (''account'' # ws) False"
  "ws \<noteq> [] \<Longrightarrow> account_path (ws @ [[]]) = path_of (''account'' # ws) True"
  by (simp_all add: account_path_def path_of_def Join_Cons Join_snoc)

text \<open>A path of segments below \<open>/account/\<close>, with or without a slash at its end, meets the handler as it is.\<close>

lemma live_request_account:
  assumes "live_mux monitor = Ret m" and "monitor_apart monitor" and "ws \<noteq> []" and "\<forall>w \<in> set ws. segment w"
    and "path = account_path ws \<or> path = account_path (ws @ [[]])"
  shows "live_request m cli write_err height path = Answered (http_GetAccount cli write_err height path)"
proof -
  have seg: "\<forall>w \<in> set (''account'' # ws). segment w" using assms(4) by (simp add: segment_def)
  have clean: "cleanPath path = path"
    using assms(5) account_path_of[OF assms(3)] cleanPath_path_of[OF seg] by auto
  have "HasPrefix path ''/account/''" using assms(5) by (auto simp: account_path_def HasPrefix_def)
  then have "\<not> (path \<notin> set (map fst m) \<and> path @ ''/'' \<in> set (map fst m))" "mux_match m path = Some AccountHandler"
    using live_no_slash_redirect[OF assms(1,2)] live_match_account[OF assms(1,2)] by blast+
  with clean have "mux_Handler m path = Serve AccountHandler" by (auto simp: mux_Handler_def Let_def)
  then show ?thesis by (simp add: live_request_def)
qed

text \<open>
  The live server exposes the profiler in every build; the worker only when it is built with the tag.
\<close>

theorem profiler_exposed:
  "(\<forall>m. live_mux monitor = Ret m \<longrightarrow> (''/debug/pprof/'', PprofHandler ''Index'') \<in> set m) \<and>
   (\<forall>m profiling name. worker_mux profiling monitor = Ret m \<longrightarrow>
      (\<exists>pat. (pat, PprofHandler name) \<in> set m) \<longrightarrow> profiling)"
  by (auto simp: pprof_routes_def dest!: live_mux_routes(1) worker_mux_routes split: if_splits)

end
