(* ===== verification/Startup.thy ===== *)
theory Startup
  imports Serving Indexer_Client Migration Complex_Main
begin

section \<open>Start-up of the commands (cmd/*/main.go and the migration's main)\<close>

text \<open>
  \<open>main\<close> as a function to what it sets up. What it calls outside the repository is in
  \<open>outside\<close>: reading the configuration file and the environment, building the zap logger, the
  metrics engine, the id of the run, dialling the proxy, and the embedded network files. A fatal
  log message is \<open>Fail\<close>; \<open>Ret None\<close> is a return before anything was served. A limit given as
  \<open>float64\<close> is a rational, its conversion to \<open>uint64\<close> is only defined for values in range.
  Durations are in seconds. The worker's configuration extends the live server's, which has a subset
  of its fields.
\<close>

record live_Config =
  cf_AppEnv :: string
  cf_Address :: string
  cf_HTTPPort :: string
  cf_ChainID :: string
  cf_PolkadotNodeAddrs :: string
  cf_RollbarAccessToken :: string
  cf_RollbarServerRoot :: string
  cf_HealthCheckInterval :: int

record Config = live_Config +
  cf_Port :: string
  cf_PolkadotProxyAddr :: string
  cf_Network :: string
  cf_Managers :: string
  cf_ManagerInterval :: int
  cf_Hostname :: string
  cf_GrpcMaxRecvSize :: int
  cf_GrpcMaxSendSize :: int
  cf_MaximumHeightsToGet :: rat
  cf_ReqPerSecond :: int
  cf_Currency :: string
  cf_Exp :: int
  cf_StoreHTTPEndpoints :: string

text \<open>The zero values \<open>&config.Config{}\<close> of the two packages.\<close>

definition live_zero_config :: live_Config where
  "live_zero_config = \<lparr>cf_AppEnv = [], cf_Address = [], cf_HTTPPort = [], cf_ChainID = [],
     cf_PolkadotNodeAddrs = [], cf_RollbarAccessToken = [], cf_RollbarServerRoot = [],
     cf_HealthCheckInterval = 0\<rparr>"

definition zero_config :: Config where
  "zero_config = \<lparr>cf_AppEnv = [], cf_Address = [], cf_HTTPPort = [], cf_ChainID = [],
     cf_PolkadotNodeAddrs = [], cf_RollbarAccessToken = [], cf_RollbarServerRoot = [],
     cf_HealthCheckInterval = 0, cf_Port = [], cf_PolkadotProxyAddr = [], cf_Network = [], cf_Managers = [],
     cf_ManagerInterval = 0, cf_Hostname = [], cf_GrpcMaxRecvSize = 0, cf_GrpcMaxSendSize = 0,
     cf_MaximumHeightsToGet = 0, cf_ReqPerSecond = 0, cf_Currency = [], cf_Exp = 0, cf_StoreHTTPEndpoints = []\<rparr>"

text \<open>\<open>FromFile\<close>: read, then unmarshal into the configuration.\<close>

definition FromFile :: "(string \<Rightarrow> goerror + string) \<Rightarrow> (string \<Rightarrow> 'f \<Rightarrow> goerror option \<times> 'f) \<Rightarrow>
    string \<Rightarrow> 'f \<Rightarrow> goerror option \<times> 'f" where
  "FromFile read_file unmarshal path config =
     (case read_file path of Inl err \<Rightarrow> (Some err, config) | Inr data \<Rightarrow> unmarshal data config)"

record ('c, 'f) outside =
  ou_read :: "string \<Rightarrow> goerror + string"
  ou_unmarshal :: "string \<Rightarrow> 'f \<Rightarrow> goerror option \<times> 'f"
  ou_env :: "'f \<Rightarrow> goerror option \<times> 'f"
  ou_build :: "zap_config \<Rightarrow> goerror option"
  ou_add_engine :: "goerror option"
  ou_hotload :: "goerror option"
  ou_run_id :: "goerror + string"
  ou_dial :: "string \<Rightarrow> goerror + 'c"
  ou_networks :: "string \<Rightarrow> goerror + string"
  ou_monitor :: "string list"
  ou_profiling :: bool

definition config_from :: "('c, 'f) outside \<Rightarrow> 'f \<Rightarrow> ('f \<Rightarrow> string) \<Rightarrow> string \<Rightarrow> 'f go" where
  "config_from W zero addr path =
     (case (if path \<noteq> [] then FromFile (ou_read W) (ou_unmarshal W) path zero else (None, zero)) of
        (Some err, _) \<Rightarrow> Fail err
      | (None, cfg) \<Rightarrow>
          if addr cfg \<noteq> [] then Ret cfg
          else (case ou_env W cfg of (Some err, _) \<Rightarrow> Fail err | (None, cfg) \<Rightarrow> Ret cfg))"

text \<open>The \<open>getConfig\<close> of each command; they ask for a different address.\<close>

definition worker_getConfig :: "('c, Config) outside \<Rightarrow> string \<Rightarrow> Config go" where
  "worker_getConfig W = config_from W zero_config cf_PolkadotProxyAddr"

definition live_getConfig :: "('c, live_Config) outside \<Rightarrow> string \<Rightarrow> live_Config go" where
  "live_getConfig W = config_from W live_zero_config cf_PolkadotNodeAddrs"

definition IdentityString :: "(int \<Rightarrow> string) \<Rightarrow> string \<Rightarrow> string \<Rightarrow> string \<Rightarrow> string \<Rightarrow> string" where
  "IdentityString unix name version git_sha stamp =
     (let timestamp = (case Atoi stamp of Ret t \<Rightarrow> unix t | _ \<Rightarrow> stamp) in
      name @ '' '' @ version @ '' (git: '' @ git_sha @ '') - built at '' @ timestamp)"

subsection \<open>The logger and the metrics\<close>

definition rollbar_root :: "'e live_Config_scheme \<Rightarrow> 'e live_Config_scheme" where
  "rollbar_root cfg =
     (if cf_RollbarServerRoot cfg = []
      then cfg\<lparr>cf_RollbarServerRoot := ''github.com/figment-networks/polkadot-worker''\<rparr> else cfg)"

definition rollbar_config :: "string \<Rightarrow> 'e live_Config_scheme \<Rightarrow> RollbarConfig" where
  "rollbar_config git_sha cfg = \<lparr>rc_AccessToken = cf_RollbarAccessToken cfg,
     rc_ServerRoot = cf_RollbarServerRoot cfg, rc_AppEnv = cf_AppEnv cfg, rc_Version = git_sha,
     rc_ChainIDs = [cf_ChainID cfg]\<rparr>"

text \<open>The error of \<open>logger.Init\<close> is dropped; the next message then meets a nil logger.\<close>

definition start_logger :: "('c, 'f) outside \<Rightarrow> string \<Rightarrow> string \<Rightarrow> 'e live_Config_scheme \<Rightarrow> Logger go" where
  "start_logger W git_sha identity cfg =
     (let rcfg = rollbar_config git_sha cfg;
          res = (if cf_AppEnv cfg = ''development'' \<or> cf_AppEnv cfg = ''local''
                 then logger_Init (ou_build W) ''console'' ''debug'' [''stderr''] (Some rcfg) no_logger
                 else logger_Init (ou_build W) ''json'' ''info'' [''stderr''] (Some rcfg) no_logger)
      in bind_go (fst res) (\<lambda>_. logger_Info identity (snd res)))"

definition start_metrics :: "('c, 'f) outside \<Rightarrow> bool" where
  "start_metrics W = (ou_add_engine W = None)"

subsection \<open>The worker\<close>

text \<open>\<open>registerWorker\<close>: the worker's own address and the managers it will call.\<close>

record registration_req =
  rr_id :: string
  rr_self :: string
  rr_network :: string
  rr_chain :: string
  rr_version :: string
  rr_managers :: "string list"

definition registerWorker :: "('c, 'f) outside \<Rightarrow> Config \<Rightarrow> registration_req option" where
  "registerWorker W cfg =
     (case ou_run_id W of
        Inl err \<Rightarrow> None
      | Inr workerRunID \<Rightarrow>
          (let managers = Split CHR '','' (cf_Managers cfg);
               hostname = (if cf_Hostname cfg = [] then cf_Address cfg else cf_Hostname cfg)
           in Some \<lparr>rr_id = workerRunID, rr_self = hostname @ '':'' @ cf_Port cfg,
                rr_network = cf_Network cfg, rr_chain = cf_ChainID cfg, rr_version = ''0.0.1'',
                rr_managers = map (\<lambda>m. m @ ''/client_ping'') managers\<rparr>))"

text \<open>The loop that dials every proxy of the list.\<close>

fun dial_loop :: "('c, 'f) outside \<Rightarrow> (service \<Rightarrow> 'c \<Rightarrow> 'k) \<Rightarrow> string list \<Rightarrow> ('c, 'k) GRPConnections \<Rightarrow>
    ('c, 'k) GRPConnections go" where
  "dial_loop W mk [] ngc = Ret ngc"
| "dial_loop W mk (pp # pps) ngc =
     (case ou_dial W pp of
        Inl err \<Rightarrow> Fail (Wrapf ''Error while creating connection to polkadot-proxy'' [] err)
      | Inr conn \<Rightarrow> dial_loop W mk pps (Add mk conn ngc))"

definition dial_proxies :: "('c, 'f) outside \<Rightarrow> (service \<Rightarrow> 'c \<Rightarrow> 'k) \<Rightarrow> Config \<Rightarrow> ('c, 'k) GRPConnections go" where
  "dial_proxies W mk cfg = dial_loop W mk (Split CHR '','' (cf_PolkadotProxyAddr cfg)) NewGRPConnections"

text \<open>One websocket connection per node address, each with the time it waits for an answer.\<close>

definition node_runs :: "int \<Rightarrow> string \<Rightarrow> (string \<times> int) list" where
  "node_runs read_timeout addrs = map (\<lambda>address. (address, read_timeout)) (Split CHR '','' addrs)"

definition spec_name :: "string \<Rightarrow> string" where
  "spec_name chain = (if chain = ''mainnet'' then ''polkadot'' else chain)"

definition init_storage :: "('c, 'f) outside \<Rightarrow> string \<Rightarrow> 'd DecodeStorage go" where
  "init_storage W chain =
     (case ds_Init (ou_networks W) (spec_name chain) NewDecodeStorage of
        (Some err, _) \<Rightarrow> Fail (Wrapf ''Error creating decode storage'' [] err)
      | (None, ds) \<Rightarrow> Ret ds)"

text \<open>\<open>createIndexerClient\<close>: the stores, the limiter (rate and burst), and the client.\<close>

definition createIndexerClient :: "Config \<Rightarrow> string list \<times> (int \<times> int) \<times> IndexerClient" where
  "createIndexerClient cfg =
     (Split CHR '','' (cf_StoreHTTPEndpoints cfg), (cf_ReqPerSecond cfg, cf_ReqPerSecond cfg),
      NewIndexerClient (cf_Exp cfg) (of_int \<lfloor>cf_MaximumHeightsToGet cfg\<rfloor>) (cf_ChainID cfg)
        (cf_Currency cfg) (cf_Network cfg))"

record ('c, 'k, 'd) worker =
  wk_log :: Logger
  wk_registered :: "registration_req option"
  wk_conns :: "('c, 'k) GRPConnections"
  wk_nodes :: "(string \<times> int) list"
  wk_health_tick :: int
  wk_ds :: "'d DecodeStorage"
  wk_stores :: "string list"
  wk_limiter :: "int \<times> int"
  wk_client :: IndexerClient
  wk_grpc_addr :: string
  wk_http :: http_server
  wk_monitor_interval :: int

definition serveGRPC_addr :: "Config \<Rightarrow> string" where
  "serveGRPC_addr cfg = cf_Address cfg @ '':'' @ cf_Port cfg"

definition worker_main :: "('c, Config) outside \<Rightarrow> (service \<Rightarrow> 'c \<Rightarrow> 'k) \<Rightarrow> string \<Rightarrow> string \<Rightarrow> string \<Rightarrow>
    ('c, 'k, 'd) worker option go" where
  "worker_main W mk git_sha identity path =
     bind_go (map_err (Wrapf ''error initializing config [ERR: %w]'' []) (worker_getConfig W path)) (\<lambda>cfg.
     let cfg = rollbar_root cfg in
     bind_go (start_logger W git_sha identity cfg) (\<lambda>L.
     if \<not> start_metrics W then Ret None
     else
       let registered = registerWorker W cfg in
       bind_go (dial_proxies W mk cfg) (\<lambda>ngc.
       bind_go (init_storage W (cf_ChainID cfg)) (\<lambda>ds.
       bind_go (worker_mux (ou_profiling W) (ou_monitor W)) (\<lambda>mux.
         case createIndexerClient cfg of (stores, limiter, client) \<Rightarrow>
           Ret (Some \<lparr>wk_log = L, wk_registered = registered, wk_conns = ngc,
             wk_nodes = node_runs 60 (cf_PolkadotNodeAddrs cfg), wk_health_tick = 10, wk_ds = ds,
             wk_stores = stores, wk_limiter = limiter, wk_client = client,
             wk_grpc_addr = serveGRPC_addr cfg, wk_http = worker_server (cf_Address cfg) (cf_HTTPPort cfg) mux,
             wk_monitor_interval = cf_HealthCheckInterval cfg\<rparr>))))))"

subsection \<open>The live server\<close>

record 'd live =
  lv_log :: Logger
  lv_nodes :: "(string \<times> int) list"
  lv_health_tick :: int
  lv_ds :: "'d DecodeStorage"
  lv_client :: IndexerClient
  lv_http :: http_server
  lv_monitor_interval :: int

definition live_main :: "('c, live_Config) outside \<Rightarrow> string \<Rightarrow> string \<Rightarrow> string \<Rightarrow> 'd live option go" where
  "live_main W git_sha identity path =
     bind_go (map_err (Wrapf ''error initializing config [ERR: %w]'' []) (live_getConfig W path)) (\<lambda>cfg.
     let cfg = rollbar_root cfg in
     bind_go (start_logger W git_sha identity cfg) (\<lambda>L.
     if \<not> start_metrics W then Ret None
     else
       bind_go (init_storage W (cf_ChainID cfg)) (\<lambda>ds.
       bind_go (live_mux (ou_monitor W)) (\<lambda>mux.
         Ret (Some \<lparr>lv_log = L, lv_nodes = node_runs 30 (cf_PolkadotNodeAddrs cfg), lv_health_tick = 10,
           lv_ds = ds, lv_client = NewIndexerClient 0 0 [] [] [],
           lv_http = live_server (cf_Address cfg) (cf_HTTPPort cfg) mux,
           lv_monitor_interval = cf_HealthCheckInterval cfg\<rparr>)))))"

subsection \<open>The migration\<close>

text \<open>\<open>opened\<close> and \<open>pinged\<close> are the errors of the database connection; an error is logged and ends
  the command, as does one of the migration itself.\<close>

definition migration_logger :: "('c, 'f) outside \<Rightarrow> Logger go" where
  "migration_logger W =
     (let res = logger_Init (ou_build W) ''json'' ''info'' [''stderr''] None no_logger
      in bind_go (fst res) (\<lambda>_. logger_Info ''[DB] Connecting to database...'' (snd res)))"

definition migration_main :: "('e, 'f) outside \<Rightarrow> goerror option \<Rightarrow> goerror option \<Rightarrow> ('d, 'v, 'c) mig_env \<Rightarrow>
    string \<Rightarrow> string \<Rightarrow> u64 \<Rightarrow> u64 \<Rightarrow> (unit, 'd, 'c) mact" where
  "migration_main W opened pinged E network chain from1 to1 s =
     (case migration_logger W of
        Ret L \<Rightarrow>
          if opened \<noteq> None \<or> pinged \<noteq> None then (Ret (), s)
          else
            (case init_storage W chain of
               Ret ds \<Rightarrow>
                 (case getTransactions E network chain from1 to1 (s\<lparr>mg_ds := ds\<rparr>) of
                    (Fail err, s') \<Rightarrow> (Ret (), s')
                  | (r, s') \<Rightarrow> (r, s'))
             | Fail e \<Rightarrow> (Fail e, s)
             | Panic p \<Rightarrow> (Panic p, s)
             | Blocked \<Rightarrow> (Blocked, s))
      | Fail e \<Rightarrow> (Fail e, s)
      | Panic p \<Rightarrow> (Panic p, s)
      | Blocked \<Rightarrow> (Blocked, s))"

subsection \<open>The health check of the node\<close>

record chResponse =
  ch_IsSyncing :: bool
  ch_Peers :: u64
  ch_ShouldHavePeers :: bool

definition handleWSHealthcheckRequest :: "u64 \<Rightarrow> JsonRPCRequest" where
  "handleWSHealthcheckRequest rid = \<lparr>rq_ID = rid, rq_JSONRPC = [], rq_Method = ''system_health'', rq_Params = None\<rparr>"

definition handleWSHealthcheckResponse :: "(string \<Rightarrow> chResponse \<Rightarrow> goerror option \<times> chResponse) \<Rightarrow>
    Response \<Rightarrow> bool" where
  "handleWSHealthcheckResponse unmarshal response =
     (case unmarshal (rp_Result response) \<lparr>ch_IsSyncing = False, ch_Peers = 0, ch_ShouldHavePeers = False\<rparr> of
        (Some err, _) \<Rightarrow> False
      | (None, r) \<Rightarrow> if ch_ShouldHavePeers r \<and> ch_Peers r = 0 then False else True)"

section \<open>Properties\<close>

text \<open>
  The environment is read exactly when the file names no proxy: a file that names one is taken
  as it is, whatever the environment says (so its missing fields are zero, not their documented
  defaults), and otherwise the result is what the environment makes of the file's configuration.
\<close>

theorem getConfig_sources:
  assumes "FromFile (ou_read W) (ou_unmarshal W) path zero_config = (None, cfg)" and "path \<noteq> []"
  shows "(cf_PolkadotProxyAddr cfg \<noteq> [] \<longrightarrow> worker_getConfig (W\<lparr>ou_env := env\<rparr>) path = Ret cfg) \<and>
    (cf_PolkadotProxyAddr cfg = [] \<longrightarrow> worker_getConfig (W\<lparr>ou_env := env\<rparr>) path =
      (case env cfg of (Some err, _) \<Rightarrow> Fail err | (None, c) \<Rightarrow> Ret c))"
  using assms by (simp add: worker_getConfig_def config_from_def)

definition sample_outside :: "(string, Config) outside" where
  "sample_outside = \<lparr>ou_read = Inr,
     ou_unmarshal = (\<lambda>d c. (None, c\<lparr>cf_PolkadotProxyAddr := d, cf_ChainID := ''mainnet''\<rparr>)),
     ou_env = (\<lambda>c. (Some (Errors_New ''env''), c)), ou_build = (\<lambda>c. None), ou_add_engine = None,
     ou_hotload = None, ou_run_id = Inr ''run'', ou_dial = Inr, ou_networks = Inr,
     ou_monitor = [''/health''], ou_profiling = False\<rparr>"

theorem getConfig_sources_witness:
  "worker_getConfig (sample_outside\<lparr>ou_env := \<lambda>c. (None, c)\<rparr>) ''p'' =
    Ret (zero_config\<lparr>cf_PolkadotProxyAddr := ''p'', cf_ChainID := ''mainnet''\<rparr>)"
proof -
  let ?c = "zero_config\<lparr>cf_PolkadotProxyAddr := ''p'', cf_ChainID := ''mainnet''\<rparr>"
  have "FromFile (ou_read sample_outside) (ou_unmarshal sample_outside) ''p'' zero_config = (None, ?c)"
    by (simp add: FromFile_def sample_outside_def)
  from getConfig_sources[OF this, of "\<lambda>c. (None, c)"] show ?thesis by simp
qed

lemma dial_loop_add_all:
  "dial_loop W mk pps ngc = Ret c \<longleftrightarrow>
     (\<exists>conns. list_all2 (\<lambda>pp conn. ou_dial W pp = Inr conn) pps conns \<and> c = add_all mk conns ngc)"
proof (induction pps arbitrary: ngc)
  case (Cons pp pps)
  show ?case
  proof (cases "ou_dial W pp")
    case (Inr conn)
    then show ?thesis
      by (simp add: Cons.IH list_all2_Cons1 add_all_def)
        (metis fold_simps(2))
  qed (simp add: list_all2_Cons1)
qed (auto simp: add_all_def)

lemma init_storage_name: "init_storage W chain = Ret ds \<Longrightarrow> ds_SpecName ds = spec_name chain"
  by (auto simp: init_storage_def ds_Init_def Let_def split: option.splits sum.splits)

lemma worker_main_Some:
  assumes "worker_main W mk git_sha identity path = Ret (Some w)"
  obtains cfg L where "worker_getConfig W path = Ret cfg"
    "start_logger W git_sha identity (rollbar_root cfg) = Ret L"
    "dial_proxies W mk (rollbar_root cfg) = Ret (wk_conns w)"
    "init_storage W (cf_ChainID cfg) = Ret (wk_ds w)"
    "wk_registered w = registerWorker W (rollbar_root cfg)"
    "(wk_stores w, wk_limiter w, wk_client w) = createIndexerClient (rollbar_root cfg)"
proof -
  from assms obtain cfg where c: "worker_getConfig W path = Ret cfg" unfolding worker_main_def by auto
  with assms obtain L where L: "start_logger W git_sha identity (rollbar_root cfg) = Ret L"
    unfolding worker_main_def Let_def by auto
  have id: "cf_ChainID (rollbar_root cfg) = cf_ChainID cfg" by (simp add: rollbar_root_def)
  obtain st r b cl where cc: "createIndexerClient (rollbar_root cfg) = (st, (r, b), cl)"
    by (simp add: createIndexerClient_def)
  show thesis
    by (rule that[OF c L])
      (use assms c L id cc in \<open>auto simp: worker_main_def Let_def split: if_splits\<close>)
qed

lemma rollbar_root_fields [simp]:
  "cf_PolkadotProxyAddr (rollbar_root cfg) = cf_PolkadotProxyAddr cfg"
  "cf_ChainID (rollbar_root cfg) = cf_ChainID cfg"
  "cf_Managers (rollbar_root cfg) = cf_Managers cfg"
  "cf_Hostname (rollbar_root cfg) = cf_Hostname cfg"
  "cf_Address (rollbar_root cfg) = cf_Address cfg"
  "cf_Port (rollbar_root cfg) = cf_Port cfg"
  by (simp_all add: rollbar_root_def)

text \<open>
  C15: A worker that came up holds one connection per comma-separated proxy address of its
  configuration, in their order and at least one, so that every later sequence of requests for
  clients, of any services, rotates over them without a panic; and its decode storage is for the
  network of its chain.
\<close>

theorem worker_ready:
  assumes "worker_main W mk git_sha identity path = Ret (Some w)"
  shows "\<exists>cfg. worker_getConfig W path = Ret cfg \<and>
    map Inr (gc_Conn (wk_conns w)) = map (ou_dial W) (Split CHR '','' (cf_PolkadotProxyAddr cfg)) \<and>
    (\<forall>svcs. \<exists>d. GetNexts svcs (wk_conns w) = Ret (map (\<lambda>i. mk (svcs ! i)
       (gc_Conn (wk_conns w) ! (i mod length (gc_Conn (wk_conns w))))) [0..<length svcs], d)) \<and>
    ds_SpecName (wk_ds w) = (if cf_ChainID cfg = ''mainnet'' then ''polkadot'' else cf_ChainID cfg)"
proof -
  obtain cfg where cfg: "worker_getConfig W path = Ret cfg"
      "dial_proxies W mk (rollbar_root cfg) = Ret (wk_conns w)" "init_storage W (cf_ChainID cfg) = Ret (wk_ds w)"
    by (rule worker_main_Some[OF assms])
  let ?pps = "Split CHR '','' (cf_PolkadotProxyAddr cfg)"
  from cfg(2) obtain conns where c: "list_all2 (\<lambda>pp conn. ou_dial W pp = Inr conn) ?pps conns"
      "wk_conns w = add_all mk conns NewGRPConnections"
    by (auto simp: dial_proxies_def dial_loop_add_all)
  have g: "gc_Conn (wk_conns w) = conns" "conns_inv mk (wk_conns w)" "cursor (wk_conns w) = 0"
    using add_all_inv[OF conns_inv_new, of mk conns] c(2)
    by (simp_all add: cursor_def) (simp_all add: NewGRPConnections_def)
  have "map Inr conns = map (ou_dial W) ?pps"
    using c(1) by (auto simp: list_all2_conv_all_nth intro!: nth_equalityI)
  moreover have "conns \<noteq> []" using c(1) Split_not_Nil by (metis list_all2_Nil2)
  then have "\<exists>d. GetNexts svcs (wk_conns w) =
      Ret (map (\<lambda>i. mk (svcs ! i) (conns ! (i mod length conns))) [0..<length svcs], d)" for svcs
    using GetNexts_rotates[of mk "wk_conns w" svcs] g by (simp add: conns_ok_def)
  moreover note init_storage_name[OF cfg(3)]
  ultimately show ?thesis using cfg(1) g(1) by (auto simp: spec_name_def)
qed

definition two_proxies :: "(string, Config) outside" where
  "two_proxies = sample_outside\<lparr>ou_unmarshal :=
     (\<lambda>d c. (None, c\<lparr>cf_PolkadotProxyAddr := Join '','' [''a'', ''b''], cf_ChainID := ''mainnet''\<rparr>))\<rparr>"

theorem worker_ready_witness:
  "\<exists>(w :: (string, service \<times> string, unit) worker) d.
    worker_main two_proxies (\<lambda>s c. (s, c)) [] [] ''f'' = Ret (Some w) \<and>
    GetNexts [BlockSvc, DecodeSvc, BlockSvc] (wk_conns w) =
      Ret ([(BlockSvc, ''a''), (DecodeSvc, ''b''), (BlockSvc, ''a'')], d)"
proof -
  let ?cfg = "zero_config\<lparr>cf_PolkadotProxyAddr := Join '','' [''a'', ''b''], cf_ChainID := ''mainnet''\<rparr>"
  have cfg: "worker_getConfig two_proxies ''f'' = Ret ?cfg"
    by (simp add: two_proxies_def sample_outside_def worker_getConfig_def config_from_def FromFile_def)
  have fields: "ou_build two_proxies = (\<lambda>c. None)" "ou_dial two_proxies = Inr"
      "ou_networks two_proxies = Inr" "start_metrics two_proxies"
    by (simp_all add: two_proxies_def sample_outside_def start_metrics_def)
  obtain mux where mux: "worker_mux (ou_profiling two_proxies) (ou_monitor two_proxies) = Ret mux"
    by (simp add: two_proxies_def sample_outside_def worker_mux_def Handle_def attach_monitor_def
        worker_profiling_disabled_def)
  obtain L where L: "start_logger two_proxies [] [] (rollbar_root ?cfg) = Ret L"
    by (simp add: start_logger_def logger_Init_def enable_rollbar_def rollbar_config_def
        rollbar_root_def fields zero_config_def logger_Info_def log_call_def Let_def)
  obtain c where c: "dial_proxies two_proxies (\<lambda>s c. (s, c)) (rollbar_root ?cfg) = Ret c"
    by (simp add: dial_proxies_def rollbar_root_def fields)
  obtain ds :: "unit DecodeStorage" where ds: "init_storage two_proxies (cf_ChainID (rollbar_root ?cfg)) = Ret ds"
    by (simp add: init_storage_def ds_Init_def fields Let_def)
  have "\<exists>w. worker_main two_proxies (\<lambda>s c. (s, c)) [] [] ''f'' = Ret (Some (w :: (_, _, unit) worker))"
    unfolding worker_main_def Let_def cfg map_err.simps bind_go.simps L c ds mux
    by (simp add: fields createIndexerClient_def)
  then obtain w :: "(_, _, unit) worker" where w: "worker_main two_proxies (\<lambda>s c. (s, c)) [] [] ''f'' = Ret (Some w)" by blast
  note ready = worker_ready[OF w, unfolded cfg go.inject]
  from ready have g: "map Inr (gc_Conn (wk_conns w)) =
      map (ou_dial two_proxies) (Split CHR '','' (Join '','' [''a'', ''b'']))" by auto
  have conn: "gc_Conn (wk_conns w) = [''a'', ''b'']"
    using g by (auto simp: fields)
  from ready have "\<exists>d. GetNexts [BlockSvc, DecodeSvc, BlockSvc] (wk_conns w) =
      Ret (map (\<lambda>i. ([BlockSvc, DecodeSvc, BlockSvc] ! i,
        gc_Conn (wk_conns w) ! (i mod length (gc_Conn (wk_conns w)))))
        [0..<length [BlockSvc, DecodeSvc, BlockSvc]], d)"
    by blast
  with w show ?thesis by (auto simp: conn upt_rec simp del: GetNexts.simps)
qed

text \<open>
  C16: A live server that came up has one websocket run per comma-separated node address of its
  configuration, each waiting 30 seconds for an answer; a decode storage for the network of its chain; and
  an HTTP server at its address whose mux hands every path of plain segments below \<open>/account/\<close> to the
  account handler.
\<close>

theorem live_ready:
  assumes "live_main W git_sha identity path = Ret (Some l)" and "monitor_apart (ou_monitor W)"
  shows "\<exists>cfg. live_getConfig W path = Ret cfg \<and>
    map fst (lv_nodes l) = Split CHR '','' (cf_PolkadotNodeAddrs cfg) \<and> (\<forall>x \<in> set (lv_nodes l). snd x = 30) \<and>
    ds_SpecName (lv_ds l) = (if cf_ChainID cfg = ''mainnet'' then ''polkadot'' else cf_ChainID cfg) \<and>
    sv_Addr (lv_http l) = cf_Address cfg @ '':'' @ cf_HTTPPort cfg \<and>
    (\<forall>ws cli write_err height. ws \<noteq> [] \<and> (\<forall>w \<in> set ws. segment w) \<longrightarrow>
       live_request (sv_Handler (lv_http l)) cli write_err height (account_path ws) =
         Answered (http_GetAccount cli write_err height (account_path ws)))"
proof -
  from assms(1) obtain cfg where c: "live_getConfig W path = Ret cfg" unfolding live_main_def by auto
  with assms(1) obtain ds mux where ds: "init_storage W (cf_ChainID cfg) = Ret ds"
    and mux: "live_mux (ou_monitor W) = Ret mux"
    and l: "lv_ds l = ds" "lv_nodes l = node_runs 30 (cf_PolkadotNodeAddrs cfg)"
      "lv_http l = live_server (cf_Address cfg) (cf_HTTPPort cfg) mux"
    unfolding live_main_def Let_def rollbar_root_def by (auto split: if_splits)
  note storage = init_storage_name[OF ds]
  have req: "live_request mux cli write_err height (account_path ws) = Answered (http_GetAccount cli write_err height (account_path ws))"
    if "ws \<noteq> [] \<and> (\<forall>w \<in> set ws. segment w)" for ws cli write_err height
    using live_request_account[OF mux assms(2), of ws "account_path ws"] that by blast
  show ?thesis
    by (intro exI[of _ cfg] conjI allI impI)
      (simp_all add: c l storage spec_name_def node_runs_def comp_def live_server_def req)
qed

definition live_outside :: "(string, live_Config) outside" where
  "live_outside = \<lparr>ou_read = Inr,
     ou_unmarshal = (\<lambda>d c. (None, c\<lparr>cf_PolkadotNodeAddrs := d, cf_ChainID := ''mainnet'', cf_HTTPPort := ''8097''\<rparr>)),
     ou_env = (\<lambda>c. (Some (Errors_New ''env''), c)), ou_build = (\<lambda>c. None), ou_add_engine = None,
     ou_hotload = None, ou_run_id = Inr ''run'', ou_dial = Inr, ou_networks = Inr,
     ou_monitor = sample_monitor, ou_profiling = False\<rparr>"

theorem live_ready_witness:
  "\<exists>l :: unit live. live_main live_outside [] [] ''n1,n2'' = Ret (Some l) \<and>
    map fst (lv_nodes l) = [''n1'', ''n2''] \<and> ds_SpecName (lv_ds l) = ''polkadot'' \<and>
    sv_Addr (lv_http l) = '':8097'' \<and>
    live_request (sv_Handler (lv_http l)) one_account None ''7'' ''/account/X'' =
      Answered (http_GetAccount one_account None ''7'' ''/account/X'')"
proof -
  let ?cfg = "live_zero_config\<lparr>cf_PolkadotNodeAddrs := ''n1,n2'', cf_ChainID := ''mainnet'', cf_HTTPPort := ''8097''\<rparr>"
  have fields: "ou_build live_outside = (\<lambda>c. None)" "ou_networks live_outside = Inr"
      "start_metrics live_outside" "ou_monitor live_outside = sample_monitor"
    by (simp_all add: live_outside_def start_metrics_def)
  have cfg: "live_getConfig live_outside ''n1,n2'' = Ret ?cfg"
    by (simp add: live_outside_def live_getConfig_def config_from_def FromFile_def)
  obtain L where L: "start_logger live_outside [] [] (rollbar_root ?cfg) = Ret L"
    by (simp add: start_logger_def logger_Init_def enable_rollbar_def rollbar_config_def
        rollbar_root_def fields live_zero_config_def logger_Info_def log_call_def Let_def)
  obtain ds :: "unit DecodeStorage" where ds: "init_storage live_outside (cf_ChainID (rollbar_root ?cfg)) = Ret ds"
    by (simp add: init_storage_def ds_Init_def fields Let_def)
  have "\<exists>l. live_main live_outside [] [] ''n1,n2'' = Ret (Some (l :: unit live))"
    unfolding live_main_def Let_def cfg map_err.simps bind_go.simps L ds fields(4) sample_live
    by (simp add: fields)
  then obtain l :: "unit live" where l: "live_main live_outside [] [] ''n1,n2'' = Ret (Some l)" by blast
  have x: "account_path [''X''] = ''/account/X''" "\<forall>w \<in> set [''X'']. segment w"
    by (simp_all add: account_path_def segment_def)
  have "monitor_apart (ou_monitor live_outside)" by (simp add: fields sample_live)
  from live_ready[OF l this, unfolded cfg go.inject]
  have r: "map fst (lv_nodes l) = [''n1'', ''n2'']" "ds_SpecName (lv_ds l) = ''polkadot''" "sv_Addr (lv_http l) = '':8097''"
    "\<And>ws cli write_err height. ws \<noteq> [] \<and> (\<forall>w \<in> set ws. segment w) \<Longrightarrow>
      live_request (sv_Handler (lv_http l)) cli write_err height (account_path ws) =
        Answered (http_GetAccount cli write_err height (account_path ws))"
    by (auto simp: live_zero_config_def)
  show ?thesis using l r(1-3) r(4)[of "[''X'']"] x by auto
qed

lemma logger_unusable:
  assumes "(\<forall>c. build c \<noteq> None) \<or> rc_AccessToken rc \<noteq> [] \<and> length (rc_AccessToken rc) < 5"
  shows "\<exists>p. bind_go (fst (logger_Init build enc level outs (Some rc) no_logger))
    (\<lambda>_. logger_Info msg (snd (logger_Init build enc level outs (Some rc) no_logger))) = Panic p"
proof (cases "build \<lparr>zc_OutputPaths = outs, zc_Encoding = ''json'', zc_Level = getLevel level\<rparr>")
  case None
  with assms have "rc_AccessToken rc \<noteq> [] \<and> length (rc_AccessToken rc) < 5" by blast
  with None show ?thesis by (simp add: logger_Init_def enable_rollbar_def go_slice_def Let_def)
next
  case (Some e)
  then show ?thesis by (simp add: logger_Init_def Let_def logger_Info_def log_call_def no_logger_def)
qed

text \<open>
  The messages \<open>main\<close> logs first need the logger: when zap refuses its configuration, or when a
  rollbar token of one to four bytes is configured, the worker panics at start-up.
\<close>

theorem start_needs_logger:
  assumes "worker_getConfig W path = Ret cfg"
    and "(\<forall>c. ou_build W c \<noteq> None) \<or>
      cf_RollbarAccessToken cfg \<noteq> [] \<and> length (cf_RollbarAccessToken cfg) < 5"
  shows "\<exists>p. worker_main W mk git_sha identity path = Panic p"
proof -
  have t: "rc_AccessToken (rollbar_config git_sha (rollbar_root cfg)) = cf_RollbarAccessToken cfg"
    by (simp add: rollbar_config_def rollbar_root_def)
  have "\<exists>p. start_logger W git_sha identity (rollbar_root cfg) = Panic p"
    using logger_unusable[of "ou_build W" "rollbar_config git_sha (rollbar_root cfg)"] assms(2)
    by (simp add: start_logger_def Let_def t)
  with assms(1) show ?thesis by (auto simp: worker_main_def Let_def)
qed

theorem start_needs_logger_witness:
  "\<exists>p. worker_main (two_proxies\<lparr>ou_build := \<lambda>c. Some (Errors_New ''x'')\<rparr>) (\<lambda>s c. (s, c)) [] [] ''f'' = Panic p"
proof (rule start_needs_logger)
  show "worker_getConfig (two_proxies\<lparr>ou_build := \<lambda>c. Some (Errors_New ''x'')\<rparr>) ''f'' =
      Ret (zero_config\<lparr>cf_PolkadotProxyAddr := Join '','' [''a'', ''b''], cf_ChainID := ''mainnet''\<rparr>)"
    by (simp add: two_proxies_def sample_outside_def worker_getConfig_def config_from_def FromFile_def)
qed simp

text \<open>
  The worker announces itself under its host name, or its address without one, with its port,
  and to every manager of the comma-separated list at the path \<open>/client_ping\<close>.
\<close>

theorem managers_registered:
  assumes "ou_run_id W = Inr run" and "ms \<noteq> []" and "\<forall>m \<in> set ms. CHR '','' \<notin> set m"
    and "cf_Managers cfg = Join '','' ms"
  shows "\<exists>r. registerWorker W cfg = Some r \<and> rr_managers r = map (\<lambda>m. m @ ''/client_ping'') ms \<and>
    rr_self r = (if cf_Hostname cfg = [] then cf_Address cfg else cf_Hostname cfg) @ '':'' @ cf_Port cfg \<and>
    rr_chain r = cf_ChainID cfg \<and> rr_network r = cf_Network cfg"
  using assms by (simp add: registerWorker_def Split_Join)

theorem managers_registered_witness:
  "\<exists>r. registerWorker sample_outside (zero_config\<lparr>cf_Managers := Join '','' [''m'', ''n''], cf_Port := ''3000''\<rparr>) = Some r \<and>
    rr_managers r = [''m/client_ping'', ''n/client_ping''] \<and> rr_self r = '':3000''"
  using managers_registered[of sample_outside "''run''" "[''m'', ''n'']"
      "zero_config\<lparr>cf_Managers := Join '','' [''m'', ''n''], cf_Port := ''3000''\<rparr>"]
  by (auto simp: sample_outside_def zero_config_def)

lemma healthy_rows:
  assumes "\<forall>t \<in> set ts. t = NotOnline \<or> (\<exists>a. t = Answer a \<and> healthy a)"
  shows "bad_row healthy ts 0 = 0"
  using assms by (induction healthy ts "0 :: nat" rule: bad_row.induct) auto

text \<open>
  A node whose every answer decodes, and that has peers or needs none, keeps the process
  alive for any number of ticks, even if it is syncing.
\<close>

theorem healthy_node_keeps_running:
  assumes "\<forall>t \<in> set ts. t = NotOnline \<or> (\<exists>a r. t = Answer a \<and>
      unmarshal (rp_Result a) \<lparr>ch_IsSyncing = False, ch_Peers = 0, ch_ShouldHavePeers = False\<rparr> = (None, r) \<and>
      (ch_ShouldHavePeers r \<longrightarrow> 0 < ch_Peers r))"
  shows "HcExit \<notin> set (fst (health_run (handleWSHealthcheckResponse unmarshal) ts hc_start))"
proof -
  have ok: "\<forall>t \<in> set ts. t = NotOnline \<or> (\<exists>a. t = Answer a \<and> handleWSHealthcheckResponse unmarshal a)"
    using assms by (fastforce simp: handleWSHealthcheckResponse_def)
  then have "bad_row (handleWSHealthcheckResponse unmarshal) (take n ts) 0 = 0" for n
    by (intro healthy_rows) (auto dest: in_set_takeD)
  moreover have "ts ! n \<noteq> SendStuck" if "n < length ts" for n using ok that by (auto simp: in_set_conv_nth)
  ultimately show ?thesis
    using health_run_exit[of 0 hc_start "handleWSHealthcheckResponse unmarshal" ts] by (auto simp: hc_start_def)
qed

definition health_answer :: Response where
  "health_answer = \<lparr>rp_ID = 1, rp_Error = None, rp_Type = ''system_health'', rp_Result = ''p''\<rparr>"

theorem healthy_node_keeps_running_witness:
  "HcExit \<notin> set (fst (health_run (handleWSHealthcheckResponse
      (\<lambda>d r. (None, r\<lparr>ch_ShouldHavePeers := True, ch_Peers := 3\<rparr>))) (replicate 50 (Answer health_answer)) hc_start))"
  by (rule healthy_node_keeps_running) (simp add: set_replicate_conv_if word_less_def)

end
