(* ===== verification/Metrics.thy ===== *)
theory Metrics
  imports Go_Prelude
begin

section \<open>The metrics of the worker and the live server (metrics.go of four packages)\<close>

text \<open>
  Each package declares its metrics as package variables, created when the process starts; the
  engine of the metrics library is a library. What the code has to get right are the data: two
  metrics of one process must not share a full name, and a metric is observed with one label per tag.
  \<open>WithLabels\<close> is the metric with the labels it is asked for.
\<close>

datatype metric_kind = Histogram | Counter

record metric =
  mt_kind :: metric_kind
  mt_Namespace :: string
  mt_Subsystem :: string
  mt_Name :: string
  mt_Desc :: string
  mt_Tags :: "string list"

type_synonym observer = "metric \<times> string list"

definition WithLabels :: "metric \<Rightarrow> string list \<Rightarrow> observer" where
  "WithLabels m labels = (m, labels)"

subsection \<open>mapper\<close>

definition conversionDuration :: metric where
  "conversionDuration = \<lparr>mt_kind = Histogram, mt_Namespace = ''indexerworker'', mt_Subsystem = ''api'',
     mt_Name = ''conversion_duration'',
     mt_Desc = ''Duration how long it takes to convert from raw to format'', mt_Tags = [''type'']\<rparr>"

definition transactionConversionDuration :: observer where
  "transactionConversionDuration = WithLabels conversionDuration [''transaction'']"

text \<open>The block mapper asks for its observer at each call.\<close>

definition block_timer :: observer where
  "block_timer = WithLabels conversionDuration [''block'']"

subsection \<open>indexer\<close>

definition endpointDuration :: metric where
  "endpointDuration = \<lparr>mt_kind = Histogram, mt_Namespace = ''indexerworker'', mt_Subsystem = ''client'',
     mt_Name = ''endpoint_duration'', mt_Desc = ''Duration how long it takes for each endpoint'',
     mt_Tags = [''type'']\<rparr>"

definition newStreamsMetric :: metric where
  "newStreamsMetric = \<lparr>mt_kind = Counter, mt_Namespace = ''indexerworker'', mt_Subsystem = ''client'',
     mt_Name = ''new_streams'', mt_Desc = ''New Streams'', mt_Tags = []\<rparr>"

definition receivedRequestsMetric :: metric where
  "receivedRequestsMetric = \<lparr>mt_kind = Counter, mt_Namespace = ''indexerworker'', mt_Subsystem = ''client'',
     mt_Name = ''received_requests'', mt_Desc = ''Received requests to process by client'',
     mt_Tags = [''type'']\<rparr>"

definition sendResponseMetric :: metric where
  "sendResponseMetric = \<lparr>mt_kind = Counter, mt_Namespace = ''indexerworker'', mt_Subsystem = ''client'',
     mt_Name = ''responses_sent'', mt_Desc = ''Responses to be sent from client'',
     mt_Tags = [''type'', ''final'']\<rparr>"

definition getAccountBalanceDuration :: observer where
  "getAccountBalanceDuration = WithLabels endpointDuration [''getAccountBalance'']"

definition getTransactionDuration :: observer where
  "getTransactionDuration = WithLabels endpointDuration [''getTransactions'']"

definition getLatestDuration :: observer where
  "getLatestDuration = WithLabels endpointDuration [''getLatest'']"

subsection \<open>proxy\<close>

definition rawRequestHTTPDuration :: metric where
  "rawRequestHTTPDuration = \<lparr>mt_kind = Histogram, mt_Namespace = ''indexerworker'', mt_Subsystem = ''api'',
     mt_Name = ''request_http'', mt_Desc = ''Duration how long it takes to take data from polkadot'',
     mt_Tags = [''endpoint'', ''status'']\<rparr>"

definition rawRequestGRPCDuration :: metric where
  "rawRequestGRPCDuration = \<lparr>mt_kind = Histogram, mt_Namespace = ''indexerworker'', mt_Subsystem = ''api'',
     mt_Name = ''request_grpc'', mt_Desc = ''Duration how long it takes to take data from polkadot'',
     mt_Tags = [''endpoint'', ''status'']\<rparr>"

definition numberOfItems :: metric where
  "numberOfItems = \<lparr>mt_kind = Counter, mt_Namespace = ''indexerworker'', mt_Subsystem = ''api'',
     mt_Name = ''tx_num'', mt_Desc = ''Number of all transactions returned from one request'',
     mt_Tags = [''type'']\<rparr>"

definition numberOfItemsBlock :: metric where
  "numberOfItemsBlock = \<lparr>mt_kind = Counter, mt_Namespace = ''indexerworker'', mt_Subsystem = ''api'',
     mt_Name = ''block_tx_num'', mt_Desc = ''Number of all transactions returned from one request'',
     mt_Tags = [''type'']\<rparr>"

definition unknownTransactions :: metric where
  "unknownTransactions = \<lparr>mt_kind = Counter, mt_Namespace = ''indexerworker'', mt_Subsystem = ''api'',
     mt_Name = ''tx_unknown'', mt_Desc = ''Number of unknown transactions'', mt_Tags = [''type'']\<rparr>"

definition brokenTransactions :: metric where
  "brokenTransactions = \<lparr>mt_kind = Counter, mt_Namespace = ''indexerworker'', mt_Subsystem = ''api'',
     mt_Name = ''tx_broken'', mt_Desc = ''Number of broken transactions'', mt_Tags = [''type'']\<rparr>"

subsection \<open>transport/http\<close>

definition http_endpointDuration :: metric where
  "http_endpointDuration = \<lparr>mt_kind = Histogram, mt_Namespace = ''indexerworkerlive'', mt_Subsystem = ''client'',
     mt_Name = ''endpoint_duration'', mt_Desc = ''Duration how long it takes for each endpoint'',
     mt_Tags = [''type'']\<rparr>"

definition getAccountDuration :: observer where
  "getAccountDuration = WithLabels http_endpointDuration [''getAccount'']"

section \<open>Names and labels\<close>

text \<open>All packages are linked into one process at most once; the live server links the indexer, too.\<close>

definition all_metrics :: "metric list" where
  "all_metrics = [conversionDuration, endpointDuration, newStreamsMetric, receivedRequestsMetric,
     sendResponseMetric, rawRequestHTTPDuration, rawRequestGRPCDuration, numberOfItems, numberOfItemsBlock,
     unknownTransactions, brokenTransactions, http_endpointDuration]"

definition full_name :: "metric \<Rightarrow> string \<times> string \<times> string" where
  "full_name m = (mt_Namespace m, mt_Subsystem m, mt_Name m)"

definition labelled :: "observer \<Rightarrow> bool" where
  "labelled ob \<longleftrightarrow> length (snd ob) = length (mt_Tags (fst ob))"

lemmas metric_defs = conversionDuration_def endpointDuration_def newStreamsMetric_def
  receivedRequestsMetric_def sendResponseMetric_def rawRequestHTTPDuration_def rawRequestGRPCDuration_def
  numberOfItems_def numberOfItemsBlock_def unknownTransactions_def brokenTransactions_def
  http_endpointDuration_def

text \<open>No two metrics share a full name, and every observer has as many labels as its metric has tags.\<close>

theorem metrics_named_and_labelled:
  "distinct (map full_name all_metrics) \<and>
   list_all labelled [transactionConversionDuration, block_timer, getAccountBalanceDuration,
     getTransactionDuration, getLatestDuration, getAccountDuration,
     WithLabels rawRequestGRPCDuration [endpoint, status]]"
  by (simp add: all_metrics_def full_name_def labelled_def WithLabels_def metric_defs
      transactionConversionDuration_def block_timer_def getAccountBalanceDuration_def
      getTransactionDuration_def getLatestDuration_def getAccountDuration_def)

end
