(* ===== verification/Ws_Replies.thy ===== *)
theory Ws_Replies
  imports Ws_Conn Block_And_Tx "HOL-Library.Sublist"
begin

section \<open>From the websockets to the channel of a block\<close>

text \<open>
  \<open>Ws_Conn\<close> says that each request is answered once; \<open>Block_And_Tx\<close> starts from the replies to
  its requests in some order. Here the second is derived from the first: what was asked on a channel
  and what was answered on it between two states of the websockets.
\<close>

subsection \<open>Asked and answered\<close>

text \<open>
  What was asked on a channel and what was answered on it, over all runs of the given nodes. The
  channel may hold the answers of several runs in any order.
\<close>

definition on_channel :: "nat \<Rightarrow> (nat \<times> 'a) list \<Rightarrow> 'a list" where
  "on_channel ch xs = map snd (filter (\<lambda>x. fst x = ch) xs)"

definition asked_on :: "Conn \<Rightarrow> string list \<Rightarrow> nat \<Rightarrow> (u64 \<times> string) list" where
  "asked_on s addrs ch = on_channel ch (concat (map (\<lambda>a. rn_taken (the (cn_runs s a))) addrs))"

definition answered_on :: "Conn \<Rightarrow> string list \<Rightarrow> nat \<Rightarrow> Response list" where
  "answered_on s addrs ch = on_channel ch (concat (map (\<lambda>a. rn_sent (the (cn_runs s a))) addrs))"

lemma on_channel_append [simp]: "on_channel ch (xs @ ys) = on_channel ch xs @ on_channel ch ys"
  by (simp add: on_channel_def)

lemma on_channel_answered:
  "map (\<lambda>r. (rp_ID r, rp_Type r)) (on_channel ch xs) = on_channel ch (map answered xs)"
  by (induction xs) (auto simp: on_channel_def)

lemma run_answers_asked:
  assumes "ws_reach encode decode timeout s" and "cn_runs s a = Some rn" and "length (rn_taken rn) \<le> 2 ^ 64"
  shows "mset (on_channel ch (map answered (rn_sent rn))) \<subseteq># mset (on_channel ch (rn_taken rn))"
proof -
  have "mset (map answered (rn_sent rn)) \<subseteq># mset (rn_taken rn)"
    using reach_run[OF assms(1,2)] assms(3) by (simp add: run_inv_def conserved_def)
  then show ?thesis
    unfolding on_channel_def mset_map mset_filter
    by (intro image_mset_subseteq_mono multiset_filter_mono)
qed

lemma answers_asked:
  assumes "ws_reach encode decode timeout s"
    and "\<forall>a \<in> set addrs. \<exists>rn. cn_runs s a = Some rn \<and> length (rn_taken rn) \<le> 2 ^ 64"
  shows "mset (map (\<lambda>r. (rp_ID r, rp_Type r)) (answered_on s addrs ch)) \<subseteq># mset (asked_on s addrs ch)"
  using assms(2)
proof (induction addrs)
  case (Cons a addrs)
  then obtain rn where rn: "cn_runs s a = Some rn" "length (rn_taken rn) \<le> 2 ^ 64" by auto
  from Cons.prems Cons.IH have "mset (map (\<lambda>r. (rp_ID r, rp_Type r)) (answered_on s addrs ch)) \<subseteq>#
      mset (asked_on s addrs ch)" by simp
  from subset_mset.add_mono[OF run_answers_asked[OF assms(1) rn, of ch] this] show ?case
    by (simp add: asked_on_def answered_on_def on_channel_answered rn(1) del: mset_map)
qed (simp add: answered_on_def asked_on_def on_channel_def)

lemma all_asked_answered:
  assumes "mset xs \<subseteq># mset ys" and "length xs = length ys"
  shows "mset xs = mset ys"
proof -
  from assms(1) obtain zs where "mset ys = mset xs + zs" by (rule subset_mset.le_iff_add[THEN iffD1, THEN exE])
  moreover from this have "size zs = 0" using assms(2) by (metis add_cancel_left_right size_mset size_union)
  ultimately show ?thesis by simp
qed

text \<open>
  The hashes of a block over the websockets. On a fresh channel the three requests of
  \<open>GetBlockHashes\<close> are taken by the runs of any nodes, and each is answered with a string; then,
  however the answers came into the channel, \<open>GetBlockHashes\<close> returns for the block, its parent and
  its grandparent the strings that answered the requests for them.
\<close>

theorem hashes_through_websockets:
  assumes "ws_reach encode decode timeout s"
    and "\<forall>a \<in> set addrs. \<exists>rn. cn_runs s a = Some rn \<and> length (rn_taken rn) \<le> 2 ^ 64"
    and "mset (asked_on s addrs ch) = mset (map (\<lambda>(rid, m, _). (rid, m)) (hash_calls height))"
    and "mset rs = mset (answered_on s addrs ch)" and "length rs = 3"
    and "\<forall>r \<in> set rs. rp_Error r = None \<and> (\<exists>t. rp_Result r = quoted t)"
    and "1 < height" and "cold L height (io_cache io) c'" and "io_sends io = []" and "io_inbox io = rs @ rest"
  shows "\<exists>b p g. mset rs = {#hash_resp RequestBlockHash b, hash_resp RequestParentBlockHash p,
      hash_resp RequestGrandparentBlockHash g#} \<and>
    GetBlockHashes L height io =
      (Ret (b, p, g), io\<lparr>io_inbox := rest, io_log := io_log io @ hash_calls height,
                         io_cache := lru_Add L height b c'\<rparr>)"
proof -
  let ?f = "\<lambda>r. (rp_ID r, rp_Type r)"
  have len: "length (answered_on s addrs ch) = 3" using assms(4,5) by (metis size_mset)
  have "length (asked_on s addrs ch) = 3"
    using assms(3) mset_eq_length by (fastforce simp: hash_calls_def)
  then have "mset (map ?f (answered_on s addrs ch)) = mset (asked_on s addrs ch)"
    using len by (intro all_asked_answered answers_asked[OF assms(1,2)]) simp
  then have "image_mset ?f (mset rs) = {#(RequestBlockHash, ''chain_getBlockHash''),
      (RequestParentBlockHash, ''chain_getBlockHash''), (RequestGrandparentBlockHash, ''chain_getBlockHash'')#}"
    using assms(3,4) by (simp add: hash_calls_def)
  then obtain r1 r2 r3 where rs: "mset rs = {#r1, r2, r3#}" and f: "?f r1 = (RequestBlockHash, ''chain_getBlockHash'')"
    "?f r2 = (RequestParentBlockHash, ''chain_getBlockHash'')"
    "?f r3 = (RequestGrandparentBlockHash, ''chain_getBlockHash'')"
    by (auto dest!: msed_map_invR)
  from rs have "set rs = {r1, r2, r3}" by (metis set_mset_add_mset_insert set_mset_empty set_mset_mset)
  with assms(6) obtain b p g where t: "rp_Error r1 = None" "rp_Result r1 = quoted b"
    "rp_Error r2 = None" "rp_Result r2 = quoted p" "rp_Error r3 = None" "rp_Result r3 = quoted g" by auto
  have "r1 = hash_resp RequestBlockHash b" "r2 = hash_resp RequestParentBlockHash p"
    "r3 = hash_resp RequestGrandparentBlockHash g"
    using f t by (simp_all add: hash_resp_def)
  with rs have m: "mset rs = {#hash_resp RequestBlockHash b, hash_resp RequestParentBlockHash p,
      hash_resp RequestGrandparentBlockHash g#}" by simp
  from GetBlockHashes_run[OF assms(7,8,9) m assms(10)] m show ?thesis by blast
qed

lemma ws_steps_reach:
  "(ws_step encode decode timeout)\<^sup>*\<^sup>* s s' \<Longrightarrow> ws_reach encode decode timeout s \<Longrightarrow> ws_reach encode decode timeout s'"
  by (induction rule: rtranclp_induct) (auto intro: ws_reach.more)

text \<open>A node that answers request number \<open>n\<close> of its run with a string of \<open>n + 1\<close> characters.\<close>

definition count_decode :: "string \<Rightarrow> goerror + JsonRPCResponse" where
  "count_decode m = Inr \<lparr>jr_ID = of_nat (length m) - 3, jr_JSONRPC = ''2.0'', jr_Result = m\<rparr>"

definition conn_at :: "run \<Rightarrow> Conn" where
  "conn_at rn = set_run ''n'' rn sample_conn"

definition ask :: "u64 \<times> string \<Rightarrow> run \<Rightarrow> run" where
  "ask c = run_request sample_encode 0 True
     \<lparr>snd_Request = \<lparr>rq_ID = fst c, rq_JSONRPC = [], rq_Method = snd c, rq_Params = None\<rparr>, snd_RespCH = 5\<rparr>"

lemma ask_eq: "ask (rid, m) rn = rn\<lparr>rn_next := rn_next rn + 1, rn_taken := rn_taken rn @ [(5, rid, m)],
    rn_map := (rn_map rn)(rn_next rn \<mapsto> \<lparr>st_ID = rid, st_Type = m, st_Time = 0, st_RespCH = 5\<rparr>),
    rn_wire := rn_wire rn @ [m]\<rparr>"
  by (simp add: ask_def run_request_def sample_encode_def Let_def)

lemma ask_online: "rn_phase rn = Online \<Longrightarrow> rn_phase (ask c rn) = Online"
  by (cases c) (simp add: ask_eq)

lemma steps_ask:
  assumes "rn_phase rn = Online"
  shows "(ws_step sample_encode d t)\<^sup>*\<^sup>* (conn_at rn) (conn_at (ask c rn))"
proof -
  let ?s = "snd (Send 5 (fst c) (snd c) None (conn_at rn))"
  have "Send 5 (fst c) (snd c) None (conn_at rn) = (None, ?s)"
    by (simp add: Send_def getStatusEvenOne_def conn_at_def sample_conn_def go_online_def set_run_def)
  then have "ws_step sample_encode d t (conn_at rn) ?s" by (rule ws_step.send)
  moreover have "ws_step sample_encode d t ?s (set_run ''n'' (ask c rn) (?s\<lparr>cn_Requests := [] @ []\<rparr>))"
    unfolding ask_def by (intro ws_step.request)
      (simp_all add: assms Send_def getStatusEvenOne_def conn_at_def sample_conn_def go_online_def set_run_def NewConn_def)
  moreover have "set_run ''n'' (ask c rn) (?s\<lparr>cn_Requests := [] @ []\<rparr>) = conn_at (ask c rn)"
    by (simp add: Send_def getStatusEvenOne_def conn_at_def sample_conn_def go_online_def set_run_def NewConn_def)
  ultimately show ?thesis by (simp add: converse_rtranclp_into_rtranclp)
qed

lemma steps_message: "(ws_step e d t)\<^sup>*\<^sup>* (conn_at rn) (conn_at (recv_message d True m rn))"
proof -
  have "cn_runs (conn_at rn) ''n'' = Some rn" by (simp add: conn_at_def set_run_def)
  from ws_step.message[OF this, of e d t True m] show ?thesis
    by (intro r_into_rtranclp) (simp add: conn_at_def set_run_def)
qed

lemma steps_asks:
  assumes "rn_phase rn = Online"
  shows "(ws_step sample_encode d t)\<^sup>*\<^sup>* (conn_at rn) (conn_at (fold ask cs rn))"
  using assms
proof (induction cs arbitrary: rn)
  case (Cons c cs)
  from rtranclp_trans[OF steps_ask[OF Cons.prems] Cons.IH[OF ask_online[OF Cons.prems]]] show ?case by simp
qed simp

lemma steps_messages: "(ws_step e d t)\<^sup>*\<^sup>* (conn_at rn) (conn_at (fold (recv_message d True) ms rn))"
proof (induction ms arbitrary: rn)
  case (Cons m ms)
  from rtranclp_trans[OF steps_message Cons.IH] show ?case by simp
qed simp

text \<open>The node takes the requests \<open>cs\<close> and then sends the messages \<open>ms\<close>.\<close>

lemma steps_served:
  assumes "rn_phase rn = Online"
  shows "(ws_step sample_encode d t)\<^sup>*\<^sup>* (conn_at rn) (conn_at (fold (recv_message d True) ms (fold ask cs rn)))"
  by (rule rtranclp_trans[OF steps_asks[OF assms] steps_messages])

definition hashes_asked :: run where
  "hashes_asked = fold ask [(RequestBlockHash, ''chain_getBlockHash''), (RequestParentBlockHash, ''chain_getBlockHash''),
     (RequestGrandparentBlockHash, ''chain_getBlockHash'')] (run_dial True new_run)"

definition hashes_served :: run where
  "hashes_served = fold (recv_message count_decode True) [quoted ''ggg'', quoted ''b'', quoted ''pp''] hashes_asked"

lemma dialled_reach: "ws_reach sample_encode decode 30 (conn_at (run_dial True new_run))"
proof -
  have "ws_reach sample_encode decode 30 (set_run ''n'' new_run NewConn)"
    by (rule ws_reach.more[OF ws_reach.init ws_step.start]) (simp add: NewConn_def)
  then have "ws_reach sample_encode decode 30 sample_conn" unfolding sample_conn_def
    by (rule ws_reach.more) (rule ws_step.dial_ok, simp_all add: set_run_def new_run_def)
  then show ?thesis
    by (simp add: conn_at_def sample_conn_def set_run_def go_online_def NewConn_def)
qed

lemma hashes_served_reach: "ws_reach sample_encode count_decode 30 (conn_at hashes_served)"
  unfolding hashes_served_def hashes_asked_def
  by (rule ws_steps_reach[OF steps_served dialled_reach]) (simp add: run_dial_def)

lemma hashes_served_sent:
  "rn_sent hashes_served = map (Pair 5) [hash_resp RequestGrandparentBlockHash ''ggg'',
     hash_resp RequestBlockHash ''b'', hash_resp RequestParentBlockHash ''pp'']"
  "rn_taken hashes_served = map (\<lambda>rid. (5, rid, ''chain_getBlockHash''))
     [RequestBlockHash, RequestParentBlockHash, RequestGrandparentBlockHash]"
  by (simp_all add: hashes_served_def hashes_asked_def ask_eq
      run_dial_def new_run_def recv_message_def count_decode_def quoted_def hash_resp_def answer_def
      forget_def Let_def)

theorem hashes_through_websockets_witness:
  "\<exists>io'. GetBlockHashes map_cache 9 (io_with Map.empty (rev (answered_on (conn_at hashes_served) [''n''] 5))) =
     (Ret (''b'', ''pp'', ''ggg''), io')"
proof -
  let ?rs = "rev (answered_on (conn_at hashes_served) [''n''] 5)"
  have run: "cn_runs (conn_at hashes_served) ''n'' = Some hashes_served" by (simp add: conn_at_def set_run_def)
  have ans: "answered_on (conn_at hashes_served) [''n''] 5 = [hash_resp RequestGrandparentBlockHash ''ggg'',
      hash_resp RequestBlockHash ''b'', hash_resp RequestParentBlockHash ''pp'']"
    by (simp add: answered_on_def on_channel_def run hashes_served_sent)
  then have rs: "?rs = [hash_resp RequestParentBlockHash ''pp'', hash_resp RequestBlockHash ''b'',
      hash_resp RequestGrandparentBlockHash ''ggg'']" by simp
  have "\<exists>b p g. mset ?rs = {#hash_resp RequestBlockHash b, hash_resp RequestParentBlockHash p,
      hash_resp RequestGrandparentBlockHash g#} \<and>
    GetBlockHashes map_cache 9 (io_with Map.empty ?rs) =
      (Ret (b, p, g), (io_with Map.empty ?rs)\<lparr>io_inbox := [], io_log := io_log (io_with Map.empty ?rs) @ hash_calls 9,
                         io_cache := lru_Add map_cache 9 b Map.empty\<rparr>)"
  proof (rule hashes_through_websockets[OF hashes_served_reach])
    show "mset (asked_on (conn_at hashes_served) [''n''] 5) = mset (map (\<lambda>(rid, m, _). (rid, m)) (hash_calls 9))"
      by (simp add: asked_on_def on_channel_def run hashes_served_sent hash_calls_def)
  qed (auto simp: ans run hashes_served_sent io_with_def map_cache_cold hash_resp_def word_less_def)
  then obtain b p g where m: "mset ?rs = {#hash_resp RequestBlockHash b, hash_resp RequestParentBlockHash p,
      hash_resp RequestGrandparentBlockHash g#}"
    and r: "fst (GetBlockHashes map_cache 9 (io_with Map.empty ?rs)) = Ret (b, p, g)" by auto
  have "b = ''b'' \<and> p = ''pp'' \<and> g = ''ggg''"
    using m unfolding rs by (simp add: hash_resp_def quoted_def request_ids add_eq_conv_ex)
  with r show ?thesis by (metis prod.collapse)
qed

subsection \<open>Between two states\<close>

text \<open>What a run has taken and sent only grows.\<close>

definition grows :: "run \<Rightarrow> run \<Rightarrow> bool" where
  "grows rn rn' \<longleftrightarrow> prefix (rn_taken rn) (rn_taken rn') \<and> prefix (rn_sent rn) (rn_sent rn')"

lemma grows_refl [simp]: "grows rn rn"
  by (simp add: grows_def)

lemma grows_trans: "grows a b \<Longrightarrow> grows b c \<Longrightarrow> grows a c"
  by (auto simp: grows_def intro: prefix_order.trans)

lemma grows_phase [simp]: "grows rn (rn\<lparr>rn_phase := p\<rparr>)" "grows rn (rn\<lparr>rn_phase := p, rn_retry := n\<rparr>)"
  by (simp_all add: grows_def)

lemma grows_fail: "grows rn (fail_request err k rn)"
  by (auto simp: grows_def fail_request_def forget_def answer_def split: option.split)

lemma grows_recv: "grows rn (recv_message decode room msg rn)"
  by (auto simp: grows_def recv_message_def forget_def answer_def split: option.split sum.split)

lemma grows_fold_fail: "grows rn (fold (fail_request err) keys rn)"
  by (induction keys arbitrary: rn) (auto intro: grows_trans[OF grows_fail])

lemma grows_tick: "grows rn (timeout_tick timeout now keys rn)"
  unfolding timeout_tick_def
  by (induction keys arbitrary: rn) (auto intro: grows_trans[OF grows_fail])

lemma grows_finish: "grows rn (run_finish keys rn)"
  unfolding run_finish_def by (rule grows_trans[OF grows_fold_fail grows_phase(1)])

lemma grows_request: "grows rn (run_request encode now write_ok req rn)"
  by (auto simp: grows_def run_request_def Let_def answer_def split: sum.split)

lemma grows_dial: "grows rn (run_dial ok rn)"
  by (simp add: grows_def run_dial_def)

definition runs_grow :: "Conn \<Rightarrow> Conn \<Rightarrow> bool" where
  "runs_grow s s' \<longleftrightarrow> (\<forall>a rn. cn_runs s a = Some rn \<longrightarrow> (\<exists>rn'. cn_runs s' a = Some rn' \<and> grows rn rn'))"

lemma runs_grow_set [simp]: "cn_runs s addr = Some rn \<Longrightarrow> grows rn rn' \<Longrightarrow> runs_grow s (set_run addr rn' s)"
  by (auto simp: runs_grow_def set_run_def)

lemma runs_grow_status [simp]:
  "runs_grow s (go_online addr s') = runs_grow s s'" "runs_grow s (go_offline addr s') = runs_grow s s'"
  "runs_grow s (set_run addr rn (s'\<lparr>cn_Requests := rs\<rparr>)) = runs_grow s (set_run addr rn s')"
  by (simp_all add: runs_grow_def go_online_def go_offline_def set_run_def)

lemma ws_step_grows: "ws_step encode decode timeout s s' \<Longrightarrow> runs_grow s s'"
proof (induction rule: ws_step.induct)
  case (send ch rid m ps s s')
  then show ?case by (auto simp: Send_def runs_grow_def split: if_splits)
next
  case (start s addr)
  then show ?case by (auto simp: runs_grow_def set_run_def)
qed (simp_all add: grows_dial grows_request grows_recv grows_tick grows_finish)

lemma ws_steps_grow: "(ws_step encode decode timeout)\<^sup>*\<^sup>* s s' \<Longrightarrow> runs_grow s s'"
proof (induction rule: rtranclp_induct)
  case base
  then show ?case by (auto simp: runs_grow_def)
next
  case (step t s')
  then show ?case using ws_step_grows[of encode decode timeout t s']
    unfolding runs_grow_def by (metis grows_trans)
qed

text \<open>The runs of the given nodes, none past the \<open>2^64\<close> requests after which its counter repeats.\<close>

definition nodes_of :: "Conn \<Rightarrow> string list \<Rightarrow> bool" where
  "nodes_of s addrs \<longleftrightarrow> (\<forall>a \<in> set addrs. \<exists>rn. cn_runs s a = Some rn \<and> length (rn_taken rn) \<le> 2 ^ 64)"

text \<open>Nothing asked on the channel is still to be answered.\<close>

abbreviation ident :: "Response \<Rightarrow> u64 \<times> string" where
  "ident r \<equiv> (rp_ID r, rp_Type r)"

definition settled :: "Conn \<Rightarrow> string list \<Rightarrow> nat \<Rightarrow> bool" where
  "settled s addrs ch \<longleftrightarrow> mset (map ident (answered_on s addrs ch)) = mset (asked_on s addrs ch)"

text \<open>From \<open>s\<close> to \<open>s'\<close> exactly \<open>calls\<close> were asked on the channel, and \<open>rs\<close> came into it, in some order.\<close>

definition exchange :: "Conn \<Rightarrow> Conn \<Rightarrow> string list \<Rightarrow> nat \<Rightarrow> (u64 \<times> string) list \<Rightarrow> Response list \<Rightarrow> bool" where
  "exchange s s' addrs ch calls rs \<longleftrightarrow>
     mset (asked_on s' addrs ch) = mset (asked_on s addrs ch) + mset calls \<and>
     mset (answered_on s' addrs ch) = mset (answered_on s addrs ch) + mset rs"

lemma exchange_idents:
  assumes "ws_reach encode decode timeout s'" and "nodes_of s' addrs" and "settled s addrs ch"
    and "exchange s s' addrs ch calls rs"
  shows "mset (map ident rs) \<subseteq># mset calls"
    and "length rs = length calls \<Longrightarrow> mset (map ident rs) = mset calls \<and> settled s' addrs ch"
proof -
  have "mset (map ident (answered_on s' addrs ch)) \<subseteq># mset (asked_on s' addrs ch)"
    using answers_asked[OF assms(1)] assms(2) by (simp add: nodes_of_def)
  then show sub: "mset (map ident rs) \<subseteq># mset calls"
    using assms(3,4) by (simp add: exchange_def settled_def)
  assume len: "length rs = length calls"
  have "mset (map ident rs) = mset calls"
    by (rule all_asked_answered[OF sub]) (simp add: len)
  then show "mset (map ident rs) = mset calls \<and> settled s' addrs ch"
    using assms(3,4) by (simp add: exchange_def settled_def)
qed

lemma on_channel_grows:
  assumes "runs_grow s s'" and "\<forall>a \<in> set addrs. cn_runs s a \<noteq> None"
    and "\<And>rn rn'. grows rn rn' \<Longrightarrow> prefix (g rn) (g rn')"
  shows "mset (on_channel ch (concat (map (\<lambda>a. g (the (cn_runs s a))) addrs))) \<subseteq>#
    mset (on_channel ch (concat (map (\<lambda>a. g (the (cn_runs s' a))) addrs)))"
  using assms(2)
proof (induction addrs)
  case (Cons a addrs)
  then obtain rn where rn: "cn_runs s a = Some rn" by auto
  with assms(1) obtain rn' where rn': "cn_runs s' a = Some rn'" "grows rn rn'"
    unfolding runs_grow_def by blast
  from assms(3)[OF rn'(2)] have "mset (on_channel ch (g rn)) \<subseteq># mset (on_channel ch (g rn'))"
    by (auto simp: prefix_def)
  from subset_mset.add_mono[OF this Cons.IH] Cons.prems rn rn' show ?case by simp
qed (simp add: on_channel_def)

lemma exchange_exists:
  assumes "runs_grow s s'" and "\<forall>a \<in> set addrs. cn_runs s a \<noteq> None"
  shows "\<exists>calls rs. exchange s s' addrs ch calls rs"
proof -
  have "mset (asked_on s addrs ch) \<subseteq># mset (asked_on s' addrs ch)"
    "mset (answered_on s addrs ch) \<subseteq># mset (answered_on s' addrs ch)"
    unfolding asked_on_def answered_on_def by (rule on_channel_grows[OF assms]; simp add: grows_def)+
  then obtain A B where "mset (asked_on s' addrs ch) = mset (asked_on s addrs ch) + A"
    "mset (answered_on s' addrs ch) = mset (answered_on s addrs ch) + B"
    by (metis subset_mset.le_iff_add)
  moreover obtain calls rs where "A = mset calls" "B = mset rs" by (metis ex_mset)
  ultimately show ?thesis by (auto simp: exchange_def)
qed

text \<open>
  From a state in which nothing asked on a channel is open, whatever the runs of the nodes do: what
  comes into the channel answers only requests that were put on it since, each at most once and
  under its own id and method; and when as many answers have come as requests were made, the
  answers are exactly those to the requests and again nothing is open.
\<close>

theorem channel_exchange:
  assumes "ws_reach encode decode timeout s" and "(ws_step encode decode timeout)\<^sup>*\<^sup>* s s'"
    and "nodes_of s addrs" and "nodes_of s' addrs" and "settled s addrs ch"
  shows "(\<exists>calls rs. exchange s s' addrs ch calls rs) \<and>
    (\<forall>calls rs. exchange s s' addrs ch calls rs \<longrightarrow> mset (map ident rs) \<subseteq># mset calls \<and>
      (length rs = length calls \<longrightarrow> mset (map ident rs) = mset calls \<and> settled s' addrs ch))"
proof -
  have "\<forall>a \<in> set addrs. cn_runs s a \<noteq> None" using assms(3) by (auto simp: nodes_of_def)
  with exchange_exists[OF ws_steps_grow[OF assms(2)]]
    exchange_idents[OF ws_steps_reach[OF assms(2,1)] assms(4,5)] show ?thesis by blast
qed

subsection \<open>No request stays open past its deadline\<close>

text \<open>One tick of the timeout checker of each node, at \<open>now\<close>, in the order its map is visited.\<close>

definition late_ticks :: "int \<Rightarrow> int \<Rightarrow> (string \<Rightarrow> u64 list) \<Rightarrow> string list \<Rightarrow> Conn \<Rightarrow> Conn" where
  "late_ticks timeout now keys addrs s =
     fold (\<lambda>a s. set_run a (timeout_tick timeout now (keys a) (the (cn_runs s a))) s) addrs s"

lemma set_run_runs [simp]: "cn_runs (set_run a rn s) b = (if b = a then Some rn else cn_runs s b)"
  by (simp add: set_run_def)

lemma late_ticks_runs:
  "distinct addrs \<Longrightarrow> cn_runs (late_ticks timeout now keys addrs s) b =
     (if b \<in> set addrs then Some (timeout_tick timeout now (keys b) (the (cn_runs s b))) else cn_runs s b)"
  unfolding late_ticks_def by (induction addrs arbitrary: s) auto

lemma late_ticks_steps:
  assumes "distinct addrs" and "\<forall>a \<in> set addrs. \<exists>rn. cn_runs s a = Some rn \<and> all_keys (keys a) rn"
  shows "(ws_step encode decode timeout)\<^sup>*\<^sup>* s (late_ticks timeout now keys addrs s)"
  using assms
proof (induction addrs arbitrary: s)
  case (Cons a addrs)
  let ?s = "set_run a (timeout_tick timeout now (keys a) (the (cn_runs s a))) s"
  obtain rn where rn: "cn_runs s a = Some rn" "all_keys (keys a) rn" using Cons.prems(2) by auto
  have "ws_step encode decode timeout s ?s" using ws_step.tick[OF rn] rn(1) by simp
  moreover have "(ws_step encode decode timeout)\<^sup>*\<^sup>* ?s (late_ticks timeout now keys addrs ?s)"
    using Cons.prems by (intro Cons.IH) auto
  ultimately show ?case unfolding late_ticks_def
    by (simp add: converse_rtranclp_into_rtranclp)
qed (simp add: late_ticks_def)

lemma settled_runs:
  assumes "\<forall>a \<in> set addrs. \<exists>rn. cn_runs s a = Some rn \<and>
    mset (on_channel ch (map answered (rn_sent rn))) = mset (on_channel ch (rn_taken rn))"
  shows "settled s addrs ch"
  using assms
proof (induction addrs)
  case (Cons a addrs)
  then obtain rn where rn: "cn_runs s a = Some rn"
    "mset (on_channel ch (map answered (rn_sent rn))) = mset (on_channel ch (rn_taken rn))" by auto
  from Cons have "settled s addrs ch" by simp
  with rn show ?case
    by (simp add: settled_def asked_on_def answered_on_def on_channel_answered del: mset_map)
qed (simp add: settled_def asked_on_def answered_on_def on_channel_def)

text \<open>Every waiting request of the run is past its deadline, and none was dropped on the channel.\<close>

definition all_late :: "int \<Rightarrow> int \<Rightarrow> nat \<Rightarrow> run \<Rightarrow> bool" where
  "all_late timeout now ch rn \<longleftrightarrow> (\<forall>st \<in> ran (rn_map rn). now - st_Time st > timeout) \<and>
     on_channel ch (rn_dropped rn) = []"

lemma dropped_tick: "rn_dropped (timeout_tick timeout now keys rn) = rn_dropped rn"
proof -
  have "rn_dropped (fail_request e k rn) = rn_dropped rn" for e k rn
    by (simp add: fail_request_def forget_def answer_def split: option.split)
  then show ?thesis unfolding timeout_tick_def by (induction keys arbitrary: rn) simp_all
qed

lemma late_tick_answers:
  assumes "conserved rn" and "all_keys keys rn" and "distinct keys" and "all_late timeout now ch rn"
  shows "mset (on_channel ch (map answered (rn_sent (timeout_tick timeout now keys rn)))) =
    mset (on_channel ch (rn_taken (timeout_tick timeout now keys rn)))"
proof -
  let ?rn = "timeout_tick timeout now keys rn"
  have keys: "distinct keys" "set keys = dom (rn_map rn)" using assms(2,3) by (simp_all add: all_keys_def)
  have "overdue now timeout rn k" if "k \<in> set keys" for k
    using that assms(4) by (auto simp: keys(2) overdue_def all_late_def ran_def)
  then have "filter (overdue now timeout rn) keys = keys" by (simp add: filter_id_conv)
  then have "dom (rn_map ?rn) = {}" using keys by (simp add: tick_filter)
  then have "mset (rn_taken ?rn) = mset (map answered (rn_sent ?rn)) + mset (rn_dropped rn)"
    using conserved_tick[OF assms(1), of timeout now keys] by (simp add: conserved_def dropped_tick pending_def)
  then have "image_mset snd (filter_mset (\<lambda>x. fst x = ch) (mset (rn_taken ?rn))) =
      image_mset snd (filter_mset (\<lambda>x. fst x = ch) (mset (map answered (rn_sent ?rn)))) +
      image_mset snd (filter_mset (\<lambda>x. fst x = ch) (mset (rn_dropped rn)))"
    by (simp only: filter_union_mset image_mset_union)
  then have "mset (on_channel ch (rn_taken ?rn)) =
      mset (on_channel ch (map answered (rn_sent ?rn))) + mset (on_channel ch (rn_dropped rn))"
    by (simp only: on_channel_def mset_map mset_filter)
  then show ?thesis using assms(4) by (simp add: all_late_def)
qed

text \<open>
  C30: However silent the nodes are, no request stays open: from any reachable state, one tick of the
  timeout checker of each node at a time past all deadlines settles a channel on which no reply was
  dropped for want of room. The ticks ask nothing new.
\<close>

theorem late_ticks_settle:
  assumes "ws_reach encode decode timeout s" and "nodes_of s addrs" and "distinct addrs"
    and "\<forall>a \<in> set addrs. all_keys (keys a) (the (cn_runs s a)) \<and> distinct (keys a) \<and> all_late timeout now ch (the (cn_runs s a))"
  shows "(ws_step encode decode timeout)\<^sup>*\<^sup>* s (late_ticks timeout now keys addrs s) \<and>
    settled (late_ticks timeout now keys addrs s) addrs ch \<and>
    asked_on (late_ticks timeout now keys addrs s) addrs ch = asked_on s addrs ch"
proof (intro conjI)
  have run: "\<exists>rn. cn_runs s a = Some rn \<and> conserved rn \<and> all_keys (keys a) rn \<and> distinct (keys a) \<and>
      all_late timeout now ch rn" if "a \<in> set addrs" for a
  proof -
    from that assms(2) obtain rn where rn: "cn_runs s a = Some rn" "length (rn_taken rn) \<le> 2 ^ 64"
      by (auto simp: nodes_of_def)
    with reach_run[OF assms(1) rn(1)] assms(4) that show ?thesis by (auto simp: run_inv_def)
  qed
  then show "(ws_step encode decode timeout)\<^sup>*\<^sup>* s (late_ticks timeout now keys addrs s)"
    by (intro late_ticks_steps[OF assms(3)]) blast
  show "settled (late_ticks timeout now keys addrs s) addrs ch"
    by (rule settled_runs) (use run in \<open>fastforce simp: late_ticks_runs[OF assms(3)] late_tick_answers\<close>)
  have "rn_taken (timeout_tick timeout now ks rn) = rn_taken rn" for ks rn
    using same_book_tick[of rn timeout now ks] by (simp add: same_book_def)
  then show "asked_on (late_ticks timeout now keys addrs s) addrs ch = asked_on s addrs ch"
    by (simp add: asked_on_def late_ticks_runs[OF assms(3)] cong: map_cong)
qed

subsection \<open>The replies to the requests of a block\<close>

text \<open>A result without an error is an object for the block and the runtime version, else a string.\<close>

definition result_of :: "string \<Rightarrow> string \<Rightarrow> string" where
  "result_of m t = (if m \<in> {''chain_getBlock'', ''state_getRuntimeVersion''}
     then CHR ''{'' # t @ ''}'' else quoted t)"

definition good_reply :: "Response \<Rightarrow> bool" where
  "good_reply r \<longleftrightarrow> rp_Error r = None \<and> (\<exists>t. rp_Result r = result_of (rp_Type r) t)"

fun ident_of :: "rpc_call \<Rightarrow> u64 \<times> string" where
  "ident_of (rid, m, ps) = (rid, m)"

fun good_answer :: "rpc_call \<Rightarrow> string \<Rightarrow> Response" where
  "good_answer (rid, m, ps) t = reply rid m (result_of m t)"

lemma good_reply_eq:
  assumes "good_reply r" and "ident r = ident_of c"
  shows "\<exists>t. r = good_answer c t"
  using assms by (cases r; cases c) (auto simp: good_reply_def reply_def)

lemma good_replies:
  assumes "mset (map ident rs) = mset (map ident_of calls)" and "\<forall>r \<in> set rs. good_reply r"
  shows "\<exists>ts. length ts = length calls \<and> mset rs = mset (map2 good_answer calls ts)"
  using assms
proof (induction calls arbitrary: rs)
  case (Cons c calls)
  from Cons.prems(1) have "image_mset ident (mset rs) = add_mset (ident_of c) (mset (map ident_of calls))"
    by simp
  from msed_map_invR[OF this] obtain M r where r: "mset rs = add_mset r M" "ident r = ident_of c"
    "image_mset ident M = mset (map ident_of calls)" by blast
  obtain rs' where rs': "M = mset rs'" by (metis ex_mset)
  have "set rs = insert r (set rs')" using r(1) unfolding rs' by (metis set_mset_add_mset_insert set_mset_mset)
  with Cons.prems(2) have g: "good_reply r" "\<forall>r \<in> set rs'. good_reply r" by auto
  from Cons.IH[OF _ g(2)] r(3) rs' obtain ts where ts: "length ts = length calls"
    "mset rs' = mset (map2 good_answer calls ts)" by auto
  from good_reply_eq[OF g(1) r(2)] obtain t where "r = good_answer c t" ..
  with ts r(1) rs' show ?case by (intro exI[of _ "t # ts"]) simp
qed simp

lemma hash_replies_from:
  assumes "mset (map ident rs) = mset (map ident_of (hash_calls height))" and "\<forall>r \<in> set rs. good_reply r"
  shows "\<exists>b p g. mset rs = {#hash_resp RequestBlockHash b, hash_resp RequestParentBlockHash p,
    hash_resp RequestGrandparentBlockHash g#}"
proof -
  from good_replies[OF assms] obtain ts where len: "length ts = length (hash_calls height)"
    and m: "mset rs = mset (map2 good_answer (hash_calls height) ts)" by blast
  from len obtain b p g where "ts = [b, p, g]" by (auto simp: hash_calls_def length_Suc_conv)
  with m show ?thesis by (auto simp: hash_calls_def reply_def hash_resp_def result_of_def)
qed

lemma other_replies_from:
  assumes "mset (map ident rs) = mset (map ident_of (other_calls bh ph gh))" and "\<forall>r \<in> set rs. good_reply r"
  shows "\<exists>chain blk time events fee era runtime.
    mset rs = mset (other_replies chain blk time events fee era runtime)"
proof -
  from good_replies[OF assms] obtain ts where len: "length ts = length (other_calls bh ph gh)"
    and m: "mset rs = mset (map2 good_answer (other_calls bh ph gh) ts)" by (elim exE conjE)
  have "length (other_calls bh ph gh) = 7" by (simp add: other_calls_def)
  with map_nth[of ts] len have "map ((!) ts) [0..<7] = ts" by (simp only:)
  then obtain f where ts: "ts = map f [0..<7]" by (metis that)
  have up: "[0..<7] = [0, 1, 2, 3, 4, 5, 6 :: nat]" by (simp add: upt_rec)
  have "map2 good_answer (other_calls bh ph gh) (map f [0..<7]) =
    other_replies (f 0) (f 1) (f 2) (f 3) (f 4) (f 5) (f 6)"
    unfolding up by (simp add: other_calls_def other_replies_def result_of_def)
  with m ts have "mset rs = mset (other_replies (f 0) (f 1) (f 2) (f 3) (f 4) (f 5) (f 6))" by (simp only:)
  then show ?thesis by (intro exI)
qed

text \<open>
  A block over the websockets. The channel has nothing open at \<open>s0\<close>. Until \<open>s1\<close> exactly the three
  requests for hashes are put on it and three good replies come in; until \<open>s2\<close> exactly the seven
  requests for the data of the hashes that were replied, and seven good replies. Then the node
  has answered in the sense of \<open>node_answers\<close>, whatever other requests the runs serve on
  other channels and in whatever order the replies come.
\<close>

lemma exchanges_node_answers:
  assumes reach: "ws_reach encode decode timeout s1" "ws_reach encode decode timeout s2"
    and nodes: "nodes_of s1 addrs" "nodes_of s2 addrs" and "settled s0 addrs ch"
    and x1: "exchange s0 s1 addrs ch (map ident_of (hash_calls height)) rs" and "length rs = 3"
    and good: "\<forall>r \<in> set rs. good_reply r" "\<forall>r \<in> set os. good_reply r"
    and x2: "\<And>b p g. mset rs = {#hash_resp RequestBlockHash b, hash_resp RequestParentBlockHash p,
        hash_resp RequestGrandparentBlockHash g#} \<Longrightarrow>
      exchange s1 s2 addrs ch (map ident_of (other_calls b p g)) os" and "length os = 7"
    and "1 < height" and "io_sends io = []" and "cold (en_lru E) height (io_cache io) c'"
    and "decodes (en_codecs E) os" and "io_inbox io = rs @ os @ rest"
  shows "\<exists>D. mset rs = mset (node_hashes D) \<and> mset os = mset (node_others D) \<and>
    node_answers E height D c' rest io"
proof -
  have 1: "mset (map ident rs) = mset (map ident_of (hash_calls height)) \<and> settled s1 addrs ch"
    by (rule exchange_idents(2)[OF reach(1) nodes(1) assms(5) x1]) (simp add: assms(7) hash_calls_def)
  from hash_replies_from[OF conjunct1[OF 1] good(1)] obtain b p g where bpg:
    "mset rs = {#hash_resp RequestBlockHash b, hash_resp RequestParentBlockHash p,
        hash_resp RequestGrandparentBlockHash g#}" by blast
  have "length os = length (map ident_of (other_calls b p g))" using assms(11) by (simp add: other_calls_def)
  note 2 = exchange_idents(2)[OF reach(2) nodes(2) conjunct2[OF 1] x2[OF bpg] this]
  from other_replies_from[OF conjunct1[OF 2] good(2)] obtain chain blk time events fee era runtime where
    os: "mset os = mset (other_replies chain blk time events fee era runtime)" by blast
  let ?D = "\<lparr>nd_hash = b, nd_parent = p, nd_grandparent = g, nd_chain = chain, nd_block = blk, nd_time = time,
     nd_events = events, nd_fee = fee, nd_era = era, nd_runtime = runtime\<rparr>"
  have "mset rs = mset (node_hashes ?D)" "mset os = mset (node_others ?D)"
    using bpg os by (simp_all add: node_hashes_def node_others_def)
  moreover from this have "node_answers E height ?D c' rest io"
    unfolding node_answers_def using assms(12-16) by blast
  ultimately show ?thesis by blast
qed

definition block_exchanges :: "string list \<Rightarrow> nat \<Rightarrow> Conn \<Rightarrow> Conn \<Rightarrow> Conn \<Rightarrow> u64 \<Rightarrow> Response list \<Rightarrow>
    Response list \<Rightarrow> bool" where
  "block_exchanges addrs ch s0 s1 s2 height rs os \<longleftrightarrow>
     settled s0 addrs ch \<and> nodes_of s1 addrs \<and> nodes_of s2 addrs \<and>
     length rs = 3 \<and> length os = 7 \<and> (\<forall>r \<in> set rs. good_reply r) \<and> (\<forall>r \<in> set os. good_reply r) \<and>
     exchange s0 s1 addrs ch (map ident_of (hash_calls height)) rs \<and>
     (\<forall>b p g. mset rs = {#hash_resp RequestBlockHash b, hash_resp RequestParentBlockHash p,
        hash_resp RequestGrandparentBlockHash g#} \<longrightarrow>
      exchange s1 s2 addrs ch (map ident_of (other_calls b p g)) os)"

text \<open>
  C3: A block over the websockets. The channel has nothing open at \<open>s0\<close>. Until \<open>s1\<close> exactly the
  three requests for hashes are put on it and three good replies come in; until \<open>s2\<close> exactly the
  seven requests for the data of the hashes that were replied, and seven good replies. Whatever
  other requests the runs serve and in whatever order the replies come, the replies are those of
  one node's data \<open>D\<close>, and \<open>blockAndTx\<close> hands the proxy that data and returns what the mappers and
  the pairing make of the proxy's answer, with the channel as empty as it was.
\<close>

theorem block_over_websockets:
  assumes "ws_reach encode decode timeout s1" and "ws_reach encode decode timeout s2"
    and "block_exchanges addrs ch s0 s1 s2 height rs os" and "decodes (en_codecs E) os"
    and "1 < height" and "io_sends io = []" and "cold (en_lru E) height (io_cache io) c'"
    and "io_inbox io = rs @ os @ rest"
  shows "(\<exists>D. mset rs = mset (node_hashes D) \<and> mset os = mset (node_others D)) \<and>
    (\<forall>D meta txs resp. mset rs = mset (node_hashes D) \<and> mset os = mset (node_others D) \<longrightarrow>
       known_runtime E D ds meta txs \<longrightarrow> en_proxy E (decode_request D (md_Bytes meta)) height = Ret resp \<longrightarrow>
       blockAndTx E height ds io =
         (fmap_go (\<lambda>out. (out, ds)) (block_transactions E txs resp), after_block E height D c' rest io))"
proof (intro conjI allI impI)
  note x = assms(3)[unfolded block_exchanges_def]
  have "\<exists>D. mset rs = mset (node_hashes D) \<and> mset os = mset (node_others D) \<and> node_answers E height D c' rest io"
    by (rule exchanges_node_answers[OF assms(1,2) _ _ _ _ _ _ _ _ _ assms(5-7,4,8), where ?s0.0 = s0 and addrs = addrs and ch = ch])
      (use x in \<open>blast+\<close>)
  then show "\<exists>D. mset rs = mset (node_hashes D) \<and> mset os = mset (node_others D)" by blast
next
  fix D meta txs resp
  assume m: "mset rs = mset (node_hashes D) \<and> mset os = mset (node_others D)"
    and k: "known_runtime E D ds meta txs" "en_proxy E (decode_request D (md_Bytes meta)) height = Ret resp"
  have "node_answers E height D c' rest io"
    unfolding node_answers_def using m assms(4-8) by blast
  from blockAndTx_run[OF this k] show "blockAndTx E height ds io =
      (fmap_go (\<lambda>out. (out, ds)) (block_transactions E txs resp), after_block E height D c' rest io)" .
qed

text \<open>
  One node that answers the requests for the block of \<open>sample_data\<close>, each kind in reverse order. Its
  messages begin with a letter that gives the number of the request in its run.
\<close>

definition tag_decode :: "string \<Rightarrow> goerror + JsonRPCResponse" where
  "tag_decode m = Inr \<lparr>jr_ID = of_char (hd m) - 97, jr_JSONRPC = ''2.0'', jr_Result = tl m\<rparr>"

definition block_hashed :: run where
  "block_hashed = fold (recv_message tag_decode True) [CHR ''c'' # quoted ''g'', CHR ''b'' # quoted ''p'', CHR ''a'' # quoted ''b'']
     (fold ask (map ident_of (hash_calls 9)) (run_dial True new_run))"

definition block_served :: run where
  "block_served = fold (recv_message tag_decode True)
     [''j{v}'', CHR ''i'' # quoted ''r'', CHR ''h'' # quoted ''f'', CHR ''g'' # quoted ''e'', CHR ''f'' # quoted ''t'',
      ''e{k}'', CHR ''d'' # quoted ''c'']
     (fold ask (map ident_of (other_calls ''b'' ''p'' ''g'')) block_hashed)"

lemma block_hashed_online: "rn_phase block_hashed = Online"
  by (simp add: block_hashed_def hash_calls_def ask_eq run_dial_def new_run_def recv_message_def
      tag_decode_def quoted_def answer_def forget_def)

lemma block_served_reach:
  "ws_reach sample_encode tag_decode 30 (conn_at block_hashed)"
  "ws_reach sample_encode tag_decode 30 (conn_at block_served)"
proof -
  show 1: "ws_reach sample_encode tag_decode 30 (conn_at block_hashed)" unfolding block_hashed_def
    by (rule ws_steps_reach[OF steps_served dialled_reach]) (simp add: run_dial_def)
  show "ws_reach sample_encode tag_decode 30 (conn_at block_served)" unfolding block_served_def
    by (rule ws_steps_reach[OF steps_served[OF block_hashed_online] 1])
qed

lemma block_hashed_run:
  "rn_next block_hashed = 3" "rn_map block_hashed = Map.empty"
  "rn_taken block_hashed = map (Pair 5) (map ident_of (hash_calls 9))"
  "rn_sent block_hashed = map (Pair 5) (rev (node_hashes sample_data))"
  by (simp_all add: block_hashed_def hash_calls_def ask_eq run_dial_def new_run_def recv_message_def
      tag_decode_def quoted_def answer_def forget_def node_hashes_def sample_data_def hash_resp_def)

lemma block_served_run:
  "rn_taken block_served = map (Pair 5) (map ident_of (hash_calls 9) @ map ident_of (other_calls ''b'' ''p'' ''g''))"
  "rn_sent block_served = map (Pair 5) (rev (node_hashes sample_data) @ rev (node_others sample_data))"
  by (simp_all add: block_served_def other_calls_def ask_eq recv_message_def block_hashed_run
      tag_decode_def quoted_def answer_def forget_def node_others_def other_replies_def reply_def sample_data_def)

lemma conn_at_run [simp]: "cn_runs (conn_at rn) ''n'' = Some rn"
  by (simp add: conn_at_def set_run_def)

lemma conn_at_channel:
  "rn_taken rn = map (Pair 5) cs \<Longrightarrow> asked_on (conn_at rn) [''n''] 5 = cs"
  "rn_sent rn = map (Pair 5) rs \<Longrightarrow> answered_on (conn_at rn) [''n''] 5 = rs"
  by (simp_all add: asked_on_def answered_on_def on_channel_def filter_map comp_def)

lemma dialled_channel:
  "asked_on (conn_at (run_dial True new_run)) [''n''] 5 = []" "answered_on (conn_at (run_dial True new_run)) [''n''] 5 = []"
  by (simp_all add: asked_on_def answered_on_def on_channel_def run_dial_def new_run_def)

lemma good_node_replies: "r \<in> set (node_hashes D) \<union> set (node_others D) \<Longrightarrow> good_reply r"
  by (auto simp: node_hashes_def node_others_def other_replies_def hash_resp_def reply_def good_reply_def result_of_def)

lemma sample_exchanges:
  "block_exchanges [''n''] 5 (conn_at (run_dial True new_run)) (conn_at block_hashed) (conn_at block_served) 9
     (rev (node_hashes sample_data)) (rev (node_others sample_data))"
  unfolding block_exchanges_def
proof (intro conjI allI impI)
  show "\<forall>r \<in> set (rev (node_hashes sample_data)). good_reply r"
    "\<forall>r \<in> set (rev (node_others sample_data)). good_reply r"
    using good_node_replies by (simp_all only: set_rev) blast+
next
  fix b p g
  assume "mset (rev (node_hashes sample_data)) = {#hash_resp RequestBlockHash b, hash_resp RequestParentBlockHash p,
        hash_resp RequestGrandparentBlockHash g#}"
  then have "b = ''b'' \<and> p = ''p'' \<and> g = ''g''"
    by (simp add: node_hashes_def sample_data_def hash_resp_def quoted_def request_ids add_eq_conv_ex)
  then show "exchange (conn_at block_hashed) (conn_at block_served) [''n''] 5
      (map ident_of (other_calls b p g)) (rev (node_others sample_data))"
    by (simp add: exchange_def conn_at_channel(1)[OF block_hashed_run(3)] conn_at_channel(2)[OF block_hashed_run(4)]
        conn_at_channel(1)[OF block_served_run(1)] conn_at_channel(2)[OF block_served_run(2)])
qed (simp_all add: settled_def dialled_channel nodes_of_def exchange_def block_hashed_run block_served_run
    conn_at_channel(1)[OF block_hashed_run(3)] conn_at_channel(2)[OF block_hashed_run(4)]
    node_hashes_def node_others_def other_replies_def hash_calls_def other_calls_def)

text \<open>A node that has taken the requests for the hashes and never answers.\<close>

theorem late_ticks_settle_witness:
  "settled (late_ticks 30 31 (\<lambda>a. [0, 1, 2]) [''n''] (conn_at hashes_asked)) [''n''] 5 \<and>
   length (answered_on (late_ticks 30 31 (\<lambda>a. [0, 1, 2]) [''n''] (conn_at hashes_asked)) [''n''] 5) = 3"
proof -
  let ?s = "late_ticks 30 31 (\<lambda>a. [0, 1, 2]) [''n''] (conn_at hashes_asked)"
  have reach: "ws_reach sample_encode count_decode 30 (conn_at hashes_asked)" unfolding hashes_asked_def
    by (rule ws_steps_reach[OF steps_asks dialled_reach]) (simp add: run_dial_def)
  have run: "rn_map hashes_asked = [0 \<mapsto> \<lparr>st_ID = RequestBlockHash, st_Type = ''chain_getBlockHash'', st_Time = 0, st_RespCH = 5\<rparr>,
      1 \<mapsto> \<lparr>st_ID = RequestParentBlockHash, st_Type = ''chain_getBlockHash'', st_Time = 0, st_RespCH = 5\<rparr>,
      2 \<mapsto> \<lparr>st_ID = RequestGrandparentBlockHash, st_Type = ''chain_getBlockHash'', st_Time = 0, st_RespCH = 5\<rparr>]"
    "rn_taken hashes_asked = map (Pair 5) (map (\<lambda>i. (i, ''chain_getBlockHash''))
      [RequestBlockHash, RequestParentBlockHash, RequestGrandparentBlockHash])" "rn_dropped hashes_asked = []"
    by (simp_all add: hashes_asked_def ask_eq run_dial_def new_run_def)
  have "all_keys [0, 1, 2] hashes_asked" by (auto simp: all_keys_def run(1))
  moreover have "all_late 30 31 5 hashes_asked"
    by (simp add: all_late_def run(1,3) on_channel_def)
  ultimately have "settled ?s [''n''] 5 \<and> asked_on ?s [''n''] 5 = asked_on (conn_at hashes_asked) [''n''] 5"
    using late_ticks_settle[OF reach, of "[''n'']" "\<lambda>a. [0, 1, 2]" 31 5] by (simp add: nodes_of_def run(2))
  moreover from this have "length (map ident (answered_on ?s [''n''] 5)) = length (asked_on (conn_at hashes_asked) [''n''] 5)"
    by (intro mset_eq_length) (simp add: settled_def)
  ultimately show ?thesis by (simp add: conn_at_channel(1)[OF run(2)])
qed

theorem channel_exchange_witness:
  "mset (map ident (rev (node_hashes sample_data))) \<subseteq># mset (map ident_of (hash_calls 9)) \<and>
   settled (conn_at block_hashed) [''n''] 5"
proof -
  have steps: "(ws_step sample_encode tag_decode 30)\<^sup>*\<^sup>* (conn_at (run_dial True new_run)) (conn_at block_hashed)"
    unfolding block_hashed_def by (rule steps_served) (simp add: run_dial_def)
  have "exchange (conn_at (run_dial True new_run)) (conn_at block_hashed) [''n''] 5
      (map ident_of (hash_calls 9)) (rev (node_hashes sample_data))"
    using sample_exchanges by (simp add: block_exchanges_def)
  moreover have "length (rev (node_hashes sample_data)) = length (map ident_of (hash_calls 9))"
    by (simp add: node_hashes_def hash_calls_def)
  moreover have "nodes_of (conn_at (run_dial True new_run)) [''n'']"
    by (simp add: nodes_of_def run_dial_def new_run_def)
  moreover have "nodes_of (conn_at block_hashed) [''n'']" "settled (conn_at (run_dial True new_run)) [''n''] 5"
    using sample_exchanges by (simp_all add: block_exchanges_def)
  ultimately show ?thesis using channel_exchange[OF dialled_reach steps] by blast
qed

theorem block_over_websockets_witness:
  "\<exists>out s'. blockAndTx sample_env 9 sample_store
      (io_with Map.empty (rev (node_hashes sample_data) @ rev (node_others sample_data))) =
        (Ret (out, sample_store), s') \<and> b_Height (bwm_Block (fst out)) = 9"
proof -
  let ?io = "io_with Map.empty (rev (node_hashes sample_data) @ rev (node_others sample_data)) :: (u64 \<rightharpoonup> string) io"
  note b = block_over_websockets[OF block_served_reach sample_exchanges, of sample_env ?io Map.empty "[]" sample_store]
  have "blockAndTx sample_env 9 sample_store ?io =
      (fmap_go (\<lambda>out. (out, sample_store)) (block_transactions sample_env [] \<lparr>dr_Block = Some empty_block, dr_Epoch = ''e''\<rparr>),
       after_block sample_env 9 sample_data Map.empty [] ?io)"
    by (rule b[THEN conjunct2, rule_format, OF _ _ _ _ _ _ sample_known])
      (simp_all add: sample_env_def plain_decodes word_less_def io_with_def map_cache_cold
        decode_request_def sample_data_def)
  then show ?thesis
    by (simp add: block_transactions_def sample_env_def empty_block_def BlockMapper_def deref_def)
qed

end
