(* ===== verification/Channel_Debt.thy ===== *)
theory Channel_Debt
  imports Account Ws_Replies
begin

section \<open>A channel goes back to its pool with nothing outstanding (indexer/getBlock.go, account.go)\<close>

text \<open>
  The numbers of requests are constants, so a reply that comes into a channel after it was put back
  would be taken for the reply to the next request of its kind. This theory shows that it cannot
  happen. \<open>owes d m p\<close> bounds the requests sent less the replies taken: an action \<open>m\<close> that starts
  with at most \<open>d\<close> outstanding ends with at most \<open>p x\<close> when it returns \<open>x\<close>, and with none when it fails.
  The sends of an action are all accepted, or the first one is refused, since \<open>Send\<close> never refuses
  again once it has accepted (\<open>send_never_refused_again\<close>).
\<close>

definition steady_sends :: "int \<Rightarrow> 'c io \<Rightarrow> bool" where
  "steady_sends d s \<longleftrightarrow> io_sends s = [] \<or> d \<le> 0 \<and> (\<exists>e rest. io_sends s = Some e # rest)"

text \<open>From \<open>s\<close> to \<open>s'\<close> the requests \<open>calls\<close> were sent and the replies \<open>rs\<close> were taken.\<close>

definition traffic :: "'c io \<Rightarrow> 'c io \<Rightarrow> rpc_call list \<Rightarrow> Response list \<Rightarrow> bool" where
  "traffic s s' calls rs \<longleftrightarrow> io_log s' = io_log s @ calls \<and> io_inbox s = rs @ io_inbox s'"

lemma traffic_none: "traffic s s [] []"
  by (simp add: traffic_def)

lemma traffic_trans: "traffic s t a b \<Longrightarrow> traffic t u a' b' \<Longrightarrow> traffic s u (a @ a') (b @ b')"
  by (simp add: traffic_def)

definition leaves :: "int \<Rightarrow> 'c io \<Rightarrow> 'c io \<Rightarrow> int \<Rightarrow> bool" where
  "leaves d s s' d' \<longleftrightarrow> (\<exists>calls rs. traffic s s' calls rs \<and> d + int (length calls) - int (length rs) \<le> d')"

lemma leaves_none: "d \<le> d' \<Longrightarrow> leaves d s s d'"
  unfolding leaves_def using traffic_none[of s] by fastforce

lemma leaves_trans:
  assumes "leaves d s t d'" and "leaves d' t u d''"
  shows "leaves d s u d''"
proof -
  from assms obtain a b a' b' where "traffic s t a b" "d + int (length a) - int (length b) \<le> d'"
    "traffic t u a' b'" "d' + int (length a') - int (length b') \<le> d''" unfolding leaves_def by blast
  then show ?thesis unfolding leaves_def
    by (intro exI[of _ "a @ a'"] exI[of _ "b @ b'"]) (simp add: traffic_trans)
qed

definition owes :: "int \<Rightarrow> ('a, 'c) act \<Rightarrow> ('a \<Rightarrow> int) \<Rightarrow> bool" where
  "owes d m p \<longleftrightarrow> (\<forall>s. steady_sends d s \<longrightarrow>
     (case m s of
        (Ret x, s') \<Rightarrow> steady_sends (p x) s' \<and> leaves d s s' (p x)
      | (Fail e, s') \<Rightarrow> leaves d s s' 0
      | _ \<Rightarrow> True))"

named_theorems debt \<open>what actions owe\<close>

lemma owes_ret [debt]: "owes (p x) (ret x) p"
  by (simp add: owes_def ret_def leaves_none)

lemma owes_fail [debt]: "d \<le> 0 \<Longrightarrow> owes d (fail e) p"
  by (simp add: owes_def fail_def leaves_none)

lemma owes_lift: "d \<le> 0 \<or> (\<forall>e. r \<noteq> Fail e) \<Longrightarrow> owes d (lift_go r) (\<lambda>_. d)"
  by (auto simp: owes_def lift_go_def leaves_none split: go.split)

lemma owes_lift0 [debt]: "owes 0 (lift_go r) (\<lambda>_. 0)"
  by (rule owes_lift) simp

lemma owes_cut [debt]: "owes d (lift_go (cut_quotes t)) (\<lambda>_. d)"
  by (rule owes_lift) (use cut_quotes_cases[of t] in auto)

lemma owes_add [debt]: "owes d (cache_add L k v) (\<lambda>_. d)"
  by (auto simp: owes_def cache_add_def steady_sends_def leaves_def traffic_def)

lemma owes_get [debt]: "owes d (cache_get L k) (\<lambda>_. d)"
  by (auto simp: owes_def cache_get_def steady_sends_def leaves_def traffic_def split: prod.split)

lemma owes_send [debt]: "owes d (send_rpc rid m ps) (\<lambda>_. d + 1)"
  by (auto simp: owes_def send_rpc_def steady_sends_def leaves_def traffic_def)

lemma owes_receive [debt]: "owes d receive (\<lambda>_. d - 1)"
  by (auto simp: owes_def receive_def steady_sends_def leaves_def traffic_def split: list.split
      intro: exI[of _ "[_]"])

lemma owes_andthen [debt]:
  fixes m :: "('a, 'c) act" and f :: "'a \<Rightarrow> ('b, 'c) act"
  assumes "owes d m p" and "\<And>x. owes (p x) (f x) q"
  shows "owes d (andthen m f) q"
  unfolding owes_def
proof (intro allI impI)
  fix s :: "'c io"
  assume st: "steady_sends d s"
  obtain r t where m: "m s = (r, t)" by fastforce
  show "case andthen m f s of (Ret x, s') \<Rightarrow> steady_sends (q x) s' \<and> leaves d s s' (q x)
      | (Fail e, s') \<Rightarrow> leaves d s s' 0 | _ \<Rightarrow> True"
  proof (cases r)
    case (Ret x)
    have 1: "steady_sends (p x) t" "leaves d s t (p x)"
      using assms(1) st m Ret by (auto simp: owes_def)
    from assms(2)[of x] 1(1) have "case f x t of (Ret y, s') \<Rightarrow> steady_sends (q y) s' \<and> leaves (p x) t s' (q y)
      | (Fail e, s') \<Rightarrow> leaves (p x) t s' 0 | _ \<Rightarrow> True" by (simp add: owes_def)
    then show ?thesis
      using leaves_trans[OF 1(2)] by (auto simp: andthen_def m Ret split: go.splits prod.splits)
  next
    case (Fail e)
    then show ?thesis using assms(1) st m by (auto simp: owes_def andthen_def)
  qed (simp_all add: andthen_def m)
qed

lemma owes_wrap [debt]:
  fixes m :: "('a, 'c) act"
  shows "owes d m p \<Longrightarrow> owes d (wrap_err f m) p"
  unfolding owes_def wrap_err_def
proof (intro allI impI)
  fix s :: "'c io"
  assume h: "\<forall>s. steady_sends d s \<longrightarrow> (case m s of (Ret x, s') \<Rightarrow> steady_sends (p x) s' \<and> leaves d s s' (p x)
      | (Fail e, s') \<Rightarrow> leaves d s s' 0 | _ \<Rightarrow> True)" and st: "steady_sends d s"
  obtain r t where m: "m s = (r, t)" by fastforce
  from h st m show "case case m s of (r, s') \<Rightarrow> (map_err (Wrapf f []) r, s') of
      (Ret x, s') \<Rightarrow> steady_sends (p x) s' \<and> leaves d s s' (p x)
      | (Fail e, s') \<Rightarrow> leaves d s s' 0 | _ \<Rightarrow> True" by (cases r) fastforce+
qed

section \<open>Blocks\<close>

lemma owes_hash_or_ask [debt]: "owes d (hash_or_ask L key rid num) (\<lambda>x. d + int (snd x))"
proof -
  have "owes d (ret (h, 0)) (\<lambda>x. d + int (snd x))" for h :: string
    using owes_ret[of "\<lambda>x. d + int (snd x)" "(h, 0)"] by simp
  moreover have "owes (d + 1) (ret ([], 1)) (\<lambda>x :: string \<times> nat. d + int (snd x))"
    using owes_ret[of "\<lambda>x. d + int (snd x)" "([], 1)"] by simp
  ultimately show ?thesis unfolding hash_or_ask_def
    by (intro owes_andthen[OF owes_get]) (auto split: option.split intro: owes_andthen[OF owes_send])
qed

lemma owes_ret_const [debt]: "owes d (ret x) (\<lambda>_. d)"
  by (rule owes_ret)

lemma owes_hash_reply [debt]: "owes d (hash_reply L height r h) (\<lambda>_. d)"
  unfolding hash_reply_def
  by (auto split: option.split intro!: owes_ret_const owes_andthen[OF owes_cut] owes_andthen[OF owes_add])

lemma owes_hashes_loop [debt]: "owes (int n) (hashes_loop L height n h) (\<lambda>_. 0)"
proof (induction n arbitrary: h)
  case 0
  then show ?case using owes_ret_const[of 0] by simp
next
  case (Suc n)
  have "owes (int (Suc n)) receive (\<lambda>_. int n)" using owes_receive[of "int (Suc n)"] by simp
  from owes_andthen[OF this owes_andthen[OF owes_hash_reply Suc.IH]] show ?case by simp
qed

lemma owes_counted:
  assumes "owes d m (\<lambda>x. d + int (snd x))" and "\<And>a n. owes (d + int n) (f a n) q"
  shows "owes d (andthen m (\<lambda>(a, n). f a n)) q"
  by (rule owes_andthen[OF assms(1)]) (simp add: assms(2) split: prod.split)

lemma owes_maybe_ask: "owes d (if b then hash_or_ask L key rid num else ret ([], 0)) (\<lambda>x. d + int (snd x))"
  by (cases b) (simp_all add: owes_hash_or_ask owes_ret[of "\<lambda>x. d + int (snd x)" "([], 0)", simplified])

lemma owes_GetBlockHashes [debt]: "owes 0 (GetBlockHashes L height) (\<lambda>_. 0)"
proof -
  have "owes (0 + int n1 + int n2 + int n3) (if n1 + n2 + n3 = 0 then ret r
      else andthen (hashes_loop L height (n1 + n2 + n3) h) (\<lambda>h. case hs_err h of
              Some e \<Rightarrow> fail (g e)
            | None \<Rightarrow> if height = 0 then ret (r1 h) else if height = 1 then ret (r2 h) else ret (r3 h))) (\<lambda>_. 0)"
    for n1 n2 n3 r h g and r1 r2 r3 :: "hashes \<Rightarrow> string \<times> string \<times> string"
  proof -
    have "owes (0 + int n1 + int n2 + int n3) (hashes_loop L height (n1 + n2 + n3) h) (\<lambda>_. 0)"
      using owes_hashes_loop[of "n1 + n2 + n3" L height h] by simp
    note loop = owes_andthen[OF this]
    show ?thesis
    proof (cases "n1 + n2 + n3 = 0")
      case False
      then show ?thesis unfolding if_not_P[OF False]
        by (intro loop) (auto split: option.split intro!: owes_ret_const owes_fail)
    qed (simp add: owes_ret_const)
  qed
  then show ?thesis unfolding GetBlockHashes_def Let_def
    by (intro owes_counted owes_hash_or_ask owes_maybe_ask)
qed

lemma owes_getLatestHeight [debt]: "owes 0 (getLatestHeight u d L) (\<lambda>_. 0)"
proof -
  have send: "owes 0 (send_rpc rid m ps) (\<lambda>_. 1)" for rid m ps using owes_send[of 0] by simp
  have receive: "owes 1 receive (\<lambda>_. 0)" using owes_receive[of 1] by simp
  show ?thesis unfolding getLatestHeight_def Let_def
    by (auto split: option.split prod.split intro!: owes_andthen[OF send] owes_andthen[OF receive]
        owes_andthen[OF owes_cut] owes_andthen[OF owes_add] owes_ret_const owes_fail)
qed

lemma owes_GetMetadata [debt]: "owes 0 (GetMetadata process bh specName specVer ds) (\<lambda>_. 0)"
proof -
  have send: "owes 0 (send_rpc rid m ps) (\<lambda>_. 1)" for rid m ps using owes_send[of 0] by simp
  have receive: "owes 1 receive (\<lambda>_. 0)" using owes_receive[of 1] by simp
  show ?thesis unfolding GetMetadata_def
    by (auto split: option.split prod.split bool.split intro!: owes_andthen[OF send] owes_andthen[OF receive]
        owes_andthen[OF owes_cut] owes_lift0 owes_ret_const owes_fail)
qed

text \<open>The loop over the data replies takes at least seven, and never fails.\<close>

lemma cut_not_Fail: "cut_quotes t \<noteq> Fail e"
  using cut_quotes_cases[of t] by auto

lemma other_reply_not_Fail: "other_reply C r o1 \<noteq> Fail e"
  unfolding other_reply_def Let_def by (auto split: prod.splits simp: bind_go_eq_Fail cut_not_Fail)

lemma others_loop_takes:
  assumes "others_loop C i o1 inbox = (r, inbox')" and "r = Ret o2 \<or> r = Fail e"
  shows "\<exists>rs. inbox = rs @ inbox' \<and> 7 \<le> length rs + unat i \<and> (\<forall>e. r \<noteq> Fail e)"
  using assms
proof (induction C i o1 inbox rule: others_loop.induct)
  case (2 C i o1 res inbox)
  have inc: "unat (i + 1) \<le> unat i + 1"
    by (simp add: unat_word_ariths(1) mod_less_eq_dividend)
  have step: ?case if "\<exists>rs. inbox = rs @ inbox' \<and> 7 \<le> length rs + unat (i + 1) \<and> (\<forall>e. r \<noteq> Fail e)"
  proof -
    from that obtain rs where "inbox = rs @ inbox'" "7 \<le> length rs + unat (i + 1)" "\<forall>e. r \<noteq> Fail e" by blast
    then show ?thesis using inc by (intro exI[of _ "res # rs"]) simp
  qed
  have last: ?case if "inbox' = inbox" "6 \<le> unat i" "r = Ret x" for x
    using that by (intro exI[of _ "[res]"]) simp
  show ?case
  proof (cases "rp_Error res")
    case (Some e)
    with 2(3) show ?thesis
      by (cases "i = 7") (auto intro: step last 2(2)[OF Some _ _ 2(4)])
  next
    case None
    show ?thesis
    proof (cases "other_reply C res o1")
      case (Ret o3)
      with 2(3) None show ?thesis
        by (cases "i = 6") (auto intro: step last 2(1)[OF None Ret _ _ 2(4)])
    qed (use 2(3,4) None other_reply_not_Fail in auto)
  qed
qed simp

lemma owes_receive_others [debt]: "owes 7 (receive_others C) (\<lambda>_. 0)"
  unfolding owes_def
proof (intro allI impI)
  fix s :: "'c io"
  let ?z = "\<lparr>ot_ddr = zero_ddr, ot_block = zero_block, ot_prm = zero_runtime, ot_err = None\<rparr>"
  assume "steady_sends 7 s"
  then have sends: "io_sends s = []" by (simp add: steady_sends_def)
  obtain r inbox where l: "others_loop C 0 ?z (io_inbox s) = (r, inbox)" by fastforce
  have "\<exists>rs. io_inbox s = rs @ inbox \<and> 7 \<le> length rs \<and> (\<forall>e. r \<noteq> Fail e)" if "r = Ret o2 \<or> r = Fail e" for o2 e
    using others_loop_takes[OF l that] by simp
  then show "case receive_others C s of (Ret x, s') \<Rightarrow> steady_sends 0 s' \<and> leaves 7 s s' 0
      | (Fail e, s') \<Rightarrow> leaves 7 s s' 0 | _ \<Rightarrow> True"
    using sends by (cases r) (fastforce simp: receive_others_def l steady_sends_def leaves_def traffic_def)+
qed

lemma owes_getOthers [debt]: "owes 0 (getOthers C bh ph gh) (\<lambda>_. 0)"
proof -
  have send: "owes (d - 1) (send_rpc rid m ps) (\<lambda>_. d)" for d rid m ps using owes_send[of "d - 1"] by simp
  show ?thesis unfolding getOthers_def
    using send[of 1] send[of 2] send[of 3] send[of 4] send[of 5] send[of 6] send[of 7]
    by (intro owes_andthen[OF send[of 1, simplified]] owes_andthen[OF send[of 2, simplified]]
        owes_andthen[OF send[of 3, simplified]] owes_andthen[OF send[of 4, simplified]]
        owes_andthen[OF send[of 5, simplified]] owes_andthen[OF send[of 6, simplified]]
        owes_andthen[OF send[of 7, simplified]] owes_andthen[OF owes_receive_others])
      (auto split: option.split intro: owes_ret_const owes_fail)
qed

lemma owes_blockAndTx: "owes 0 (blockAndTx E height ds) (\<lambda>_. 0)"
proof -
  have "owes 0 (if height = 0 then wrap_err f (getLatestHeight u d L) else ret height) (\<lambda>_. 0)" for f u d L
    by (simp add: owes_wrap owes_getLatestHeight owes_ret_const)
  then show ?thesis unfolding blockAndTx_def Let_def
    by (auto split: option.split prod.split intro!: owes_andthen[where p = "\<lambda>_. 0"] owes_wrap owes_ret_const
       owes_fail owes_lift0 owes_getLatestHeight owes_GetBlockHashes owes_getOthers owes_GetMetadata)
qed

section \<open>Accounts\<close>

lemma owes_wait: "owes d (wait30 slow) (\<lambda>r. case r of None \<Rightarrow> d | Some _ \<Rightarrow> d - 1)"
  by (auto simp: owes_def wait30_def steady_sends_def leaves_def traffic_def split: list.split
      intro: exI[of _ "[_]"])

text \<open>The code came to an end of its own, with a result or an error.\<close>

definition returned :: "'a go \<Rightarrow> bool" where
  "returned r \<longleftrightarrow> (case r of Ret _ \<Rightarrow> True | Fail _ \<Rightarrow> True | _ \<Rightarrow> False)"

text \<open>Unless the channel was left to the clean-up, nothing is outstanding at the end.\<close>

definition settles :: "int \<Rightarrow> ('a, 'c) fact \<Rightarrow> bool" where
  "settles d m \<longleftrightarrow> (\<forall>s. steady_sends d s \<longrightarrow> (case m s of (r, fates, s') \<Rightarrow>
     returned r \<longrightarrow> CleanupStarted \<notin> set fates \<longrightarrow> leaves d s s' 0))"

lemma settles_no_fate: "d \<le> 0 \<Longrightarrow> settles d (no_fate r)"
  by (simp add: settles_def no_fate_def leaves_none)

lemma settles_fate: "d \<le> 0 \<or> f = CleanupStarted \<Longrightarrow> settles d (with_fate f r)"
  by (auto simp: settles_def with_fate_def leaves_none)

lemma settles_put: "settles d m \<Longrightarrow> settles d (\<lambda>s. put_unless_timeout (m s))"
  unfolding settles_def put_unless_timeout_def
  by (auto split: prod.splits go.splits if_splits)

text \<open>The ways out on an error do not touch the channel.\<close>

lemma settles_or_else:
  fixes m :: "('a, 'c) act" and f :: "'a \<Rightarrow> ('b, 'c) fact"
  assumes "owes d m p" and "\<And>e s. snd (snd (err e s)) = s" and "\<And>x. settles (p x) (f x)"
  shows "settles d (or_else m err f)"
  unfolding settles_def
proof (intro allI impI)
  fix s :: "'c io"
  assume st: "steady_sends d s"
  obtain r t where m: "m s = (r, t)" by fastforce
  show "case or_else m err f s of (r, fates, s') \<Rightarrow>
     returned r \<longrightarrow> CleanupStarted \<notin> set fates \<longrightarrow> leaves d s s' 0"
  proof (cases r)
    case (Ret x)
    have 1: "steady_sends (p x) t" "leaves d s t (p x)"
      using assms(1) st m Ret by (auto simp: owes_def)
    obtain r' fates u where f: "f x t = (r', fates, u)" by (cases "f x t")
    have "returned r' \<longrightarrow> CleanupStarted \<notin> set fates \<longrightarrow> leaves (p x) t u 0"
      using assms(3)[of x] 1(1) f by (auto simp: settles_def)
    with leaves_trans[OF 1(2)] show ?thesis by (simp add: or_else_def m Ret f)
  next
    case (Fail e)
    have "leaves d s t 0" using assms(1) st m Fail by (auto simp: owes_def)
    then show ?thesis using assms(2)[of e t] by (auto simp: or_else_def m Fail split: prod.splits)
  qed (simp_all add: or_else_def m returned_def)
qed

lemma fates_still [simp]: "snd (snd (no_fate r s)) = s" "snd (snd (with_fate f r s)) = s"
  by (simp_all add: no_fate_def with_fate_def)

lemma owes_ask: "owes 0 (send_rpc rid m ps) (\<lambda>_. 1)"
  using owes_send[of 0] by simp

lemma settles_wait:
  assumes "\<And>resp. settles 0 (f resp)"
  shows "settles 1 (or_else (wait30 slow) (\<lambda>e. no_fate (Fail e)) (\<lambda>r.
    case r of None \<Rightarrow> with_fate CleanupStarted (Fail ErrTimeout) | Some resp \<Rightarrow> f resp))"
  by (rule settles_or_else[OF owes_wait]) (auto simp: assms settles_fate split: option.split)

lemma settles_getAccountData: "settles 0 (getAccountData E slow meta specVer blockHash accountID)"
  unfolding getAccountData_def
  by (rule settles_or_else[OF owes_lift0])
    (auto intro!: settles_no_fate settles_or_else[OF owes_ask] settles_wait)

lemma settles_account_at: "settles 0 (account_at E slow1 slow2 blH accountID ds)"
  unfolding account_at_def account_with_runtime_def
  by (auto intro!: settles_or_else[OF owes_ask] settles_wait settles_or_else[OF owes_lift0]
      settles_or_else[OF owes_GetMetadata] settles_put settles_getAccountData split: prod.split)

lemma owes_height: "owes 0 (if height = 0 then getLatestHeight u d L else ret height) (\<lambda>_. 0)"
  by (simp add: owes_getLatestHeight owes_ret_const)

lemma settles_GetAccount: "settles 0 (GetAccount E slow1 slow2 height accountID ds)"
  unfolding GetAccount_def
  by (rule settles_or_else[OF owes_height])
    (auto intro!: settles_or_else[OF owes_GetBlockHashes] settles_account_at split: prod.split)

section \<open>The channel of a request is settled when it goes back\<close>

text \<open>
  However a height is processed, from the cache or from the node, with errors or without: when
  \<open>blockAndTx\<close> returns, a result or an error, it has taken at least as many replies out of its
  channel as it has sent requests.
\<close>

theorem blockAndTx_takes_replies:
  assumes "blockAndTx E height ds s = (r, s')" and "returned r" and "steady_sends 0 s"
  shows "\<exists>calls rs. traffic s s' calls rs \<and> length calls \<le> length rs"
proof -
  from owes_blockAndTx[of E height ds] assms have "leaves 0 s s' 0"
    by (auto simp: owes_def returned_def split: go.splits)
  then show ?thesis by (auto simp: leaves_def)
qed

text \<open>
  The same for an account request that is not left to the clean-up after a timeout.
\<close>

theorem GetAccount_takes_replies:
  assumes "GetAccount E slow1 slow2 height accountID ds s = (r, fates, s')" and "returned r"
    and "CleanupStarted \<notin> set fates" and "steady_sends 0 s"
  shows "\<exists>calls rs. traffic s s' calls rs \<and> length calls \<le> length rs"
proof -
  from settles_GetAccount[of E slow1 slow2 height accountID ds] assms have "leaves 0 s s' 0"
    by (auto simp: settles_def)
  then show ?thesis by (auto simp: leaves_def)
qed

lemma replies_settle:
  assumes "ws_reach encode decode timeout s1" and "nodes_of s1 addrs" and "settled s0 addrs ch"
    and "exchange s0 s1 addrs ch (map ident_of calls) rs" and "length calls \<le> length rs"
  shows "settled s1 addrs ch"
proof -
  have "size (mset (map ident rs)) \<le> size (mset (map ident_of calls))"
    by (rule size_mset_mono[OF exchange_idents(1)[OF assms(1-4)]])
  then have "length rs = length (map ident_of calls)" using assms(5) by simp
  from exchange_idents(2)[OF assms(1-4) this] show ?thesis by simp
qed

text \<open>
  C6: A channel taken from the pool with nothing open goes back with nothing open: between the two
  the websockets carried on it just the requests and replies of one \<open>blockAndTx\<close> that returned, and so
  every request is answered, and no reply can come late into the next request on the channel.
\<close>

theorem pooled_channel_settled:
  assumes "ws_reach encode decode timeout s1" and "nodes_of s1 addrs" and "settled s0 addrs ch"
    and "blockAndTx E height ds io = (r, io')" and "returned r" and "steady_sends 0 io"
    and "\<And>calls rs. traffic io io' calls rs \<Longrightarrow> exchange s0 s1 addrs ch (map ident_of calls) rs"
  shows "settled s1 addrs ch"
proof -
  from owes_blockAndTx[of E height ds] assms(4-6) have "leaves 0 io io' 0"
    by (auto simp: owes_def returned_def split: go.splits)
  then obtain calls rs where "traffic io io' calls rs" "length calls \<le> length rs"
    by (auto simp: leaves_def)
  with replies_settle[OF assms(1-3) assms(7)] show ?thesis by blast
qed

text \<open>A node that times out three times.\<close>

definition late_replies :: "Response list" where
  "late_replies = map timed_out [RequestBlockHash, RequestParentBlockHash, RequestGrandparentBlockHash]"

theorem blockAndTx_takes_replies_witness:
  "\<exists>e s'. blockAndTx sample_env 9 sample_store (io_with Map.empty late_replies) = (Fail e, s') \<and>
    (\<exists>calls rs. traffic (io_with Map.empty late_replies) s' calls rs \<and> length calls \<le> length rs)"
proof -
  have "\<exists>e s'. blockAndTx sample_env 9 sample_store (io_with Map.empty late_replies) = (Fail e, s')"
    by (simp add: blockAndTx_def wrap_err_def GetBlockHashes_def hash_or_ask_def io_with_def late_replies_def
        sample_env_def map_cache_def word_less_def timed_out_def hash_reply_def andthen_def ret_def cache_get_def
        send_rpc_def receive_def fail_def)
  then obtain e s' where r: "blockAndTx sample_env 9 sample_store (io_with Map.empty late_replies) = (Fail e, s')"
    by blast
  from blockAndTx_takes_replies[OF r] r show ?thesis
    by (simp add: returned_def steady_sends_def io_with_def)
qed

theorem GetAccount_takes_replies_witness:
  "\<exists>e s'. GetAccount slow_env False False 1 ''a'' NewDecodeStorage
      (io_with [0 \<mapsto> ''p'', 1 \<mapsto> ''b''] [timed_out RequestParentRuntimeVersion]) = (Fail e, [PutBack], s') \<and>
    (\<exists>calls rs. traffic (io_with [0 \<mapsto> ''p'', 1 \<mapsto> ''b''] [timed_out RequestParentRuntimeVersion]) s' calls rs \<and>
       length calls \<le> length rs)"
proof -
  have "\<exists>e s'. GetAccount slow_env False False 1 ''a'' NewDecodeStorage
      (io_with [0 \<mapsto> ''p'', 1 \<mapsto> ''b''] [timed_out RequestParentRuntimeVersion]) = (Fail e, [PutBack], s')"
    by (simp add: GetAccount_def or_else_def ret_def GetBlockHashes_def hash_or_ask_def cache_get_def
      slow_env_def map_cache_def io_with_def andthen_def account_at_def send_rpc_def wait30_def
      with_fate_def word_less_def account_with_runtime_def lift_go_def runtime_reply_def timed_out_def)
  then obtain e s' where r: "GetAccount slow_env False False 1 ''a'' NewDecodeStorage
      (io_with [0 \<mapsto> ''p'', 1 \<mapsto> ''b''] [timed_out RequestParentRuntimeVersion]) = (Fail e, [PutBack], s')" by blast
  from GetAccount_takes_replies[OF r] r show ?thesis
    by (simp add: returned_def steady_sends_def io_with_def)
qed

theorem pooled_channel_settled_witness: "settled (conn_at block_served) [''n''] 5"
proof -
  let ?rs = "rev (node_hashes sample_data) @ rev (node_others sample_data)"
  let ?io = "io_with Map.empty ?rs :: (u64 \<rightharpoonup> string) io"
  let ?io' = "after_block sample_env 9 sample_data Map.empty [] ?io"
  let ?resp = "\<lparr>dr_Block = Some empty_block, dr_Epoch = ''e''\<rparr>"
  have ans: "node_answers sample_env 9 sample_data Map.empty [] ?io"
    by (rule sample_answers) (simp_all add: sample_env_def word_less_def plain_decodes)
  have run: "blockAndTx sample_env 9 sample_store ?io =
      (fmap_go (\<lambda>out. (out, sample_store)) (block_transactions sample_env [] ?resp), ?io')"
    by (rule blockAndTx_run[OF ans sample_known]) (simp add: sample_env_def decode_request_def sample_data_def)
  show ?thesis
  proof (rule pooled_channel_settled[OF block_served_reach(2) _ _ run, where ?s0.0 = "conn_at (run_dial True new_run)"])
    show "returned (fmap_go (\<lambda>out. (out, sample_store)) (block_transactions sample_env [] ?resp))"
      by (simp add: block_transactions_def sample_env_def empty_block_def BlockMapper_def deref_def returned_def)
    fix calls rs
    assume "traffic ?io ?io' calls rs"
    then have "calls = hash_calls 9 @ other_calls ''b'' ''p'' ''g''" "rs = ?rs"
      by (simp_all add: traffic_def after_block_def io_with_def sample_data_def)
    then show "exchange (conn_at (run_dial True new_run)) (conn_at block_served) [''n''] 5 (map ident_of calls) rs"
      by (simp add: exchange_def dialled_channel conn_at_channel(1)[OF block_served_run(1)]
          conn_at_channel(2)[OF block_served_run(2)])
  qed (use sample_exchanges in \<open>simp_all add: block_exchanges_def steady_sends_def io_with_def\<close>)
qed

end
