(* ===== verification/Stream_Loops.thy ===== *)
theory Stream_Loops
  imports Indexer_Client
begin

section \<open>The loops of one stream side by side (indexer/client.go, RegisterStream and Run)\<close>

text \<open>
  \<open>RegisterStream\<close> starts 40 copies of \<open>Run\<close> on the same stream. A copy takes a request from the
  stream's channel, handles it, sends the responses one by one, and comes back to its select.
  The copies interleave at these points. What a handler finds in its channel and in the cache
  is up to the environment: it runs on any state the environment offers (\<open>offers\<close>). Besides the
  loops only the environment moves: requests arrive, the stream is finished, the context is
  cancelled.
  The components \<open>sv_arrived\<close> and \<open>sv_taken\<close> only record what happened.
\<close>

datatype loop = Waiting | Working TaskRequest "TaskResponse list" "unit go" | Returned

record server =
  sv_queue :: "TaskRequest list"
  sv_finish :: bool
  sv_cancelled :: bool
  sv_crashed :: bool
  sv_streams :: "string set"
  sv_loops :: "loop list"
  sv_sent :: "TaskResponse list"
  sv_arrived :: "TaskRequest list"
  sv_taken :: "TaskRequest list"

definition register :: "string \<Rightarrow> string set \<Rightarrow> server" where
  "register sid streams =
     (case RegisterStream sid streams of (streams', n) \<Rightarrow>
        \<lparr>sv_queue = [], sv_finish = False, sv_cancelled = False, sv_crashed = False,
         sv_streams = streams', sv_loops = replicate n Waiting, sv_sent = [], sv_arrived = [],
         sv_taken = []\<rparr>)"

definition set_loop :: "nat \<Rightarrow> loop \<Rightarrow> server \<Rightarrow> server" where
  "set_loop i l s = s\<lparr>sv_loops := (sv_loops s)[i := l]\<rparr>"

definition loop_at :: "server \<Rightarrow> nat \<Rightarrow> loop \<Rightarrow> bool" where
  "loop_at s i l \<longleftrightarrow> \<not> sv_crashed s \<and> i < length (sv_loops s) \<and> sv_loops s ! i = l"

text \<open>A panic of a handler is not recovered: it ends the process.\<close>

inductive run_step :: "('c io \<Rightarrow> bool) \<Rightarrow> (TaskRequest \<Rightarrow> 'c io \<Rightarrow> TaskResponse list \<times> unit go \<times> 'c io) \<Rightarrow> string \<Rightarrow>
    server \<Rightarrow> server \<Rightarrow> bool" for offers f sid where
  take: "loop_at s i Waiting \<Longrightarrow> sv_queue s = tr # q \<Longrightarrow> offers io \<Longrightarrow> f tr io = (out, r, io') \<Longrightarrow>
    run_step offers f sid s (set_loop i (Working tr out r) (s\<lparr>sv_queue := q, sv_taken := sv_taken s @ [tr]\<rparr>))"
| send: "loop_at s i (Working tr (resp # out) r) \<Longrightarrow>
    run_step offers f sid s (set_loop i (Working tr out r) (s\<lparr>sv_sent := sv_sent s @ [resp]\<rparr>))"
| handled: "loop_at s i (Working tr [] (Ret u)) \<Longrightarrow> run_step offers f sid s (set_loop i Waiting s)"
| panic: "loop_at s i (Working tr [] (Panic p)) \<Longrightarrow> run_step offers f sid s (s\<lparr>sv_crashed := True\<rparr>)"
| finish: "loop_at s i Waiting \<Longrightarrow> sv_finish s \<Longrightarrow> run_step offers f sid s (set_loop i Returned s)"
| ctx_done: "loop_at s i Waiting \<Longrightarrow> sv_cancelled s \<Longrightarrow>
    run_step offers f sid s (set_loop i Returned (s\<lparr>sv_streams := sv_streams s - {sid}\<rparr>))"

inductive env_step :: "server \<Rightarrow> server \<Rightarrow> bool" where
  arrive: "env_step s (s\<lparr>sv_queue := sv_queue s @ [tr], sv_arrived := sv_arrived s @ [tr]\<rparr>)"
| finish_stream: "env_step s (s\<lparr>sv_finish := True\<rparr>)"
| cancel: "env_step s (s\<lparr>sv_cancelled := True\<rparr>)"

inductive_cases run_stepE: "run_step offers f sid s s'"
inductive_cases env_stepE: "env_step s s'"

inductive served_reach :: "('c io \<Rightarrow> bool) \<Rightarrow> (TaskRequest \<Rightarrow> 'c io \<Rightarrow> TaskResponse list \<times> unit go \<times> 'c io) \<Rightarrow> string \<Rightarrow>
    string set \<Rightarrow> server \<Rightarrow> bool" for offers f sid streams where
  start: "served_reach offers f sid streams (register sid streams)"
| run: "served_reach offers f sid streams s \<Longrightarrow> run_step offers f sid s s' \<Longrightarrow> served_reach offers f sid streams s'"
| outside: "served_reach offers f sid streams s \<Longrightarrow> env_step s s' \<Longrightarrow> served_reach offers f sid streams s'"

section \<open>What the loops owe\<close>

text \<open>
  The final responses with which a request is due to be answered: one, and two for a request for
  the latest mark whose payload does not parse, where the handler goes on after its error response.
\<close>

definition responses_due :: "request_types \<Rightarrow> handler_env \<Rightarrow> TaskRequest \<Rightarrow> nat" where
  "responses_due T H tr =
     (if tq_Type tr \<notin> {ty_balance T, ty_transactions T} \<and> tq_Type tr = ty_latest T \<and>
         he_latest_request H (tq_Payload tr) \<noteq> None then 2 else 1)"

text \<open>The ids of requests, each as often as responses are due.\<close>

definition ids_due :: "(TaskRequest \<Rightarrow> nat) \<Rightarrow> TaskRequest list \<Rightarrow> string multiset" where
  "ids_due due trs = mset (concat (map (\<lambda>tr. replicate (due tr) (tq_Id tr)) trs))"

lemma ids_due_simps [simp]:
  "ids_due due [] = {#}" "ids_due due (trs @ [tr]) = ids_due due trs + replicate_mset (due tr) (tq_Id tr)"
  by (simp_all add: ids_due_def)

text \<open>
  A handler that returns has the responses due, all final and with the id of its request; one that
  panics or waits for ever is short of the last of them.
\<close>

definition handles :: "('c io \<Rightarrow> bool) \<Rightarrow> (TaskRequest \<Rightarrow> nat) \<Rightarrow>
    (TaskRequest \<Rightarrow> 'c io \<Rightarrow> TaskResponse list \<times> unit go \<times> 'c io) \<Rightarrow> TaskRequest \<Rightarrow> bool" where
  "handles offers due f tr \<longleftrightarrow> due tr \<le> 2 \<and> (\<forall>io out r io'. offers io \<longrightarrow> f tr io = (out, r, io') \<longrightarrow>
     (\<forall>resp \<in> set out. tr_Id resp = tq_Id tr \<and> tr_Final resp) \<and>
     due tr = (if r = Ret () then length out else Suc (length out)))"

fun owed :: "loop \<Rightarrow> string multiset" where
  "owed (Working tr out r) = mset (map tr_Id out) + (if r = Ret () then {#} else {#tq_Id tr#})"
| "owed l = {#}"

fun loop_ok :: "loop \<Rightarrow> bool" where
  "loop_ok (Working tr out r) \<longleftrightarrow> (\<forall>resp \<in> set out. tr_Final resp)"
| "loop_ok l \<longleftrightarrow> True"

definition served_inv :: "(TaskRequest \<Rightarrow> nat) \<Rightarrow> server \<Rightarrow> bool" where
  "served_inv due s \<longleftrightarrow> sv_arrived s = sv_taken s @ sv_queue s \<and>
     (\<forall>l \<in> set (sv_loops s). loop_ok l) \<and> (\<forall>resp \<in> set (sv_sent s). tr_Final resp) \<and>
     ids_due due (sv_taken s) = mset (map tr_Id (sv_sent s)) + sum_list (map owed (sv_loops s))"

lemma sum_list_update:
  fixes g :: "'a \<Rightarrow> 'b::comm_monoid_add"
  shows "i < length xs \<Longrightarrow> sum_list (map g (xs[i := y])) + g (xs ! i) = sum_list (map g xs) + g y"
  by (induction xs arbitrary: i) (auto simp: add_ac split: nat.split)

lemma owed_set_loop:
  "loop_at s i l \<Longrightarrow>
     sum_list (map owed (sv_loops (set_loop i l' s))) + owed l = sum_list (map owed (sv_loops s)) + owed l'"
  using sum_list_update[of i "sv_loops s" owed l'] by (auto simp: loop_at_def set_loop_def)

lemma loop_at_in: "loop_at s i l \<Longrightarrow> l \<in> set (sv_loops s)"
  by (auto simp: loop_at_def)

lemma loop_at_upd [simp]:
  "loop_at (s\<lparr>sv_queue := q, sv_taken := ts\<rparr>) i l = loop_at s i l"
  "loop_at (s\<lparr>sv_sent := out\<rparr>) i l = loop_at s i l"
  "loop_at (s\<lparr>sv_streams := S\<rparr>) i l = loop_at s i l"
  by (simp_all add: loop_at_def)

lemma set_loop_sel [simp]:
  "sv_queue (set_loop i l s) = sv_queue s" "sv_finish (set_loop i l s) = sv_finish s"
  "sv_cancelled (set_loop i l s) = sv_cancelled s" "sv_crashed (set_loop i l s) = sv_crashed s"
  "sv_streams (set_loop i l s) = sv_streams s" "sv_sent (set_loop i l s) = sv_sent s"
  "sv_arrived (set_loop i l s) = sv_arrived s" "sv_taken (set_loop i l s) = sv_taken s"
  "length (sv_loops (set_loop i l s)) = length (sv_loops s)"
  by (simp_all add: set_loop_def)

lemma handles_owed:
  assumes "handles offers due f tr" and "offers io" and "f tr io = (out, r, io')"
  shows "owed (Working tr out r) = replicate_mset (due tr) (tq_Id tr)" and "loop_ok (Working tr out r)"
    and "length out \<le> 2"
proof -
  from assms have ids: "\<forall>resp \<in> set out. tr_Id resp = tq_Id tr \<and> tr_Final resp" and "due tr \<le> 2"
    and due: "due tr = (if r = Ret () then length out else Suc (length out))"
    unfolding handles_def by blast+
  from ids have "mset (map tr_Id out) = replicate_mset (length out) (tq_Id tr)"
    by (induction out) simp_all
  with ids due \<open>due tr \<le> 2\<close> show "owed (Working tr out r) = replicate_mset (due tr) (tq_Id tr)"
    "loop_ok (Working tr out r)" "length out \<le> 2"
    by (auto split: if_splits)
qed

text \<open>One loop moves and the books balance.\<close>

lemma served_inv_move:
  assumes at: "loop_at s i l" and inv: "served_inv due s" and "loop_ok l'"
    and loops: "sv_loops t = (sv_loops s)[i := l']"
    and "sv_arrived t = sv_taken t @ sv_queue t" and "\<forall>resp \<in> set (sv_sent t). tr_Final resp"
    and books: "ids_due due (sv_taken t) + mset (map tr_Id (sv_sent s)) + owed l =
      ids_due due (sv_taken s) + mset (map tr_Id (sv_sent t)) + owed l'"
  shows "served_inv due t"
proof -
  let ?o = "\<lambda>s. sum_list (map owed (sv_loops s))"
  have "sv_loops (set_loop i l' s) = sv_loops t" by (simp add: set_loop_def loops)
  with owed_set_loop[OF at, of l'] have o: "?o t + owed l = ?o s + owed l'" by simp
  have "ids_due due (sv_taken s) = mset (map tr_Id (sv_sent s)) + ?o s"
    using inv by (simp add: served_inv_def)
  then have "ids_due due (sv_taken s) + owed l' = mset (map tr_Id (sv_sent s)) + (?o t + owed l)"
    by (simp only: o add.assoc)
  moreover have "ids_due due (sv_taken t) + mset (map tr_Id (sv_sent s)) + owed l =
      (ids_due due (sv_taken s) + owed l') + mset (map tr_Id (sv_sent t))"
    using books by (simp only: ac_simps)
  ultimately have "ids_due due (sv_taken t) + mset (map tr_Id (sv_sent s)) + owed l =
      (mset (map tr_Id (sv_sent t)) + ?o t) + mset (map tr_Id (sv_sent s)) + owed l"
    by (simp only: ac_simps)
  then have "ids_due due (sv_taken t) = mset (map tr_Id (sv_sent t)) + ?o t"
    by (simp only: add_right_cancel)
  moreover have "\<forall>k \<in> set (sv_loops t). loop_ok k"
    using inv assms(3) loops by (auto simp: served_inv_def dest: set_update_subset_insert[THEN subsetD])
  ultimately show ?thesis using assms(5,6) by (simp add: served_inv_def)
qed

lemma served_inv_run:
  assumes "run_step offers f sid s s'" and inv: "served_inv due s"
    and "\<forall>tr \<in> set (sv_arrived s). handles offers due f tr"
  shows "served_inv due s'"
  using assms(1)
proof (cases rule: run_step.cases)
  case (take i tr q io out r io')
  have "tr \<in> set (sv_arrived s)" using take inv by (simp add: served_inv_def)
  then have "handles offers due f tr" using assms(3) by blast
  note owed = handles_owed[OF this take(4,5)]
  show ?thesis
    by (rule served_inv_move[OF take(2) inv owed(2)])
      (use take inv owed(1) in \<open>simp_all add: served_inv_def set_loop_def del: owed.simps(1)\<close>)
next
  case (send i tr resp out r)
  from inv loop_at_in[OF send(2)] have ok: "loop_ok (Working tr (resp # out) r)"
    unfolding served_inv_def by blast
  then have ok': "loop_ok (Working tr out r)" by simp
  show ?thesis by (rule served_inv_move[OF send(2) inv ok'])
      (use send inv ok in \<open>simp_all add: served_inv_def set_loop_def\<close>)
next
  case (handled i tr u)
  show ?thesis by (rule served_inv_move[OF handled(2) inv, of Waiting])
      (use handled inv in \<open>simp_all add: served_inv_def set_loop_def\<close>)
next
  case (panic i tr p)
  with inv show ?thesis by (simp add: served_inv_def)
next
  case (finish i)
  show ?thesis by (rule served_inv_move[OF finish(2) inv, of Returned])
      (use finish inv in \<open>simp_all add: served_inv_def set_loop_def\<close>)
next
  case (ctx_done i)
  show ?thesis by (rule served_inv_move[OF ctx_done(2) inv, of Returned])
      (use ctx_done inv in \<open>simp_all add: served_inv_def set_loop_def\<close>)
qed

lemma sum_list_empty: "sum_list (replicate n ({#} :: 'a multiset)) = {#}"
  by (induction n) simp_all

lemma idle_owes_nothing:
  "\<forall>l \<in> set ls. l \<in> {Waiting, Returned} \<Longrightarrow> sum_list (map owed ls) = {#}"
  by (induction ls) auto

lemma served_inv_reach:
  assumes "served_reach offers f sid streams s" and "\<forall>tr \<in> set (sv_arrived s). handles offers due f tr"
  shows "served_inv due s"
  using assms
proof (induction rule: served_reach.induct)
  case start
  then show ?case
    by (simp add: served_inv_def register_def RegisterStream_def sum_list_empty)
next
  case (run s s')
  then have "sv_arrived s' = sv_arrived s" by (auto elim!: run_stepE)
  with run show ?case by (auto intro: served_inv_run)
next
  case (outside s s')
  then have "set (sv_arrived s) \<subseteq> set (sv_arrived s')" by (auto elim!: env_stepE)
  with outside have "served_inv due s" by auto
  with outside(2) show ?case by (cases rule: env_step.cases) (simp_all add: served_inv_def)
qed

lemma dispatch_handles: "handles offers (responses_due T H) (dispatch T H c latest) tr"
  unfolding handles_def
proof (intro conjI allI impI)
  fix io out r io'
  assume d: "dispatch T H c latest tr io = (out, r, io')"
  consider (bal) "tq_Type tr = ty_balance T" | (txs) "tq_Type tr \<noteq> ty_balance T" "tq_Type tr = ty_transactions T"
    | (latest) "tq_Type tr \<notin> {ty_balance T, ty_transactions T}" "tq_Type tr = ty_latest T"
    | (other) "tq_Type tr \<notin> {ty_balance T, ty_transactions T, ty_latest T}" by blast
  then have "(\<forall>resp \<in> set out. tr_Id resp = tq_Id tr \<and> tr_Final resp) \<and>
    responses_due T H tr = (if r = Ret () then length out else Suc (length out))"
  proof cases
    case bal
    with d show ?thesis by (auto simp: dispatch_def handle_balance_def responses_due_def
          error_response_def split: prod.splits option.splits go.splits)
  next
    case txs
    with d handle_transactions_once[of tr H] show ?thesis
      by (auto simp: dispatch_def responses_due_def answers_once_def)
  next
    case latest
    with d show ?thesis by (auto simp: dispatch_def handle_latest_def responses_due_def Let_def
          error_response_def split: prod.splits option.splits go.splits)
  next
    case other
    with d show ?thesis by (auto simp: dispatch_def responses_due_def error_response_def)
  qed
  then show "\<forall>resp \<in> set out. tr_Id resp = tq_Id tr \<and> tr_Final resp"
    and "responses_due T H tr = (if r = Ret () then length out else Suc (length out))" by blast+
qed (simp add: responses_due_def)

section \<open>The loops come to rest\<close>

fun loop_weight :: "loop \<Rightarrow> nat" where
  "loop_weight Waiting = 1"
| "loop_weight (Working tr out r) = 2 + length out"
| "loop_weight Returned = 0"

definition weight :: "server \<Rightarrow> nat" where
  "weight s = (if sv_crashed s then 0 else 1) + 4 * length (sv_queue s) + sum_list (map loop_weight (sv_loops s))"

lemma weight_set_loop:
  "loop_at s i l \<Longrightarrow> sum_list (map loop_weight (sv_loops (set_loop i l' s))) + loop_weight l =
     sum_list (map loop_weight (sv_loops s)) + loop_weight l'"
  using sum_list_update[of i "sv_loops s" loop_weight l'] by (auto simp: loop_at_def set_loop_def)

lemma run_step_weight:
  assumes "run_step offers f sid s s'" and "\<forall>tr \<in> set (sv_queue s). handles offers due f tr"
  shows "weight s' < weight s"
  using assms(1)
proof (cases rule: run_step.cases)
  case (take i tr q io out r io')
  then have "handles offers due f tr" using assms(2) by simp
  then have "length out \<le> 2" using handles_owed(3) take(4,5) by blast
  with weight_set_loop[OF take(2), of "Working tr out r"] take show ?thesis
    by (simp add: weight_def set_loop_def)
next
  case (send i tr resp out r)
  with weight_set_loop[OF send(2), of "Working tr out r"] show ?thesis by (simp add: weight_def set_loop_def)
next
  case (handled i tr u)
  with weight_set_loop[OF handled(2), of Waiting] show ?thesis by (simp add: weight_def)
next
  case (panic i tr p)
  then show ?thesis by (simp add: weight_def loop_at_def)
next
  case (finish i)
  with weight_set_loop[OF finish(2), of Returned] show ?thesis by (simp add: weight_def)
next
  case (ctx_done i)
  with weight_set_loop[OF ctx_done(2), of Returned] show ?thesis by (simp add: weight_def set_loop_def)
qed

lemma run_step_frame:
  "run_step offers f sid s s' \<Longrightarrow> sv_arrived s' = sv_arrived s \<and> sv_finish s' = sv_finish s \<and>
     sv_cancelled s' = sv_cancelled s \<and> set (sv_queue s') \<subseteq> set (sv_queue s)"
  by (auto elim!: run_stepE)

lemma steps_frame:
  "(run_step offers f sid ^^ n) s s' \<Longrightarrow> sv_arrived s' = sv_arrived s \<and> sv_finish s' = sv_finish s \<and>
     sv_cancelled s' = sv_cancelled s \<and> set (sv_queue s') \<subseteq> set (sv_queue s)"
  by (induction n arbitrary: s') (fastforce dest: run_step_frame)+

lemma steps_weight:
  "(run_step offers f sid ^^ n) s s' \<Longrightarrow> \<forall>tr \<in> set (sv_queue s). handles offers due f tr \<Longrightarrow> weight s' + n \<le> weight s"
proof (induction n arbitrary: s')
  case (Suc n)
  then obtain t where t: "(run_step offers f sid ^^ n) s t" "run_step offers f sid t s'" by auto
  with Suc.prems(2) have "\<forall>tr \<in> set (sv_queue t). handles offers due f tr"
    using steps_frame[OF t(1)] by blast
  from run_step_weight[OF t(2) this] Suc.IH[OF t(1) Suc.prems(2)] show ?case by simp
qed simp

lemma steps_reach:
  "(run_step offers f sid ^^ n) s s' \<Longrightarrow> served_reach offers f sid streams s \<Longrightarrow> served_reach offers f sid streams s'"
  by (induction n arbitrary: s') (auto intro: served_reach.run)

text \<open>The handlers return on everything the environment offers.\<close>

definition returning :: "('c io \<Rightarrow> bool) \<Rightarrow> (TaskRequest \<Rightarrow> 'c io \<Rightarrow> TaskResponse list \<times> unit go \<times> 'c io) \<Rightarrow>
    TaskRequest \<Rightarrow> bool" where
  "returning offers f tr \<longleftrightarrow> (\<forall>io. offers io \<longrightarrow> fst (snd (f tr io)) = Ret ())"

definition alive_inv :: "server \<Rightarrow> bool" where
  "alive_inv s \<longleftrightarrow> \<not> sv_crashed s \<and> length (sv_loops s) = 40 \<and>
     (\<forall>l \<in> set (sv_loops s). (\<forall>tr out r. l = Working tr out r \<longrightarrow> r = Ret ()) \<and>
        (l = Returned \<longrightarrow> sv_finish s \<or> sv_cancelled s))"

lemma alive_set_loop:
  "alive_inv s \<Longrightarrow> (\<forall>tr out r. l = Working tr out r \<longrightarrow> r = Ret ()) \<Longrightarrow>
     (l = Returned \<longrightarrow> sv_finish s \<or> sv_cancelled s) \<Longrightarrow> alive_inv (set_loop i l s)"
  by (auto simp: alive_inv_def set_loop_def dest!: set_update_subset_insert[THEN subsetD])

lemma alive_upd [simp]:
  "alive_inv (s\<lparr>sv_queue := q, sv_taken := ts\<rparr>) = alive_inv s"
  "alive_inv (s\<lparr>sv_queue := q, sv_arrived := ts\<rparr>) = alive_inv s"
  "alive_inv (s\<lparr>sv_sent := out\<rparr>) = alive_inv s"
  "alive_inv (s\<lparr>sv_streams := S\<rparr>) = alive_inv s"
  by (simp_all add: alive_inv_def)

lemma alive_run:
  assumes "run_step offers f sid s s'" and "alive_inv s" and "\<forall>tr \<in> set (sv_queue s). returning offers f tr"
  shows "alive_inv s'"
  using assms(1)
proof (cases rule: run_step.cases)
  case (take i tr q io out r io')
  then have "r = Ret ()" using assms(3) by (fastforce simp: returning_def)
  with take assms(2) show ?thesis by (simp add: alive_set_loop)
next
  case (send i tr resp out r)
  with assms(2) loop_at_in[OF send(2)] have "r = Ret ()" by (simp add: alive_inv_def)
  with send assms(2) show ?thesis by (simp add: alive_set_loop)
next
  case (panic i tr p)
  with assms(2) loop_at_in[OF panic(2)] show ?thesis by (auto simp: alive_inv_def)
qed (use assms(2) in \<open>simp_all add: alive_set_loop\<close>)

lemma alive_reach:
  assumes "served_reach offers f sid streams s" and "\<forall>tr \<in> set (sv_arrived s). returning offers f tr"
    and "\<forall>tr \<in> set (sv_arrived s). handles offers due f tr"
  shows "alive_inv s"
  using assms
proof (induction rule: served_reach.induct)
  case start
  then show ?case by (simp add: alive_inv_def register_def RegisterStream_def)
next
  case (run s s')
  have a: "sv_arrived s' = sv_arrived s" using run_step_frame[OF run(2)] by simp
  with run have "served_inv due s" by (auto intro: served_inv_reach)
  then have "set (sv_queue s) \<subseteq> set (sv_arrived s)" by (auto simp: served_inv_def)
  with run a show ?case by (auto intro: alive_run)
next
  case (outside s s')
  then have "set (sv_arrived s) \<subseteq> set (sv_arrived s')" by (auto elim!: env_stepE)
  with outside have "alive_inv s" by auto
  with outside(2) show ?case by (cases rule: env_step.cases) (auto simp: alive_inv_def)
qed

lemma at_rest:
  assumes "alive_inv s" and "\<not> sv_finish s" and "\<not> sv_cancelled s" and "\<exists>io. offers io"
    and "\<nexists>s'. run_step offers f sid s s'"
  shows "sv_queue s = [] \<and> (\<forall>l \<in> set (sv_loops s). l = Waiting)"
proof -
  have all: "l = Waiting" if "l \<in> set (sv_loops s)" for l
  proof (cases l)
    case (Working tr out r)
    from that assms(1) obtain i where i: "loop_at s i l" by (auto simp: loop_at_def alive_inv_def in_set_conv_nth)
    from that assms(1) Working have "r = Ret ()" by (auto simp: alive_inv_def)
    with i Working assms(5) run_step.send[of s i tr _ _ r offers f sid] run_step.handled[of s i tr "()" offers f sid]
    show ?thesis by (cases out) blast+
  next
    case Returned
    with that assms(1-3) show ?thesis by (auto simp: alive_inv_def)
  qed simp
  moreover have "sv_queue s = []"
  proof (cases "sv_queue s")
    case (Cons tr q)
    from assms(1) have "loop_at s 0 (sv_loops s ! 0)" by (simp add: loop_at_def alive_inv_def)
    with all[OF loop_at_in[OF this]] have "loop_at s 0 Waiting" by simp
    moreover from assms(4) obtain io where "offers io" ..
    moreover obtain out r io' where "f tr io = (out, r, io')" by (cases "f tr io")
    ultimately show ?thesis using assms(5) Cons run_step.take[of s 0 tr q offers io f out r io' sid] by blast
  qed simp
  ultimately show ?thesis by blast
qed

lemma comes_to_rest:
  assumes "\<forall>tr \<in> set (sv_queue s). handles offers due f tr"
  shows "\<exists>n s'. (run_step offers f sid ^^ n) s s' \<and> (\<nexists>s''. run_step offers f sid s' s'')"
  using assms
proof (induction "weight s" arbitrary: s rule: less_induct)
  case less
  show ?case
  proof (cases "\<exists>t. run_step offers f sid s t")
    case True
    then obtain t where t: "run_step offers f sid s t" ..
    have "\<forall>tr \<in> set (sv_queue t). handles offers due f tr" using run_step_frame[OF t] less.prems by blast
    from less.hyps[OF run_step_weight[OF t less.prems] this] obtain n s' where
      "(run_step offers f sid ^^ n) t s'" "\<nexists>s''. run_step offers f sid s' s''" by blast
    with t relpowp_Suc_I2 show ?thesis by metis
  next
    case False
    then show ?thesis by (intro exI[of _ 0] exI[of _ s]) simp
  qed
qed

lemma rest_answers:
  assumes "served_reach offers f sid streams s"
    and h: "\<forall>tr \<in> set (sv_arrived s). handles offers due f tr"
    and "\<forall>tr \<in> set (sv_arrived s). returning offers f tr" and "\<exists>io. offers io"
    and "\<not> sv_finish s" and "\<not> sv_cancelled s"
    and st: "(run_step offers f sid ^^ n) s s'" and rest: "\<nexists>s''. run_step offers f sid s' s''"
  shows "sv_queue s' = [] \<and> (\<forall>l \<in> set (sv_loops s'). l = Waiting) \<and>
    mset (map tr_Id (sv_sent s')) = ids_due due (sv_arrived s)"
proof -
  note fr = steps_frame[OF st] and re = steps_reach[OF st assms(1)]
  have al: "alive_inv s'" using alive_reach[OF re] assms(3) h fr by simp
  have q: "sv_queue s' = [] \<and> (\<forall>l \<in> set (sv_loops s'). l = Waiting)"
    by (rule at_rest[OF al _ _ assms(4) rest]) (use fr assms(5,6) in simp_all)
  have "served_inv due s'" using served_inv_reach[OF re] h fr by simp
  with q fr idle_owes_nothing[of "sv_loops s'"] show ?thesis by (simp add: served_inv_def)
qed

lemma arrivals_reach:
  "\<exists>s. served_reach offers f sid streams s \<and> sv_arrived s = trs \<and> sv_queue s = trs \<and>
     \<not> sv_finish s \<and> \<not> sv_cancelled s \<and> weight s = 41 + 4 * length trs"
proof (induction trs rule: rev_induct)
  case Nil
  have "sum_list (map loop_weight (replicate n Waiting)) = n" for n by (induction n) simp_all
  from this[of 40] served_reach.start[of offers f sid streams] show ?case
    by (intro exI[of _ "register sid streams"])
      (simp add: register_def RegisterStream_def weight_def del: map_replicate)
next
  case (snoc tr trs)
  then obtain s where s: "served_reach offers f sid streams s" "sv_arrived s = trs" "sv_queue s = trs"
    "\<not> sv_finish s" "\<not> sv_cancelled s" "weight s = 41 + 4 * length trs" by blast
  let ?s = "s\<lparr>sv_queue := sv_queue s @ [tr], sv_arrived := sv_arrived s @ [tr]\<rparr>"
  have "served_reach offers f sid streams ?s" by (rule served_reach.outside[OF s(1) env_step.arrive])
  with s(2-) show ?case by (intro exI[of _ ?s]) (simp add: weight_def)
qed

definition three_requests :: "TaskRequest list" where
  "three_requests = [\<lparr>tq_Id = ''i'', tq_Type = ''t'', tq_Payload = []\<rparr>,
     \<lparr>tq_Id = ''k'', tq_Type = ''l'', tq_Payload = ''{}''\<rparr>,
     \<lparr>tq_Id = ''m'', tq_Type = ''l'', tq_Payload = []\<rparr>]"

abbreviation sample_dispatch :: "TaskRequest \<Rightarrow> (u64 \<rightharpoonup> string) io \<Rightarrow> TaskResponse list \<times> unit go \<times> (u64 \<rightharpoonup> string) io" where
  "sample_dispatch \<equiv> dispatch sample_types sample_handlers sample_client (ret 7)"

abbreviation sample_due :: "TaskRequest \<Rightarrow> nat" where
  "sample_due \<equiv> responses_due sample_types sample_handlers"

lemma sample_requests_ok:
  assumes "sv_arrived s = three_requests"
  shows "\<forall>tr \<in> set (sv_arrived s). returning (\<lambda>io. True) sample_dispatch tr"
    and "ids_due sample_due (sv_arrived s) = {#''i'', ''k'', ''m'', ''m''#}"
  using assms by (auto simp: three_requests_def sample_types_def sample_handlers_def returning_def
      dispatch_def handle_latest_def ret_def ids_due_def responses_due_def numeral_2_eq_2 split: prod.split)

section \<open>Properties\<close>

text \<open>
  C12: However the forty loops of a stream interleave with each other and with the arriving requests,
  requests are taken in the order in which they arrived, each by one loop; every response is final
  and carries the id of a request that was taken. No id has more responses than are due to the
  requests taken under it, and whenever no loop is at work exactly the responses due were sent: one
  for each request, and two for a request for the latest mark whose payload does not parse.
\<close>

theorem stream_answers_due:
  assumes "served_reach offers (dispatch T H c latest) sid streams s"
  shows "sv_arrived s = sv_taken s @ sv_queue s \<and> (\<forall>resp \<in> set (sv_sent s). tr_Final resp) \<and>
    mset (map tr_Id (sv_sent s)) \<subseteq># ids_due (responses_due T H) (sv_taken s) \<and>
    ((\<forall>l \<in> set (sv_loops s). l \<in> {Waiting, Returned}) \<longrightarrow>
      mset (map tr_Id (sv_sent s)) = ids_due (responses_due T H) (sv_taken s))"
proof -
  have "served_inv (responses_due T H) s" using served_inv_reach[OF assms] dispatch_handles by blast
  then show ?thesis by (auto simp: served_inv_def idle_owes_nothing simp del: mset_map)
qed

theorem stream_answers_due_witness:
  "\<exists>s. served_reach (\<lambda>io. True) sample_dispatch ''s'' {} s \<and>
    mset (map tr_Id (sv_sent s)) = {#''i'', ''k'', ''m'', ''m''#}"
proof -
  obtain s where s: "served_reach (\<lambda>io. True) sample_dispatch ''s'' {} s" "sv_arrived s = three_requests"
    "\<not> sv_finish s" "\<not> sv_cancelled s" "sv_queue s = three_requests"
    using arrivals_reach[of "\<lambda>io. True" sample_dispatch "''s''" "{}" three_requests] by blast
  have h: "\<forall>tr \<in> set trs. handles (\<lambda>io. True) sample_due sample_dispatch tr" for trs
    using dispatch_handles by blast
  from comes_to_rest[where s = s, OF h, of "''s''"] obtain n s' where
    st: "(run_step (\<lambda>io. True) sample_dispatch ''s'' ^^ n) s s'"
    and rest: "\<nexists>s''. run_step (\<lambda>io. True) sample_dispatch ''s'' s' s''" by blast
  have re: "served_reach (\<lambda>io. True) sample_dispatch ''s'' {} s'" by (rule steps_reach[OF st s(1)])
  have a: "sv_arrived s' = three_requests" using steps_frame[OF st] s(2) by simp
  have r: "sv_queue s' = []" "\<forall>l \<in> set (sv_loops s'). l = Waiting"
    using rest_answers[OF s(1) h sample_requests_ok(1)[OF s(2)] _ s(3,4) st rest] by blast+
  have "mset (map tr_Id (sv_sent s')) = ids_due sample_due (sv_arrived s')"
    using stream_answers_due[OF re] r by auto
  with re sample_requests_ok(2)[OF a] show ?thesis by metis
qed

text \<open>
  C28: As long as the environment only offers what the handlers return on, and the stream is neither
  finished nor cancelled, the loops come to rest after a bounded number of steps whatever they do,
  and then exactly the responses due to the requests that have arrived were sent: one for each, and
  two for a request for the latest mark whose payload does not parse.
\<close>

theorem stream_answers_all:
  assumes "served_reach offers (dispatch T H c latest) sid streams s"
    and "\<forall>tr \<in> set (sv_arrived s). returning offers (dispatch T H c latest) tr" and "\<exists>io. offers io"
    and "\<not> sv_finish s" and "\<not> sv_cancelled s"
  shows "(\<forall>n s'. (run_step offers (dispatch T H c latest) sid ^^ n) s s' \<longrightarrow> n \<le> weight s) \<and>
    (\<exists>n s'. (run_step offers (dispatch T H c latest) sid ^^ n) s s' \<and>
       (\<nexists>s''. run_step offers (dispatch T H c latest) sid s' s'')) \<and>
    (\<forall>n s'. (run_step offers (dispatch T H c latest) sid ^^ n) s s' \<and>
       (\<nexists>s''. run_step offers (dispatch T H c latest) sid s' s'') \<longrightarrow>
       sv_queue s' = [] \<and> mset (map tr_Id (sv_sent s')) = ids_due (responses_due T H) (sv_arrived s))"
proof -
  have h: "\<forall>tr \<in> set trs. handles offers (responses_due T H) (dispatch T H c latest) tr" for trs
    using dispatch_handles by blast
  show ?thesis
    using steps_weight[OF _ h] comes_to_rest[OF h] rest_answers[OF assms(1) h assms(2-5)]
    by (meson add_leD2)
qed

theorem stream_answers_all_witness:
  "\<exists>s. served_reach (\<lambda>io. True) sample_dispatch ''s'' {} s \<and> sv_queue s = three_requests \<and>
    (\<forall>n s'. (run_step (\<lambda>io. True) sample_dispatch ''s'' ^^ n) s s' \<longrightarrow> n \<le> 53) \<and>
    (\<exists>n s'. (run_step (\<lambda>io. True) sample_dispatch ''s'' ^^ n) s s' \<and>
       mset (map tr_Id (sv_sent s')) = {#''i'', ''k'', ''m'', ''m''#})"
proof -
  obtain s where s: "served_reach (\<lambda>io. True) sample_dispatch ''s'' {} s" "sv_arrived s = three_requests"
    "\<not> sv_finish s" "\<not> sv_cancelled s" "sv_queue s = three_requests" "weight s = 41 + 4 * length three_requests"
    using arrivals_reach[of "\<lambda>io. True" sample_dispatch "''s''" "{}" three_requests] by blast
  have "weight s = 53" by (simp add: s(6) three_requests_def)
  then show ?thesis
    using stream_answers_all[OF s(1) sample_requests_ok(1)[OF s(2)] _ s(3,4)] s(1,5)
      sample_requests_ok(2)[OF s(2)] by metis
qed

end
