(* ===== verification/Pool_Traffic.thy ===== *)
theory Pool_Traffic
  imports Channel_Debt
begin

section \<open>Pooled channels over their whole life\<close>

text \<open>
  The system of all holders of channels and all websocket runs. A channel is made or taken from the
  pool (which drains it), its holder sends requests with it and takes replies from it, and gives it
  back or closes it. Between these steps the runs of the nodes do whatever they do. A holder gives
  a channel back only when it has taken as many replies as it has sent requests, which
  \<open>Channel_Debt\<close> shows of \<open>blockAndTx\<close> and \<open>GetAccount\<close>. A channel that is closed, or whose holder never
  gives it back (the health check, a request for the latest mark), is never handed out again.
  The components \<open>sy_calls\<close> and \<open>sy_got\<close> are the requests and replies of the present holder,
  \<open>sy_past\<close> what was taken out before it.
\<close>

datatype owner = Unmade | Held | Idle | Closed

record sys =
  sy_conn :: Conn
  sy_chan :: "nat \<Rightarrow> owner"
  sy_calls :: "nat \<Rightarrow> (u64 \<times> string) list"
  sy_got :: "nat \<Rightarrow> Response list"
  sy_past :: "nat \<Rightarrow> Response multiset"

abbreviation set_chan :: "nat \<Rightarrow> owner \<Rightarrow> sys \<Rightarrow> sys" where
  "set_chan ch w s \<equiv> s\<lparr>sy_chan := (sy_chan s)(ch := w)\<rparr>"

text \<open>The requests with a channel that no run has taken yet.\<close>

definition queued :: "Conn \<Rightarrow> nat \<Rightarrow> (u64 \<times> string) multiset" where
  "queued c ch = mset (map (\<lambda>req. (rq_ID (snd_Request req), rq_Method (snd_Request req)))
     (filter (\<lambda>req. snd_RespCH req = ch) (cn_Requests c)))"

text \<open>
  A step of the runs: no new request, and no run of a node that is not in the configuration. Each run
  stays within the \<open>2^64\<close> requests after which its counter repeats.
\<close>

definition net_step :: "(JsonRPCRequest \<Rightarrow> goerror + string) \<Rightarrow> (string \<Rightarrow> goerror + JsonRPCResponse) \<Rightarrow>
    int \<Rightarrow> string list \<Rightarrow> Conn \<Rightarrow> Conn \<Rightarrow> bool" where
  "net_step encode decode timeout addrs c c' \<longleftrightarrow> ws_step encode decode timeout c c' \<and>
     length (cn_Requests c') \<le> length (cn_Requests c) \<and> dom (cn_runs c') = set addrs \<and> nodes_of c' addrs"

inductive sys_step :: "(JsonRPCRequest \<Rightarrow> goerror + string) \<Rightarrow> (string \<Rightarrow> goerror + JsonRPCResponse) \<Rightarrow>
    int \<Rightarrow> string list \<Rightarrow> sys \<Rightarrow> sys \<Rightarrow> bool"
  for encode decode timeout addrs where
  make: "sy_chan s ch = Unmade \<Longrightarrow> sys_step encode decode timeout addrs s (set_chan ch Held s)"
| get: "sy_chan s ch = Idle \<Longrightarrow> sys_step encode decode timeout addrs s
    (set_chan ch Held (s\<lparr>sy_calls := (sy_calls s)(ch := []), sy_got := (sy_got s)(ch := []),
       sy_past := (sy_past s)(ch := mset (answered_on (sy_conn s) addrs ch))\<rparr>))"
| send: "sy_chan s ch = Held \<Longrightarrow> Send ch rid m ps (sy_conn s) = (None, c) \<Longrightarrow>
    sys_step encode decode timeout addrs s
      (s\<lparr>sy_conn := c, sy_calls := (sy_calls s)(ch := sy_calls s ch @ [(rid, m)])\<rparr>)"
| net: "net_step encode decode timeout addrs (sy_conn s) c \<Longrightarrow>
    sys_step encode decode timeout addrs s (s\<lparr>sy_conn := c\<rparr>)"
| take: "sy_chan s ch = Held \<Longrightarrow>
    add_mset r (sy_past s ch + mset (sy_got s ch)) \<subseteq># mset (answered_on (sy_conn s) addrs ch) \<Longrightarrow>
    sys_step encode decode timeout addrs s (s\<lparr>sy_got := (sy_got s)(ch := sy_got s ch @ [r])\<rparr>)"
| put: "sy_chan s ch = Held \<Longrightarrow> length (sy_calls s ch) \<le> length (sy_got s ch) \<Longrightarrow>
    sys_step encode decode timeout addrs s (set_chan ch Idle s)"
| close: "sy_chan s ch = Held \<Longrightarrow> sys_step encode decode timeout addrs s (set_chan ch Closed s)"

text \<open>At the start the nodes of the configuration have runs, and nothing was asked.\<close>

definition sys_init :: "(JsonRPCRequest \<Rightarrow> goerror + string) \<Rightarrow> (string \<Rightarrow> goerror + JsonRPCResponse) \<Rightarrow>
    int \<Rightarrow> string list \<Rightarrow> sys \<Rightarrow> bool" where
  "sys_init encode decode timeout addrs s \<longleftrightarrow> ws_reach encode decode timeout (sy_conn s) \<and> distinct addrs \<and>
     dom (cn_runs (sy_conn s)) = set addrs \<and> cn_Requests (sy_conn s) = [] \<and>
     (\<forall>a \<in> set addrs. rn_taken (the (cn_runs (sy_conn s) a)) = []) \<and>
     sy_chan s = (\<lambda>ch. Unmade) \<and> sy_calls s = (\<lambda>ch. []) \<and> sy_got s = (\<lambda>ch. []) \<and> sy_past s = (\<lambda>ch. {#})"

section \<open>What the runs conserve\<close>

lemma asked_on_set_run:
  assumes "distinct addrs" and "cn_runs c a = Some rn" and "a \<in> set addrs"
  shows "mset (asked_on (set_run a rn' c) addrs ch) + mset (on_channel ch (rn_taken rn)) =
    mset (asked_on c addrs ch) + mset (on_channel ch (rn_taken rn'))"
  using assms(1,3)
proof (induction addrs)
  case (Cons b addrs)
  show ?case
  proof (cases "a = b")
    case True
    then have "a \<notin> set addrs" using Cons.prems by simp
    then have "asked_on (set_run a rn' c) addrs ch = asked_on c addrs ch"
      unfolding asked_on_def by (intro arg_cong[where f = "on_channel ch"] arg_cong[where f = concat] map_cong) auto
    then show ?thesis using True assms(2) by (simp add: asked_on_def add_ac)
  next
    case False
    then show ?thesis using Cons by (simp add: asked_on_def add_ac)
  qed
qed simp

lemma asked_on_same:
  assumes "distinct addrs" and "cn_runs c a = Some rn" and "a \<in> set addrs" and "rn_taken rn' = rn_taken rn"
  shows "mset (asked_on (set_run a rn' c) addrs ch) = mset (asked_on c addrs ch)"
  using asked_on_set_run[OF assms(1-3), of rn' ch] assms(4) by simp

lemma asked_on_status [simp]:
  "asked_on (go_online a c) addrs ch = asked_on c addrs ch"
  "asked_on (go_offline a c) addrs ch = asked_on c addrs ch"
  "asked_on (set_run a rn (c\<lparr>cn_Requests := rs\<rparr>)) addrs ch = asked_on (set_run a rn c) addrs ch"
  by (simp_all add: asked_on_def go_online_def go_offline_def set_run_def)

lemma queued_status [simp]:
  "queued (go_online a c) ch = queued c ch" "queued (go_offline a c) ch = queued c ch"
  "queued (set_run a rn c) ch = queued c ch"
  by (simp_all add: queued_def go_online_def go_offline_def set_run_def)

lemma taken_same [simp]:
  "rn_taken (run_dial ok rn) = rn_taken rn" "rn_taken (recv_message d room m rn) = rn_taken rn"
  "rn_taken (timeout_tick timeout now keys rn) = rn_taken rn" "rn_taken (run_finish keys rn) = rn_taken rn"
  using same_book_recv[of rn d room m] same_book_tick[of rn timeout now keys]
    same_book_fold_fail[of rn ErrConnectionClosed keys]
  by (simp_all add: run_dial_def same_book_def run_finish_def)

lemma net_step_conserves:
  assumes "ws_step encode decode timeout c c'" and "length (cn_Requests c') \<le> length (cn_Requests c)"
    and "dom (cn_runs c) = set addrs" and "dom (cn_runs c') = set addrs" and "distinct addrs"
  shows "mset (asked_on c' addrs ch) + queued c' ch = mset (asked_on c addrs ch) + queued c ch"
proof -
  have same: "mset (asked_on (set_run a rn' c) addrs ch) = mset (asked_on c addrs ch)"
    if "cn_runs c a = Some rn" "rn_taken rn' = rn_taken rn" for a rn rn'
    by (rule asked_on_same[OF assms(5) that(1) _ that(2)]) (use that(1) assms(3) in auto)
  from assms(1) show ?thesis
  proof (cases rule: ws_step.cases)
    case (send ch' rid m ps)
    then show ?thesis using assms(2) by (auto simp: Send_def split: if_splits)
  next
    case (start a)
    then show ?thesis using assms(3,4) by (auto simp: set_run_def)
  next
    case (request a rn pre req post now ok)
    let ?x = "(rq_ID (snd_Request req), rq_Method (snd_Request req))"
    have a: "a \<in> set addrs" using request(2) assms(3) by auto
    have q: "queued c ch = queued c' ch + (if snd_RespCH req = ch then {#?x#} else {#})"
      using request(1,4) by (simp add: queued_def set_run_def)
    show ?thesis
      using asked_on_set_run[OF assms(5) request(2) a, of "run_request encode now ok req rn" ch] request(1)
      by (simp add: q on_channel_def)
  qed (simp_all add: same)
qed

lemma send_conserves:
  assumes "Send ch' rid m ps c = (None, c')"
  shows "asked_on c' addrs ch = asked_on c addrs ch" "answered_on c' addrs ch = answered_on c addrs ch"
    "queued c' ch = queued c ch + (if ch' = ch then {#(rid, m)#} else {#})" "cn_runs c' = cn_runs c"
  using assms by (auto simp: Send_def asked_on_def answered_on_def queued_def split: if_splits)

section \<open>The invariant\<close>

definition identm :: "Response multiset \<Rightarrow> (u64 \<times> string) multiset" where
  "identm M = image_mset ident M"

lemma identm_simps [simp]:
  "identm {#} = {#}" "identm (M + N) = identm M + identm N" "identm (mset rs) = mset (map ident rs)"
  "size (identm M) = size M"
  by (simp_all add: identm_def)

text \<open>What is written down about one channel.\<close>

definition books :: "string list \<Rightarrow> sys \<Rightarrow> nat \<Rightarrow> bool" where
  "books addrs s ch \<longleftrightarrow>
     mset (asked_on (sy_conn s) addrs ch) + queued (sy_conn s) ch = identm (sy_past s ch) + mset (sy_calls s ch) \<and>
     sy_past s ch + mset (sy_got s ch) \<subseteq># mset (answered_on (sy_conn s) addrs ch) \<and>
     (sy_chan s ch = Idle \<longrightarrow> length (sy_calls s ch) \<le> length (sy_got s ch))"

definition sys_inv :: "(JsonRPCRequest \<Rightarrow> goerror + string) \<Rightarrow> (string \<Rightarrow> goerror + JsonRPCResponse) \<Rightarrow>
    int \<Rightarrow> string list \<Rightarrow> sys \<Rightarrow> bool" where
  "sys_inv encode decode timeout addrs s \<longleftrightarrow> ws_reach encode decode timeout (sy_conn s) \<and> distinct addrs \<and>
     dom (cn_runs (sy_conn s)) = set addrs \<and> nodes_of (sy_conn s) addrs \<and> (\<forall>ch. books addrs s ch)"

lemma identm_mono: "M \<subseteq># N \<Longrightarrow> identm M \<subseteq># identm N"
  unfolding identm_def by (rule image_mset_subseteq_mono)

lemma identm_eq: "M \<subseteq># N \<Longrightarrow> size N \<le> size M \<Longrightarrow> M = N"
  by (metis mset_subset_size not_le subset_mset.le_neq_trans)

lemma answers_of:
  assumes "sys_inv encode decode timeout addrs s"
  shows "identm (mset (answered_on (sy_conn s) addrs ch)) \<subseteq># identm (sy_past s ch) + mset (sy_calls s ch)"
proof -
  from assms have "mset (map ident (answered_on (sy_conn s) addrs ch)) \<subseteq># mset (asked_on (sy_conn s) addrs ch)"
    by (intro answers_asked) (auto simp: sys_inv_def nodes_of_def)
  also have "\<dots> \<subseteq># identm (sy_past s ch) + mset (sy_calls s ch)"
    using assms by (metis sys_inv_def books_def mset_subset_eq_add_left)
  finally show ?thesis by simp
qed

text \<open>A holder that has taken as many replies as it has sent requests has left nothing.\<close>

lemma nothing_left:
  assumes "sys_inv encode decode timeout addrs s" and "length (sy_calls s ch) \<le> length (sy_got s ch)"
  shows "sy_past s ch + mset (sy_got s ch) = mset (answered_on (sy_conn s) addrs ch)"
    and "identm (mset (answered_on (sy_conn s) addrs ch)) = identm (sy_past s ch) + mset (sy_calls s ch)"
proof -
  have b: "sy_past s ch + mset (sy_got s ch) \<subseteq># mset (answered_on (sy_conn s) addrs ch)"
    using assms(1) by (simp add: sys_inv_def books_def)
  note a = answers_of[OF assms(1), of ch]
  from size_mset_mono[OF a] assms(2)
  show 1: "sy_past s ch + mset (sy_got s ch) = mset (answered_on (sy_conn s) addrs ch)"
    by (intro identm_eq[OF b]) simp
  from size_mset_mono[OF b] show "identm (mset (answered_on (sy_conn s) addrs ch)) = identm (sy_past s ch) + mset (sy_calls s ch)"
    using assms(2) by (intro identm_eq[OF a]) simp
qed

lemma sys_inv_init:
  assumes "sys_init encode decode timeout addrs s"
  shows "sys_inv encode decode timeout addrs s"
proof -
  have empty: "asked_on (sy_conn s) addrs ch = []" for ch
  proof -
    have "concat (map (\<lambda>a. rn_taken (the (cn_runs (sy_conn s) a))) addrs) = []"
      using assms by (simp add: sys_init_def)
    then show ?thesis by (simp add: asked_on_def on_channel_def)
  qed
  have nodes: "nodes_of (sy_conn s) addrs" unfolding nodes_of_def
  proof
    fix a assume a: "a \<in> set addrs"
    with assms obtain rn where "cn_runs (sy_conn s) a = Some rn" by (auto simp: sys_init_def)
    with assms a show "\<exists>rn. cn_runs (sy_conn s) a = Some rn \<and> length (rn_taken rn) \<le> 2 ^ 64"
      by (auto simp: sys_init_def)
  qed
  show ?thesis using assms nodes by (simp add: sys_inv_def sys_init_def books_def empty queued_def)
qed

lemma answered_on_grows:
  assumes "ws_step encode decode timeout c c'" and "dom (cn_runs c) = set addrs"
  shows "mset (answered_on c addrs ch) \<subseteq># mset (answered_on c' addrs ch)"
  unfolding answered_on_def
  by (rule on_channel_grows[OF ws_step_grows[OF assms(1)]]) (use assms(2) in \<open>auto simp: grows_def\<close>)

lemma sys_inv_step:
  assumes "sys_step encode decode timeout addrs s s'" and inv: "sys_inv encode decode timeout addrs s"
  shows "sys_inv encode decode timeout addrs s'"
  using assms(1)
proof (cases rule: sys_step.cases)
  case (get ch)
  have idle: "length (sy_calls s ch) \<le> length (sy_got s ch)" using inv get(2) by (simp add: sys_inv_def books_def)
  have "identm (mset (answered_on (sy_conn s) addrs ch)) = mset (asked_on (sy_conn s) addrs ch) + queued (sy_conn s) ch"
    using nothing_left(2)[OF inv idle] inv by (simp add: sys_inv_def books_def)
  then show ?thesis using inv get(1) by (simp add: sys_inv_def books_def)
next
  case (send ch rid m ps c)
  have "ws_reach encode decode timeout c"
    using inv ws_step.send[OF send(3)] by (auto simp: sys_inv_def intro: ws_reach.more)
  then show ?thesis using inv send(1,2) send_conserves[OF send(3)]
    by (auto simp: sys_inv_def books_def nodes_of_def add_ac)
next
  case (net c)
  then have step: "ws_step encode decode timeout (sy_conn s) c" by (simp add: net_step_def)
  have reach: "ws_reach encode decode timeout c"
    using inv step by (auto simp: sys_inv_def intro: ws_reach.more)
  have "books addrs s' ch" for ch
  proof -
    have "mset (asked_on c addrs ch) + queued c ch = mset (asked_on (sy_conn s) addrs ch) + queued (sy_conn s) ch"
      by (rule net_step_conserves[OF step]) (use net(2) inv in \<open>auto simp: net_step_def sys_inv_def\<close>)
    moreover have "mset (answered_on (sy_conn s) addrs ch) \<subseteq># mset (answered_on c addrs ch)"
      by (rule answered_on_grows[OF step]) (use inv in \<open>simp add: sys_inv_def\<close>)
    moreover have "books addrs s ch" using inv by (simp add: sys_inv_def)
    ultimately show ?thesis using net(1) unfolding books_def by (auto intro: subset_mset.order_trans)
  qed
  with reach net inv show ?thesis by (simp add: sys_inv_def net_step_def)
next
  case (take ch r)
  then show ?thesis using inv by (auto simp: sys_inv_def books_def)
qed (use inv in \<open>auto simp: sys_inv_def books_def\<close>)

lemma sys_inv_steps:
  "(sys_step encode decode timeout addrs)\<^sup>*\<^sup>* s s' \<Longrightarrow> sys_inv encode decode timeout addrs s \<Longrightarrow>
     sys_inv encode decode timeout addrs s'"
  by (induction rule: rtranclp_induct) (auto intro: sys_inv_step)

section \<open>Properties\<close>

text \<open>
  C5: Whatever the holders of channels and the websocket runs do, in any interleaving: the replies that a
  holder has taken from its channel answer requests of that same holder, each at most one, under the
  request's number and method; and a channel in the pool is empty and stays so, since every request
  that was ever sent with it has been answered and taken.
\<close>

theorem replies_reach_their_holder:
  assumes "sys_init encode decode timeout addrs s0" and "(sys_step encode decode timeout addrs)\<^sup>*\<^sup>* s0 s"
  shows "mset (map ident (sy_got s ch)) \<subseteq># mset (sy_calls s ch) \<and>
    (sy_chan s ch = Idle \<longrightarrow>
       mset (answered_on (sy_conn s) addrs ch) = sy_past s ch + mset (sy_got s ch) \<and>
       settled (sy_conn s) addrs ch \<and> queued (sy_conn s) ch = {#})"
proof (intro conjI impI)
  have inv: "sys_inv encode decode timeout addrs s"
    by (rule sys_inv_steps[OF assms(2) sys_inv_init[OF assms(1)]])
  have b: "books addrs s ch" using inv by (simp add: sys_inv_def)
  have "identm (sy_past s ch + mset (sy_got s ch)) \<subseteq># identm (mset (answered_on (sy_conn s) addrs ch))"
    using b by (intro identm_mono) (simp add: books_def)
  from subset_mset.order_trans[OF this answers_of[OF inv]]
  show "mset (map ident (sy_got s ch)) \<subseteq># mset (sy_calls s ch)" by simp
  assume idle: "sy_chan s ch = Idle"
  then have "length (sy_calls s ch) \<le> length (sy_got s ch)" using b by (simp add: books_def)
  note left = nothing_left[OF inv this]
  show "mset (answered_on (sy_conn s) addrs ch) = sy_past s ch + mset (sy_got s ch)" using left(1) by simp
  have a: "mset (asked_on (sy_conn s) addrs ch) + queued (sy_conn s) ch = mset (map ident (answered_on (sy_conn s) addrs ch))"
    using left(2) b by (simp add: books_def)
  have "mset (map ident (answered_on (sy_conn s) addrs ch)) \<subseteq># mset (asked_on (sy_conn s) addrs ch)"
    using inv by (intro answers_asked) (auto simp: sys_inv_def nodes_of_def)
  with a have "mset (asked_on (sy_conn s) addrs ch) + queued (sy_conn s) ch \<subseteq># mset (asked_on (sy_conn s) addrs ch)"
    by simp
  then show q: "queued (sy_conn s) ch = {#}" by (metis add.right_neutral subset_mset.add_le_cancel_left subset_mset.le_zero_eq)
  with a show "settled (sy_conn s) addrs ch" by (simp add: settled_def)
qed

text \<open>One holder: it makes channel 5, asks for a block hash, takes the reply and gives the channel back.\<close>

definition one_asked :: run where
  "one_asked = ask (RequestBlockHash, ''chain_getBlockHash'') (run_dial True new_run)"

definition one_served :: run where
  "one_served = recv_message tag_decode True (CHR ''a'' # quoted ''b'') one_asked"

definition sys_start :: sys where
  "sys_start = \<lparr>sy_conn = conn_at (run_dial True new_run), sy_chan = (\<lambda>ch. Unmade), sy_calls = (\<lambda>ch. []),
     sy_got = (\<lambda>ch. []), sy_past = (\<lambda>ch. {#})\<rparr>"

definition sys_back :: sys where
  "sys_back = \<lparr>sy_conn = conn_at one_served, sy_chan = (\<lambda>ch. Unmade)(5 := Idle),
     sy_calls = (\<lambda>ch. [])(5 := [(RequestBlockHash, ''chain_getBlockHash'')]),
     sy_got = (\<lambda>ch. [])(5 := [hash_resp RequestBlockHash ''b'']), sy_past = (\<lambda>ch. {#})\<rparr>"

lemma one_served_run:
  "rn_phase one_asked = Online"
  "rn_taken one_asked = [(5, RequestBlockHash, ''chain_getBlockHash'')]"
  "rn_taken one_served = [(5, RequestBlockHash, ''chain_getBlockHash'')]"
  "rn_sent one_served = [(5, hash_resp RequestBlockHash ''b'')]"
  by (simp_all add: one_served_def one_asked_def ask_eq run_dial_def new_run_def recv_message_def
      tag_decode_def quoted_def answer_def forget_def hash_resp_def)

lemma sys_start_init: "sys_init sample_encode tag_decode 30 [''n''] sys_start"
proof -
  have "ws_reach sample_encode tag_decode 30 (conn_at (run_dial True new_run))"
    by (rule dialled_reach)
  then show ?thesis
    by (simp add: sys_init_def sys_start_def conn_at_def sample_conn_def set_run_def go_online_def NewConn_def
        run_dial_def new_run_def)
qed

lemma sys_start_back: "(sys_step sample_encode tag_decode 30 [''n''])\<^sup>*\<^sup>* sys_start sys_back"
proof -
  let ?step = "sys_step sample_encode tag_decode 30 [''n'']"
  let ?c = "snd (Send 5 RequestBlockHash ''chain_getBlockHash'' None (conn_at (run_dial True new_run)))"
  let ?s1 = "set_chan 5 Held sys_start"
  let ?s2 = "?s1\<lparr>sy_conn := ?c, sy_calls := (sy_calls ?s1)(5 := [(RequestBlockHash, ''chain_getBlockHash'')])\<rparr>"
  let ?s3 = "?s2\<lparr>sy_conn := conn_at one_asked\<rparr>"
  let ?s4 = "?s3\<lparr>sy_conn := conn_at one_served\<rparr>"
  let ?s5 = "?s4\<lparr>sy_got := (sy_got ?s4)(5 := [hash_resp RequestBlockHash ''b''])\<rparr>"
  note cs = conn_at_def sample_conn_def set_run_def go_online_def NewConn_def
  have sent: "Send 5 RequestBlockHash ''chain_getBlockHash'' None (conn_at (run_dial True new_run)) = (None, ?c)"
    by (simp add: Send_def getStatusEvenOne_def cs)
  have asked: "set_run ''n'' one_asked (?c\<lparr>cn_Requests := [] @ []\<rparr>) = conn_at one_asked"
    by (simp add: Send_def getStatusEvenOne_def cs)
  have h1: "?step sys_start ?s1" by (rule sys_step.make) (simp add: sys_start_def)
  have h2: "?step ?s1 ?s2"
    using sys_step.send[of ?s1 5 RequestBlockHash "''chain_getBlockHash''" None ?c] sent by (simp add: sys_start_def)
  have h3: "?step ?s2 ?s3"
  proof -
    have "ws_step sample_encode tag_decode 30 ?c (set_run ''n'' one_asked (?c\<lparr>cn_Requests := [] @ []\<rparr>))"
      unfolding one_asked_def ask_def by (intro ws_step.request) (simp_all add: Send_def getStatusEvenOne_def cs run_dial_def)
    then show ?thesis
      by (intro sys_step.net)
        (simp add: asked net_step_def nodes_of_def one_served_run, simp add: Send_def getStatusEvenOne_def cs)
  qed
  have h4: "?step ?s3 ?s4"
  proof -
    have "ws_step sample_encode tag_decode 30 (conn_at one_asked) (set_run ''n'' one_served (conn_at one_asked))"
      unfolding one_served_def by (rule ws_step.message) simp
    moreover have "set_run ''n'' one_served (conn_at one_asked) = conn_at one_served" by (simp add: cs)
    ultimately show ?thesis
      by (intro sys_step.net) (simp add: net_step_def nodes_of_def one_served_run, simp add: cs)
  qed
  have h5: "?step ?s4 ?s5"
    using sys_step.take[of ?s4 5 "hash_resp RequestBlockHash ''b''"]
      conn_at_channel(2)[of one_served "[hash_resp RequestBlockHash ''b'']"]
    by (simp add: sys_start_def one_served_run)
  have h6: "?step ?s5 (set_chan 5 Idle ?s5)" by (rule sys_step.put) (simp_all add: sys_start_def)
  have final: "set_chan 5 Idle ?s5 = sys_back" by (simp add: sys_start_def sys_back_def)
  note more = converse_rtranclp_into_rtranclp[of ?step]
  have "?step\<^sup>*\<^sup>* ?s5 sys_back" unfolding final[symmetric] by (rule r_into_rtranclp[of ?step ?s5, OF h6])
  then have "?step\<^sup>*\<^sup>* ?s3 sys_back" by (intro more[OF h4] more[OF h5])
  then have "?step\<^sup>*\<^sup>* ?s1 sys_back" by (intro more[OF h2] more[OF h3])
  then show ?thesis by (rule more[OF h1])
qed

theorem replies_reach_their_holder_witness:
  "settled (conn_at one_served) [''n''] 5 \<and> queued (conn_at one_served) 5 = {#}"
  using replies_reach_their_holder[OF sys_start_init sys_start_back, of 5] by (simp add: sys_back_def)

text \<open>
  What gives a holder the right to put its channel back: after \<open>blockAndTx\<close> has returned, a result or
  an error, with the requests and replies of its channel as the system has them, the channel can go
  back to the pool.
\<close>

lemma height_gives_channel_back:
  assumes "blockAndTx E height ds io = (r, io')" and "returned r" and "steady_sends 0 io"
    and "sy_chan s ch = Held"
    and "\<And>calls rs. traffic io io' calls rs \<Longrightarrow> sy_calls s ch = map ident_of calls \<and> sy_got s ch = rs"
  shows "sys_step encode decode timeout addrs s (set_chan ch Idle s)"
proof -
  from owes_blockAndTx[of E height ds] assms(1-3) have "leaves 0 io io' 0"
    by (auto simp: owes_def returned_def split: go.splits)
  then obtain calls rs where "traffic io io' calls rs" "length calls \<le> length rs"
    by (auto simp: leaves_def)
  with assms(5)[OF this(1)] show ?thesis by (intro sys_step.put[OF assms(4)]) simp
qed

end
