(* ===== verification/Shortest_Decimal.thy ===== *)
theory Shortest_Decimal
  imports Go_BigFloat Complex_Main
begin

section \<open>Decimals and the shortest text of a float\<close>

text \<open>
  What the decimals of \<open>Go_BigFloat\<close> denote, and when the loop of \<open>roundShortest\<close> stops: if the interval
  of a float contains exactly one multiple of a power of ten, the decimal printed for the float is
  that number. Numbers are rationals; \<open>ten i\<close> is \<open>10 ^ i\<close> for an integer \<open>i\<close>.
\<close>

subsection \<open>Powers of ten\<close>

definition ten :: "int \<Rightarrow> rat" where
  "ten i = 10 powi i"

lemma ten_pos [simp]: "0 < ten i"
  by (simp add: ten_def)

lemma ten_nonneg [simp]: "0 \<le> ten i"
  using ten_pos[of i] by linarith

lemma ten_add: "ten (i + j) = ten i * ten j"
  by (simp add: ten_def power_int_add)

lemma ten_nat: "ten (int n) = 10 ^ n"
  by (simp add: ten_def)

lemma ten_0 [simp]: "ten 0 = 1"
  by (simp add: ten_def)

lemma ten_step: "ten i = 10 * ten (i - 1)"
  using ten_add[of 1 "i - 1"] by (simp add: ten_def)

lemma ten_le: "i \<le> j \<Longrightarrow> ten i \<le> ten j"
  by (simp add: ten_def power_int_increasing)

lemma ten_less: "i < j \<Longrightarrow> ten i < ten j"
  by (simp add: ten_def power_int_strict_increasing)

definition multiple :: "rat \<Rightarrow> rat \<Rightarrow> bool" where
  "multiple x g \<longleftrightarrow> (\<exists>c :: nat. x = of_nat c * g)"

lemma multiple_nat [simp, intro]: "multiple (of_nat c * g) g"
  by (auto simp: multiple_def)

lemma multiple_ten: "i \<le> j \<Longrightarrow> multiple (ten j) (ten i)"
proof -
  assume "i \<le> j"
  then have "ten j = of_nat (10 ^ nat (j - i)) * ten i"
    using ten_add[of "j - i" i] ten_nat[of "nat (j - i)"] by simp
  then show ?thesis by (simp only: multiple_nat)
qed

lemma multiple_trans: "multiple x g \<Longrightarrow> multiple g h \<Longrightarrow> multiple x h"
proof -
  assume "multiple x g" "multiple g h"
  then obtain c d :: nat where "x = of_nat c * g" "g = of_nat d * h" by (auto simp: multiple_def)
  then have "x = of_nat (c * d) * h" by simp
  then show ?thesis by (simp only: multiple_nat)
qed

lemma multiple_coarser: "multiple x (ten j) \<Longrightarrow> i \<le> j \<Longrightarrow> multiple x (ten i)"
  using multiple_trans multiple_ten by blast

subsection \<open>Prefixes of a decimal\<close>

fun prefix_val :: "decimal \<Rightarrow> nat \<Rightarrow> nat" where
  "prefix_val d 0 = 0"
| "prefix_val d (Suc i) = 10 * prefix_val d i + dec_at d (int i)"

definition list_val :: "nat list \<Rightarrow> nat" where
  "list_val ds = foldl (\<lambda>a x. 10 * a + x) 0 ds"

lemma list_val_snoc [simp]: "list_val (ds @ [x]) = 10 * list_val ds + x" "list_val [] = 0"
  by (simp_all add: list_val_def)

definition dec_val :: "decimal \<Rightarrow> rat" where
  "dec_val d = of_nat (list_val (fst d)) * ten (snd d - int (length (fst d)))"

definition normal :: "decimal \<Rightarrow> bool" where
  "normal d \<longleftrightarrow> fst d \<noteq> [] \<and> hd (fst d) \<noteq> 0 \<and> last (fst d) \<noteq> 0 \<and> (\<forall>x \<in> set (fst d). x < 10)"

lemma prefix_val_list: "i \<le> length (fst d) \<Longrightarrow> prefix_val d i = list_val (take i (fst d))"
  by (induction i) (simp_all add: dec_at_def take_Suc_conv_app_nth)

definition part :: "decimal \<Rightarrow> nat \<Rightarrow> rat" where
  "part d i = of_nat (prefix_val d i) * ten (snd d - int i)"

lemma part_0 [simp]: "part d 0 = 0"
  by (simp add: part_def)

lemma part_Suc: "part d (Suc i) = part d i + of_nat (dec_at d (int i)) * ten (snd d - int (Suc i))"
proof -
  have "ten (snd d - int i) = 10 * ten (snd d - int (Suc i))"
    using ten_step[of "snd d - int i"] by (simp add: algebra_simps)
  then show ?thesis by (simp add: part_def algebra_simps)
qed

lemma dec_at_less: "normal d \<Longrightarrow> dec_at d i < 10"
  by (auto simp: normal_def dec_at_def)

lemma part_mono: "i \<le> j \<Longrightarrow> part d i \<le> part d j"
proof (induction j)
  case (Suc j)
  have "part d j \<le> part d (Suc j)" by (simp add: part_Suc)
  with Suc show ?case by (auto simp: le_Suc_eq)
qed simp

lemma part_close:
  assumes "normal d" and "i \<le> j"
  shows "part d j + ten (snd d - int j) \<le> part d i + ten (snd d - int i)"
  using assms(2)
proof (induction j)
  case (Suc j)
  show ?case
  proof (cases "i = Suc j")
    case False
    have "of_nat (dec_at d (int j)) + 1 \<le> (10 :: rat)"
      using dec_at_less[OF assms(1), of "int j"] by (metis Suc_leI of_nat_Suc of_nat_le_iff of_nat_numeral add.commute)
    from mult_right_mono[OF this, of "ten (snd d - int (Suc j))"]
    have "part d (Suc j) + ten (snd d - int (Suc j)) \<le> part d j + ten (snd d - int j)"
      using ten_step[of "snd d - int j"] by (simp add: part_Suc algebra_simps)
    with Suc False show ?thesis by simp
  qed simp
qed simp

lemma part_whole: "length (fst d) \<le> i \<Longrightarrow> part d i = dec_val d"
proof (induction i)
  case 0
  then show ?case by (simp add: dec_val_def)
next
  case (Suc i)
  show ?case
  proof (cases "length (fst d) = Suc i")
    case True
    then show ?thesis using prefix_val_list[of "Suc i" d] by (simp add: part_def dec_val_def del: prefix_val.simps)
  next
    case False
    with Suc show ?thesis by (simp add: part_Suc dec_at_def)
  qed
qed

lemma part_bounds:
  assumes "normal d"
  shows "part d i \<le> dec_val d" "dec_val d < part d i + ten (snd d - int i)"
proof -
  let ?j = "max i (length (fst d))"
  have j: "part d ?j = dec_val d" by (rule part_whole) simp
  show "part d i \<le> dec_val d" using part_mono[of i ?j d] j by simp
  have "dec_val d + ten (snd d - int ?j) \<le> part d i + ten (snd d - int i)"
    using part_close[OF assms, of i ?j] j by simp
  then show "dec_val d < part d i + ten (snd d - int i)"
    using ten_pos[of "snd d - int ?j"] by linarith
qed

lemma part_multiple: "multiple (part d i) (ten (snd d - int i))"
  by (simp add: part_def)

lemma part_up_multiple: "multiple (part d i + ten (snd d - int i)) (ten (snd d - int i))"
proof -
  have "part d i + ten (snd d - int i) = of_nat (prefix_val d i + 1) * ten (snd d - int i)"
    by (simp add: part_def algebra_simps)
  then show ?thesis by (simp only: multiple_nat)
qed

lemma first_digit:
  assumes "normal d"
  shows "ten (snd d - 1) \<le> part d (Suc i)" "ten (snd d - 1) \<le> dec_val d" "dec_val d < ten (snd d)"
proof -
  have "1 \<le> dec_at d 0" using assms by (cases "fst d") (auto simp: normal_def dec_at_def)
  then have "ten (snd d - 1) \<le> part d (Suc 0)"
    using mult_right_mono[of 1 "of_nat (dec_at d 0)" "ten (snd d - 1)"] by (simp add: part_Suc)
  also have "\<dots> \<le> part d (Suc i)" by (rule part_mono) simp
  finally show 1: "ten (snd d - 1) \<le> part d (Suc i)" .
  show "dec_val d < ten (snd d)" using part_bounds(2)[OF assms, of 0] by simp
  have "ten (snd d - 1) \<le> part d (Suc 0)" using \<open>ten (snd d - 1) \<le> part d (Suc 0)\<close> .
  with part_bounds(1)[OF assms, of "Suc 0"] show "ten (snd d - 1) \<le> dec_val d" by simp
qed

lemma part_up_le:
  assumes "normal d"
  shows "part d i + ten (snd d - int i) \<le> ten (snd d)"
  using part_close[OF assms, of 0 i] by simp

lemma exponent_mono:
  assumes "normal a" and "normal b" and "dec_val a < dec_val b"
  shows "snd a \<le> snd b"
proof (rule ccontr)
  assume "\<not> ?thesis"
  then have "ten (snd b) \<le> ten (snd a - 1)" by (intro ten_le) simp
  with first_digit(2)[OF assms(1)] first_digit(3)[OF assms(2)] assms(3) show False by simp
qed

lemma part_less_part:
  assumes "snd d = snd d'" and "prefix_val d i < prefix_val d' i"
  shows "part d i + ten (snd d - int i) \<le> part d' i"
proof -
  have "(of_nat (prefix_val d i + 1) :: rat) \<le> of_nat (prefix_val d' i)" using assms(2) by (subst of_nat_le_iff) simp
  from mult_right_mono[OF this, of "ten (snd d - int i)"] assms(1) show ?thesis
    by (simp add: part_def algebra_simps)
qed

lemma prefix_val_mono:
  assumes "normal d'" and "snd d = snd d'" and "normal d" and "dec_val d < dec_val d'"
  shows "prefix_val d i \<le> prefix_val d' i"
proof (rule ccontr)
  assume "\<not> ?thesis"
  then have "part d' i + ten (snd d - int i) \<le> part d i" using part_less_part[of d' d i] assms(2) by simp
  with part_bounds(1)[OF assms(3), of i] part_bounds(2)[OF assms(1), of i] assms(2,4) show False by simp
qed

subsection \<open>Where the loop stops\<close>

text \<open>The two conditions of the loop at an index of \<open>d\<close>.\<close>

definition okdown :: "decimal \<Rightarrow> decimal \<Rightarrow> bool \<Rightarrow> nat \<Rightarrow> bool" where
  "okdown d lower incl i \<longleftrightarrow> dec_at lower (int i) \<noteq> dec_at d (int i) \<or> incl \<and> i + 1 = length (fst lower)"

definition okup :: "decimal \<Rightarrow> decimal \<Rightarrow> bool \<Rightarrow> nat \<Rightarrow> bool" where
  "okup d upper incl i \<longleftrightarrow> dec_at d (int i) \<noteq> dec_at upper (int i) \<and>
     (incl \<or> dec_at d (int i) + 1 < dec_at upper (int i) \<or> i + 1 < length (fst upper))"

definition quiet :: "decimal \<Rightarrow> decimal \<Rightarrow> decimal \<Rightarrow> bool \<Rightarrow> nat \<Rightarrow> bool" where
  "quiet d lower upper incl t \<longleftrightarrow> (\<forall>j < t. \<not> okdown d lower incl j \<and> \<not> okup d upper incl j)"

lemma shortest_loop_step:
  assumes "i < length (fst d)"
  shows "shortest_loop d lower upper incl i (drop i (fst d)) =
    (if okdown d lower incl i \<and> okup d upper incl i then dec_round d (i + 1)
     else if okdown d lower incl i then dec_roundDown d (i + 1)
     else if okup d upper incl i then dec_roundUp d (i + 1)
     else shortest_loop d lower upper incl (i + 1) (drop (i + 1) (fst d)))"
proof -
  have "drop i (fst d) = dec_at d (int i) # drop (i + 1) (fst d)"
    using assms by (simp add: dec_at_def Cons_nth_drop_Suc)
  then show ?thesis by (simp add: okdown_def okup_def Let_def)
qed

lemma shortest_loop_quiet:
  assumes "quiet d lower upper incl t" and "i \<le> t" and "t \<le> length (fst d)"
  shows "shortest_loop d lower upper incl i (drop i (fst d)) = shortest_loop d lower upper incl t (drop t (fst d))"
  using assms(2)
proof (induction "t - i" arbitrary: i)
  case (Suc n)
  then have "i < t" by simp
  with assms(1,3) have "shortest_loop d lower upper incl i (drop i (fst d)) =
      shortest_loop d lower upper incl (i + 1) (drop (i + 1) (fst d))"
    by (subst shortest_loop_step) (simp_all add: quiet_def)
  with Suc(1)[of "i + 1"] Suc(2) \<open>i < t\<close> show ?case by simp
qed simp

text \<open>Rounding at an index where the loop stops keeps within the interval.\<close>

lemma okdown_part:
  assumes "okdown d lower incl j" and "normal d" and "normal lower" and "dec_val lower < dec_val d"
  shows "dec_val lower \<le> part d (Suc j)"
proof (cases "snd lower = snd d")
  case True
  show ?thesis
  proof (cases "prefix_val lower (Suc j) < prefix_val d (Suc j)")
    case less: True
    have "part lower (Suc j) + ten (snd lower - int (Suc j)) \<le> part d (Suc j)"
      by (rule part_less_part[OF True less])
    with part_bounds(2)[OF assms(3), of "Suc j"] show ?thesis by simp
  next
    case False
    have "prefix_val lower i \<le> prefix_val d i" for i by (rule prefix_val_mono[OF assms(2) True assms(3,4)])
    from this[of j] this[of "Suc j"] False have eq: "prefix_val lower (Suc j) = prefix_val d (Suc j)"
      "prefix_val lower j \<le> prefix_val d j" by simp_all
    have "prefix_val lower j = prefix_val d j"
      using eq dec_at_less[OF assms(2), of "int j"] dec_at_less[OF assms(3), of "int j"] by simp
    with eq have "dec_at lower (int j) = dec_at d (int j)" by simp
    with assms(1) have "length (fst lower) = Suc j" by (simp add: okdown_def)
    then have "dec_val lower = part lower (Suc j)" by (simp add: part_whole)
    with eq(1) True show ?thesis by (simp add: part_def del: prefix_val.simps)
  qed
next
  case False
  with exponent_mono[OF assms(3,2,4)] have "dec_val lower < ten (snd d - 1)"
    using first_digit(3)[OF assms(3)] ten_le[of "snd lower" "snd d - 1"] by simp
  with first_digit(1)[OF assms(2), of j] show ?thesis by simp
qed

lemma okup_part:
  assumes "okup d upper incl j" and "normal d" and "normal upper" and "dec_val d < dec_val upper"
  shows "part d (Suc j) + ten (snd d - int (Suc j)) \<le> dec_val upper"
proof (cases "snd upper = snd d")
  case True
  have le: "prefix_val d i \<le> prefix_val upper i" for i
    by (rule prefix_val_mono[OF assms(3) True[symmetric] assms(2,4)])
  have "prefix_val d (Suc j) < prefix_val upper (Suc j)"
  proof (rule ccontr)
    assume "\<not> ?thesis"
    with le[of j] le[of "Suc j"] have eq: "prefix_val d (Suc j) = prefix_val upper (Suc j)" by simp
    with le[of j] have "prefix_val d j = prefix_val upper j"
      using dec_at_less[OF assms(2), of "int j"] dec_at_less[OF assms(3), of "int j"] by simp
    with eq assms(1) show False by (simp add: okup_def)
  qed
  from part_less_part[OF True[symmetric] this] part_bounds(1)[OF assms(3), of "Suc j"] show ?thesis by simp
next
  case False
  with exponent_mono[OF assms(2,3,4)] have "ten (snd d) \<le> ten (snd upper - 1)" by (intro ten_le) simp
  with first_digit(2)[OF assms(3)] part_up_le[OF assms(2), of "Suc j"] show ?thesis by simp
qed

subsection \<open>The only short number of an interval\<close>

text \<open>\<open>X\<close> is the only multiple of \<open>ten h\<close> between the bounds, and strictly between them.\<close>

definition only_one :: "decimal \<Rightarrow> decimal \<Rightarrow> decimal \<Rightarrow> rat \<Rightarrow> int \<Rightarrow> bool" where
  "only_one d lower upper X h \<longleftrightarrow> normal d \<and> normal lower \<and> normal upper \<and>
     dec_val lower < dec_val d \<and> dec_val d < dec_val upper \<and> dec_val lower < X \<and> X < dec_val upper \<and>
     multiple X (ten h) \<and> h \<le> snd d - 2 \<and>
     (\<forall>y. multiple y (ten h) \<longrightarrow> dec_val lower \<le> y \<longrightarrow> y \<le> dec_val upper \<longrightarrow> y = X)"

lemma only_oneD:
  assumes "only_one d lower upper X h"
  shows "normal d" "normal lower" "normal upper" "dec_val lower < dec_val d" "dec_val d < dec_val upper"
    "dec_val lower < X" "X < dec_val upper" "multiple X (ten h)" "h \<le> snd d - 2"
  using assms by (simp_all add: only_one_def)

lemma only_one_eq:
  "only_one d lower upper X h \<Longrightarrow> multiple y (ten i) \<Longrightarrow> h \<le> i \<Longrightarrow> dec_val lower \<le> y \<Longrightarrow> y \<le> dec_val upper \<Longrightarrow> y = X"
  unfolding only_one_def using multiple_coarser by blast

text \<open>The index of the last digit of \<open>X\<close>, counted as those of \<open>d\<close>.\<close>

definition last_index :: "decimal \<Rightarrow> rat \<Rightarrow> nat \<Rightarrow> bool" where
  "last_index d X t \<longleftrightarrow> multiple X (ten (snd d - int (Suc t))) \<and>
     (\<forall>j < t. \<not> multiple X (ten (snd d - int (Suc j))))"

lemma last_index_ex:
  assumes "only_one d lower upper X h"
  obtains t where "last_index d X t" "h \<le> snd d - int (Suc t)"
proof -
  let ?P = "\<lambda>j. multiple X (ten (snd d - int (Suc j)))"
  have P: "?P (nat (snd d - 1 - h))" using only_oneD(8,9)[OF assms] by simp
  have "last_index d X (LEAST j. ?P j)"
    unfolding last_index_def using LeastI[of ?P, OF P] not_less_Least[of _ ?P] by blast
  moreover have "(LEAST j. ?P j) \<le> nat (snd d - 1 - h)" using P by (rule Least_le)
  ultimately show thesis using only_oneD(9)[OF assms] by (intro that[of "LEAST j. ?P j"]) auto
qed

lemma only_one_quiet:
  assumes "only_one d lower upper X h" and "last_index d X t" and "h \<le> snd d - int (Suc t)"
  shows "quiet d lower upper incl t"
  unfolding quiet_def
proof (intro allI impI conjI notI)
  fix j
  assume j: "j < t"
  note o = only_oneD[OF assms(1)]
  have h: "h \<le> snd d - int (Suc j)" using assms(3) j by simp
  have no: "\<not> multiple X (ten (snd d - int (Suc j)))" using assms(2) j by (simp add: last_index_def)
  {
    assume "okdown d lower incl j"
    from okdown_part[OF this o(1,2,4)] have "dec_val lower \<le> part d (Suc j)" .
    moreover have "part d (Suc j) \<le> dec_val upper" using part_bounds(1)[OF o(1), of "Suc j"] o(5) by simp
    ultimately have "part d (Suc j) = X" using only_one_eq[OF assms(1) part_multiple h] by simp
    with part_multiple[of d "Suc j"] no show False by simp
  next
    assume "okup d upper incl j"
    from okup_part[OF this o(1,3,5)] have "part d (Suc j) + ten (snd d - int (Suc j)) \<le> dec_val upper" .
    moreover have "dec_val lower \<le> part d (Suc j) + ten (snd d - int (Suc j))"
      using part_bounds(2)[OF o(1), of "Suc j"] o(4) by simp
    ultimately have "part d (Suc j) + ten (snd d - int (Suc j)) = X"
      using only_one_eq[OF assms(1) part_up_multiple h] by simp
    with part_up_multiple[of d "Suc j"] no show False by simp
  }
qed

lemma only_one_short:
  assumes "only_one d lower upper X h" and "last_index d X t" and "h \<le> snd d - int (Suc t)"
  shows "t < length (fst d)"
proof (rule ccontr)
  assume "\<not> ?thesis"
  note o = only_oneD[OF assms(1)]
  have "fst d \<noteq> []" using o(1) by (simp add: normal_def)
  then have l: "0 < length (fst d)" by simp
  define j where "j = length (fst d) - 1"
  have j: "Suc j = length (fst d)" "j < t" using l \<open>\<not> t < length (fst d)\<close> unfolding j_def by linarith+
  then have v: "part d (Suc j) = dec_val d" by (intro part_whole) simp
  have "h \<le> snd d - int (Suc j)" using assms(3) j(2) by simp
  from only_one_eq[OF assms(1) part_multiple this] v o(4,5) have "part d (Suc j) = X" by simp
  with part_multiple[of d "Suc j"] assms(2) j(2) show False by (simp add: last_index_def)
qed

lemma only_one_cases:
  assumes "only_one d lower upper X h" and "last_index d X t" and "h \<le> snd d - int (Suc t)"
  shows "X = part d (Suc t) \<or> X = part d (Suc t) + ten (snd d - int (Suc t)) \<and> dec_val d < X"
proof -
  note o = only_oneD[OF assms(1)] and b = part_bounds[OF only_oneD(1)[OF assms(1)], of "Suc t"]
  let ?g = "ten (snd d - int (Suc t))"
  obtain c :: nat where c: "X = of_nat c * ?g" using assms(2) by (auto simp: last_index_def multiple_def)
  have p: "part d (Suc t) = of_nat (prefix_val d (Suc t)) * ?g" by (simp add: part_def)
  show ?thesis
  proof (cases "X \<le> dec_val d")
    case True
    then have "of_nat c * ?g < of_nat (prefix_val d (Suc t) + 1) * ?g" using b(2) c p by (simp add: algebra_simps)
    then have "c \<le> prefix_val d (Suc t)" by (simp del: prefix_val.simps of_nat_add of_nat_Suc)
    then have "X \<le> part d (Suc t)" unfolding c p by (intro mult_right_mono) (simp_all del: prefix_val.simps)
    with only_one_eq[OF assms(1) part_multiple assms(3)] o(5,6) b(1) show ?thesis by simp
  next
    case False
    with b(1) have "part d (Suc t) < X" by linarith
    then have "of_nat (prefix_val d (Suc t)) * ?g < of_nat c * ?g" unfolding c p .
    then have "prefix_val d (Suc t) < c" by (simp del: prefix_val.simps)
    then have "(of_nat (prefix_val d (Suc t) + 1) :: rat) \<le> of_nat c" by (subst of_nat_le_iff) simp
    from mult_right_mono[OF this, of ?g] have "part d (Suc t) + ?g \<le> X" unfolding c p by (simp add: algebra_simps)
    with only_one_eq[OF assms(1) part_up_multiple assms(3)] o(4,7) b(2) have "part d (Suc t) + ?g = X" by simp
    with False show ?thesis by simp
  qed
qed

text \<open>The number is a prefix of \<open>d\<close>: the loop cuts.\<close>

lemma cut_okdown:
  assumes "only_one d lower upper X h" and "last_index d X t" and "h \<le> snd d - int (Suc t)"
    and "X = part d (Suc t)"
  shows "okdown d lower incl t" and "\<not> okup d upper incl t"
proof -
  note o = only_oneD[OF assms(1)]
  show "\<not> okup d upper incl t"
  proof
    assume "okup d upper incl t"
    from okup_part[OF this o(1,3,5)] have "part d (Suc t) + ten (snd d - int (Suc t)) \<le> dec_val upper" .
    moreover have "dec_val lower \<le> part d (Suc t) + ten (snd d - int (Suc t))"
      using o(6) assms(4) ten_nonneg[of "snd d - int (Suc t)"] by linarith
    ultimately have "part d (Suc t) + ten (snd d - int (Suc t)) = X"
      using only_one_eq[OF assms(1) part_up_multiple assms(3)] by blast
    then show False using assms(4) ten_pos[of "snd d - int (Suc t)"] by linarith
  qed
  show "okdown d lower incl t"
  proof (cases "snd lower = snd d")
    case True
    show ?thesis
    proof (rule ccontr)
      assume n: "\<not> ?thesis"
      have same: "prefix_val lower i = prefix_val d i" if "i \<le> Suc t" for i
        using that
      proof (induction i)
        case (Suc i)
        then have "\<not> okdown d lower incl i"
          using n only_one_quiet[OF assms(1-3), of incl] by (cases "i = t") (auto simp: quiet_def)
        with Suc show ?case by (simp add: okdown_def)
      qed simp
      then have "part lower (Suc t) = X" using True assms(4) by (simp add: part_def del: prefix_val.simps)
      with part_bounds(1)[OF o(2), of "Suc t"] o(6) show False by simp
    qed
  next
    case False
    with exponent_mono[OF o(2,1,4)] have "snd lower < snd d" by simp
    then have less: "dec_val lower < ten (snd d - 1)" "ten (snd lower) \<le> ten (snd d - 1)"
      using first_digit(3)[OF o(2)] ten_le[of "snd lower" "snd d - 1"] by simp_all
    have X: "ten (snd d - 1) = X"
      by (rule only_one_eq[OF assms(1) multiple_ten[OF order_refl]]) (use less first_digit(2)[OF o(1)] o in linarith)+
    have "multiple X (ten (snd d - int (Suc 0)))" unfolding X[symmetric] by (rule multiple_ten) simp
    then have t: "t = 0" using assms(2) unfolding last_index_def by blast
    have "of_nat (dec_at d 0) * ten (snd d - 1) = 1 * ten (snd d - 1)"
      using assms(4) X by (simp add: t part_Suc)
    then have one: "dec_at d 0 = 1" using ten_pos[of "snd d - 1"] by auto
    have "dec_at lower 0 \<noteq> 1"
    proof
      assume "dec_at lower 0 = 1"
      then have "dec_val lower < 2 * ten (snd lower - 1)" using part_bounds(2)[OF o(2), of 1] by (simp add: part_Suc)
      moreover have "ten (snd lower - 1) \<le> ten (snd d - 2)" using \<open>snd lower < snd d\<close> by (intro ten_le) simp
      ultimately have "dec_val lower \<le> of_nat 2 * ten (snd d - 2)" by simp
      moreover have ten2: "ten (snd d - 1) = 10 * ten (snd d - 2)" using ten_step[of "snd d - 1"] by simp
      then have "2 * ten (snd d - 2) \<le> dec_val upper" using X o(7) ten_pos[of "snd d - 2"] by linarith
      then have "of_nat 2 * ten (snd d - 2) \<le> dec_val upper" by simp
      ultimately have "of_nat 2 * ten (snd d - 2) = X" using only_one_eq[OF assms(1) multiple_nat o(9)] by blast
      with ten2 X ten_pos[of "snd d - 2"] show False by simp
    qed
    with one show ?thesis by (simp add: okdown_def t)
  qed
qed

text \<open>The number is the next one after a prefix of \<open>d\<close>: the loop rounds up.\<close>

lemma up_okup_same:
  assumes "only_one d lower upper X h" and "last_index d X t" and "h \<le> snd d - int (Suc t)"
    and "X = part d (Suc t) + ten (snd d - int (Suc t))" and "snd upper = snd d"
  shows "okup d upper incl t"
proof (rule ccontr)
  note o = only_oneD[OF assms(1)]
  assume n: "\<not> ?thesis"
  have quiet: "\<not> okup d upper incl i" if "i \<le> t" for i
    using n that only_one_quiet[OF assms(1-3), of incl] by (cases "i = t") (auto simp: quiet_def)
  have le: "prefix_val d i \<le> prefix_val upper i" for i
    by (rule prefix_val_mono[OF o(3) assms(5)[symmetric] o(1,5)])
  show False
  proof (cases "\<exists>i \<le> t. dec_at d (int i) \<noteq> dec_at upper (int i)")
    case False
    have same: "prefix_val upper i = prefix_val d i" if "i \<le> Suc t" for i
      using that by (induction i) (use False in auto)
    then have "part upper (Suc t) = part d (Suc t)" using assms(5) by (simp add: part_def del: prefix_val.simps)
    with part_bounds(2)[OF o(3), of "Suc t"] assms(4,5) o(7) show False by simp
  next
    case True
    define i where "i = (LEAST i. i \<le> t \<and> dec_at d (int i) \<noteq> dec_at upper (int i))"
    have i: "i \<le> t" "dec_at d (int i) \<noteq> dec_at upper (int i)" using True LeastI_ex[of "\<lambda>i. i \<le> t \<and> dec_at d (int i) \<noteq> dec_at upper (int i)"]
      by (auto simp: i_def)
    have before: "dec_at d (int j) = dec_at upper (int j)" if "j < i" for j
      using not_less_Least[of j "\<lambda>i. i \<le> t \<and> dec_at d (int i) \<noteq> dec_at upper (int i)"] that i(1) by (auto simp: i_def)
    have same: "prefix_val upper j = prefix_val d j" if "j \<le> i" for j
      using that by (induction j) (use before in auto)
    have u: "dec_at upper (int i) = dec_at d (int i) + 1" "length (fst upper) \<le> Suc i"
      using quiet[OF i(1)] i(2) le[of "Suc i"] same[of i] by (auto simp: okup_def)
    have "dec_val upper = part upper (Suc i)" using u(2) by (simp add: part_whole)
    also have "\<dots> = part d (Suc i) + ten (snd d - int (Suc i))"
      using same[of i] u(1) assms(5) by (simp add: part_def algebra_simps)
    finally have v: "dec_val upper = part d (Suc i) + ten (snd d - int (Suc i))" .
    have "h \<le> snd d - int (Suc i)" using assms(3) i(1) by simp
    from only_one_eq[OF assms(1) part_up_multiple this] v o(4,5) have "dec_val upper = X" by simp
    with o(7) show False by simp
  qed
qed

lemma up_okup:
  assumes "only_one d lower upper X h" and "last_index d X t" and "h \<le> snd d - int (Suc t)"
    and "X = part d (Suc t) + ten (snd d - int (Suc t))"
  shows "okup d upper incl t" and "\<not> okdown d lower incl t"
proof -
  note o = only_oneD[OF assms(1)]
  show "\<not> okdown d lower incl t"
  proof
    assume "okdown d lower incl t"
    from okdown_part[OF this o(1,2,4)] have "dec_val lower \<le> part d (Suc t)" .
    moreover have "part d (Suc t) \<le> dec_val upper" using part_bounds(1)[OF o(1), of "Suc t"] o(5) by simp
    ultimately have "part d (Suc t) = X" using only_one_eq[OF assms(1) part_multiple assms(3)] by blast
    then show False using assms(4) ten_pos[of "snd d - int (Suc t)"] by linarith
  qed
  show "okup d upper incl t"
  proof (cases "snd upper = snd d")
    case True
    show ?thesis by (rule up_okup_same[OF assms True])
  next
    case False
    with exponent_mono[OF o(1,3,5)] have e: "snd d \<le> snd upper - 1" by simp
    have big: "ten (snd d) \<le> dec_val upper" using first_digit(2)[OF o(3)] ten_le[OF e] by simp
    have h: "h \<le> snd d" using o(9) by simp
    have X: "ten (snd d) = X"
      by (rule only_one_eq[OF assms(1) multiple_ten[OF order_refl] h]) (use big first_digit(3)[OF o(1)] o in linarith)+
    have "multiple X (ten (snd d - int (Suc 0)))" unfolding X[symmetric] by (rule multiple_ten) simp
    then have t: "t = 0" using assms(2) unfolding last_index_def by blast
    have "of_nat (dec_at d 0 + 1) * ten (snd d - 1) = of_nat 10 * ten (snd d - 1)"
      using assms(4) X ten_step[of "snd d"] by (simp add: t part_Suc algebra_simps)
    then have "(of_nat (dec_at d 0 + 1) :: rat) = of_nat 10"
      using ten_pos[of "snd d - 1"] by (metis less_numeral_extra(3) mult_right_cancel)
    then have nine: "dec_at d 0 = 9" by simp
    have other: "y = X" if "multiple y (ten (snd d))" "ten (snd d) \<le> y" "y \<le> dec_val upper" for y
      by (rule only_one_eq[OF assms(1) that(1) h]) (use that(2,3) first_digit(3)[OF o(1)] o(4) in linarith)+
    have short: "length (fst upper) \<noteq> 1"
    proof
      assume "length (fst upper) = 1"
      then have "dec_val upper = part upper (Suc 0)" by (simp add: part_whole)
      then have "multiple (dec_val upper) (ten (snd upper - int (Suc 0)))" using part_multiple[of upper "Suc 0"] by simp
      then have "multiple (dec_val upper) (ten (snd d))" by (rule multiple_coarser) (use e in simp)
      from other[OF this big] o(7) show False by simp
    qed
    have "fst upper \<noteq> []" using o(3) by (simp add: normal_def)
    with short have long: "1 < length (fst upper)" by (metis One_nat_def length_0_conv less_one linorder_neqE_nat)
    have "dec_at upper 0 \<noteq> 9"
    proof
      assume "dec_at upper 0 = 9"
      then have "9 * ten (snd upper - 1) \<le> dec_val upper"
        using part_bounds(1)[OF o(3), of "Suc 0"] by (simp add: part_Suc)
      then have "2 * ten (snd d) \<le> dec_val upper" using ten_le[OF e] ten_pos[of "snd d"] by linarith
      then have "of_nat 2 * ten (snd d) \<le> dec_val upper" by simp
      moreover have "ten (snd d) \<le> of_nat 2 * ten (snd d)" by simp
      ultimately have "of_nat 2 * ten (snd d) = X" by (intro other multiple_nat)
      with X show False using ten_pos[of "snd d"] by simp
    qed
    with nine long show ?thesis by (simp add: okup_def t)
  qed
qed

section \<open>What is printed\<close>

lemma dec_trim_append: "dec_trim (xs @ [x]) = (if x = 0 then dec_trim xs else xs @ [x])"
  by (simp add: dec_trim_def)

lemma dec_trim_Nil [simp]: "dec_trim [] = []"
  by (simp add: dec_trim_def)

lemma dec_trim_val:
  "of_nat (list_val (dec_trim ds)) * ten (p - int (length (dec_trim ds))) = of_nat (list_val ds) * ten (p - int (length ds))"
proof (induction ds rule: rev_induct)
  case (snoc x ds)
  show ?case
  proof (cases "x = 0")
    case True
    have "ten (p - int (length ds)) = 10 * ten (p - int (length (ds @ [x])))"
      using ten_step[of "p - int (length ds)"] by (simp add: algebra_simps)
    with True snoc show ?thesis by (simp add: dec_trim_append)
  qed (simp add: dec_trim_append)
qed simp

lemma dec_trim_last: "dec_trim ds \<noteq> [] \<Longrightarrow> last (dec_trim ds) \<noteq> 0"
  by (induction ds rule: rev_induct) (auto simp: dec_trim_append)

lemma dec_trim_prefix: "\<exists>zs. ds = dec_trim ds @ zs \<and> (\<forall>z \<in> set zs. z = 0)"
proof (induction ds rule: rev_induct)
  case (snoc x ds)
  then obtain zs where "ds = dec_trim ds @ zs" "\<forall>z \<in> set zs. z = 0" by blast
  then show ?case by (cases "x = 0") (auto simp: dec_trim_append intro!: exI[of _ "zs @ [0]"])
qed simp

lemma dec_trim_normal:
  assumes "ds \<noteq> []" and "hd ds \<noteq> 0" and "\<forall>x \<in> set ds. x < 10"
  shows "normal (dec_trim ds, p)"
proof -
  obtain zs where z: "ds = dec_trim ds @ zs" "\<forall>z \<in> set zs. z = 0" using dec_trim_prefix by blast
  have "dec_trim ds \<noteq> []" using z assms(1,2) by (metis append_Nil hd_in_set)
  moreover from this have "hd (dec_trim ds) \<noteq> 0" using z(1) assms(2) by (metis hd_append2)
  moreover have "set (dec_trim ds) \<subseteq> set ds" using z(1) by (metis set_append Un_upper1)
  ultimately show ?thesis using dec_trim_last[of ds] assms(3) by (auto simp: normal_def)
qed

lemma roundDown_part:
  assumes "normal d"
  shows "dec_val (dec_roundDown d (Suc t)) = part d (Suc t)" and "normal (dec_roundDown d (Suc t))"
proof -
  show "dec_val (dec_roundDown d (Suc t)) = part d (Suc t)"
  proof (cases "Suc t < length (fst d)")
    case True
    let ?ds = "take (Suc t) (fst d)"
    have n: "normal (dec_trim ?ds, snd d)"
      by (rule dec_trim_normal) (use assms True in \<open>auto simp: normal_def dest: in_set_takeD\<close>)
    then have "dec_roundDown d (Suc t) = (dec_trim ?ds, snd d)"
      using True by (simp add: dec_roundDown_def normal_def Let_def)
    moreover have "prefix_val d (Suc t) = list_val ?ds" using True by (intro prefix_val_list) simp
    ultimately show ?thesis using dec_trim_val[of ?ds "snd d"] True
      by (simp add: dec_val_def part_def del: prefix_val.simps)
  qed (simp add: dec_roundDown_def part_whole)
  show "normal (dec_roundDown d (Suc t))"
  proof (cases "Suc t < length (fst d)")
    case True
    have "normal (dec_trim (take (Suc t) (fst d)), snd d)"
      by (rule dec_trim_normal) (use assms True in \<open>auto simp: normal_def dest: in_set_takeD\<close>)
    then show ?thesis using True by (simp add: dec_roundDown_def normal_def Let_def)
  qed (use assms in \<open>simp add: dec_roundDown_def\<close>)
qed

definition up_list :: "nat list \<Rightarrow> nat list" where
  "up_list ds = rev (dropWhile (\<lambda>x. x \<ge> 9) (rev ds))"

lemma up_list_snoc: "up_list (ds @ [x]) = (if x \<ge> 9 then up_list ds else ds @ [x])"
  by (simp add: up_list_def)

lemma up_list_Nil [simp]: "up_list [] = []"
  by (simp add: up_list_def)

lemma up_list_val:
  assumes "\<forall>x \<in> set ds. x < 10"
  shows "of_nat (list_val ds + 1) * ten (p - int (length ds)) =
    (if up_list ds = [] then ten p
     else of_nat (list_val (butlast (up_list ds) @ [last (up_list ds) + 1])) * ten (p - int (length (up_list ds))))"
  using assms
proof (induction ds rule: rev_induct)
  case (snoc x ds)
  show ?case
  proof (cases "x \<ge> 9")
    case True
    then have "x = 9" using snoc.prems by auto
    have "ten (p - int (length ds)) = 10 * ten (p - int (length (ds @ [x])))"
      using ten_step[of "p - int (length ds)"] by (simp add: algebra_simps)
    then have "of_nat (list_val (ds @ [x]) + 1) * ten (p - int (length (ds @ [x]))) =
        of_nat (list_val ds + 1) * ten (p - int (length ds))"
      by (simp add: \<open>x = 9\<close> algebra_simps)
    also note snoc.IH
    finally show ?thesis using True snoc.prems by (simp add: up_list_snoc)
  qed (simp add: up_list_snoc)
qed simp

lemma up_list_prefix: "\<exists>zs. ds = up_list ds @ zs"
proof (induction ds rule: rev_induct)
  case (snoc x ds)
  then obtain zs where "ds = up_list ds @ zs" by blast
  then have ds: "ds @ [x] = up_list ds @ zs @ [x]" by (metis append_assoc)
  show ?case
  proof (cases "x \<ge> 9")
    case True
    then have "up_list (ds @ [x]) = up_list ds" by (simp add: up_list_snoc)
    with ds show ?thesis by (intro exI[of _ "zs @ [x]"]) (simp only:)
  qed (simp add: up_list_snoc)
qed simp

lemma up_list_last: "up_list ds \<noteq> [] \<Longrightarrow> last (up_list ds) < 9"
  by (induction ds rule: rev_induct) (auto simp: up_list_snoc split: if_splits)

lemma roundUp_part:
  assumes "normal d" and "Suc t < length (fst d)"
  shows "dec_val (dec_roundUp d (Suc t)) = part d (Suc t) + ten (snd d - int (Suc t))"
    and "normal (dec_roundUp d (Suc t))"
proof -
  let ?ds = "take (Suc t) (fst d)"
  have small: "\<forall>x \<in> set ?ds. x < 10" using assms(1) by (auto simp: normal_def dest: in_set_takeD)
  have len: "length ?ds = Suc t" using assms(2) by simp
  have "part d (Suc t) + ten (snd d - int (Suc t)) = of_nat (list_val ?ds + 1) * ten (snd d - int (length ?ds))"
    using prefix_val_list[of "Suc t" d] assms(2) len by (simp add: part_def algebra_simps del: prefix_val.simps)
  note val = this[unfolded up_list_val[OF small]]
  have up: "dec_roundUp d (Suc t) = (case up_list ?ds of [] \<Rightarrow> ([1], snd d + 1)
      | v # va \<Rightarrow> (butlast (v # va) @ [last (v # va) + 1], snd d))"
    using assms(2) by (simp add: dec_roundUp_def up_list_def)
  show "dec_val (dec_roundUp d (Suc t)) = part d (Suc t) + ten (snd d - int (Suc t))"
  proof (cases "up_list ?ds")
    case Nil
    then show ?thesis using val up by (simp add: dec_val_def list_val_def)
  next
    case (Cons v va)
    then show ?thesis using val up by (simp add: dec_val_def del: list_val_snoc)
  qed
  show "normal (dec_roundUp d (Suc t))"
  proof (cases "up_list ?ds")
    case Nil
    then show ?thesis using up by (simp add: normal_def)
  next
    case (Cons v va)
    obtain zs where z: "?ds = up_list ?ds @ zs" using up_list_prefix by blast
    then have sub: "set (up_list ?ds) \<subseteq> set ?ds" by (metis set_append Un_upper1)
    have "hd ?ds \<noteq> 0" using assms by (cases "fst d") (auto simp: normal_def)
    then have "v \<noteq> 0" using z Cons by (metis hd_append2 list.sel(1) list.discI)
    moreover have "last (v # va) < 9" using up_list_last[of ?ds] Cons by simp
    moreover have "\<forall>x \<in> set (butlast (v # va)). x < 10"
      using sub small Cons in_set_butlastD by (metis subsetD)
    ultimately show ?thesis using up Cons by (cases va) (auto simp: normal_def)
  qed
qed

text \<open>The loop finds the only multiple in the interval.\<close>

lemma shortest_loop_only:
  assumes "only_one d lower upper X h"
  shows "dec_val (shortest_loop d lower upper incl 0 (fst d)) = X \<and> normal (shortest_loop d lower upper incl 0 (fst d))"
proof -
  note o = only_oneD[OF assms]
  obtain t where t: "last_index d X t" "h \<le> snd d - int (Suc t)" by (rule last_index_ex[OF assms])
  note short = only_one_short[OF assms t]
  have loop: "shortest_loop d lower upper incl 0 (fst d) = shortest_loop d lower upper incl t (drop t (fst d))"
    using shortest_loop_quiet[OF only_one_quiet[OF assms t], of 0 incl] short by simp
  note step = shortest_loop_step[OF short, of lower upper incl]
  show ?thesis
  proof (cases "X = part d (Suc t)")
    case True
    note c = cut_okdown[OF assms t True, of incl]
    show ?thesis using loop step c roundDown_part[OF o(1), of t] True by simp
  next
    case False
    with only_one_cases[OF assms t] have up: "X = part d (Suc t) + ten (snd d - int (Suc t))" "dec_val d < X" by auto
    have "Suc t < length (fst d)"
    proof (rule ccontr)
      assume "\<not> ?thesis"
      then have "part d (Suc t) = dec_val d" by (intro part_whole) simp
      with only_one_eq[OF assms part_multiple t(2)] o(4,5) have "dec_val d = X" by simp
      with up(2) show False by simp
    qed
    note r = roundUp_part[OF o(1) this]
    note c = up_okup[OF assms t up(1), of incl]
    show ?thesis using loop step c r up(1) by simp
  qed
qed

end
