(* ===== verification/Amount_Text.thy ===== *)
theory Amount_Text
  imports Shortest_Decimal Block_Balance_Mapper
begin

section \<open>Amounts computed by floats\<close>

text \<open>
  \<open>countCurrencyAmount\<close> and \<open>Text\<close> compute the text of an amount with a 64-bit float and the
  shortest decimal of its interval. Here the float's rounding is bounded, and the text is shown to be that
  of the exact quotient, for amounts below \<open>10 ^ 18\<close> of the smallest unit.
\<close>

subsection \<open>Digits and binary exponents\<close>

lemma list_val_digits: "list_val (dec_digits n) = n"
proof (induction n rule: dec_digits.induct)
  case (1 n)
  then show ?case by (subst dec_digits.simps) (auto simp: list_val_def)
qed

lemma dec_digits_small: "x \<in> set (dec_digits n) \<Longrightarrow> x < 10"
proof (induction n rule: dec_digits.induct)
  case (1 n)
  show ?case
  proof (cases "n < 10")
    case True
    with 1(2) show ?thesis by (simp add: dec_digits.simps[of n])
  next
    case False
    with 1 show ?thesis by (auto simp: dec_digits.simps[of n])
  qed
qed

lemma dec_digits_hd: "0 < n \<Longrightarrow> dec_digits n \<noteq> [] \<and> hd (dec_digits n) \<noteq> 0"
proof (induction n rule: dec_digits.induct)
  case (1 n)
  show ?case
  proof (cases "n < 10")
    case True
    with 1(2) show ?thesis by (simp add: dec_digits.simps[of n])
  next
    case False
    then have "0 < n div 10" by (simp add: div_greater_zero_iff)
    with 1 False show ?thesis by (simp add: dec_digits.simps[of n])
  qed
qed

definition two :: "int \<Rightarrow> rat" where
  "two i = 2 powi i"

lemma two_pos [simp]: "0 < two i"
  by (simp add: two_def)

lemma two_nonneg [simp]: "0 \<le> two i"
  using two_pos[of i] by linarith

lemma two_add: "two (i + j) = two i * two j"
  by (simp add: two_def power_int_add)

lemma two_nat: "two (int n) = 2 ^ n"
  by (simp add: two_def)

lemma two_nonneg_nat: "0 \<le> i \<Longrightarrow> two i = 2 ^ nat i"
  using two_nat[of "nat i"] by simp

lemma two_inverse: "two (- i) * two i = 1"
  using two_add[of "- i" i] by (simp add: two_def)

lemma two_step: "two i = 2 * two (i - 1)"
  using two_add[of 1 "i - 1"] by (simp add: two_def)

lemma dec_init_normal:
  assumes "0 < m"
  shows "normal (dec_init m s)" and "dec_val (dec_init m s) = of_nat m * two s"
proof -
  define k where "k = nat (- s)"
  define I where "I = m * 2 ^ nat s * 5 ^ k"
  have I: "0 < I" using assms by (simp add: I_def)
  have d: "dec_init m s = (dec_trim (dec_digits I), int (length (dec_digits I)) - int k)"
    using assms by (simp add: dec_init_def Let_def I_def k_def)
  show "normal (dec_init m s)"
    unfolding d by (rule dec_trim_normal) (use dec_digits_hd[OF I] dec_digits_small in auto)
  have "dec_val (dec_init m s) = of_nat I * ten (- int k)"
    unfolding d dec_val_def using dec_trim_val[of "dec_digits I" "int (length (dec_digits I)) - int k"]
    by (simp add: list_val_digits)
  also have "\<dots> = of_nat m * two s"
  proof (cases "0 \<le> s")
    case True
    then show ?thesis by (simp add: I_def k_def two_nonneg_nat)
  next
    case False
    then have s: "s = - int k" "nat s = 0" by (simp_all add: k_def)
    have "of_nat (5 ^ k) * two (int k) = ten (int k)"
      unfolding two_nat ten_nat by (simp add: power_mult_distrib[symmetric])
    then have "of_nat (5 ^ k) * (two (- int k) * two (int k)) * ten (- int k) = two (- int k) * (ten (int k) * ten (- int k))"
      by (simp add: mult_ac)
    moreover have "ten (int k) * ten (- int k) = 1" using ten_add[of "int k" "- int k"] by simp
    ultimately have "of_nat (5 ^ k) * ten (- int k) = two (- int k)" using two_inverse[of "int k"] by simp
    then show ?thesis using s by (simp add: I_def)
  qed
  finally show "dec_val (dec_init m s) = of_nat m * two s" .
qed

lemma bitlen_bounds: "0 < n \<Longrightarrow> 2 ^ (bitlen n - 1) \<le> n \<and> n < 2 ^ bitlen n \<and> 0 < bitlen n"
proof (induction n rule: bitlen.induct)
  case (1 n)
  show ?case
  proof (cases "n div 2 = 0")
    case True
    with 1(2) have "n = 1" by (simp add: div_eq_0_iff)
    then show ?thesis by (simp add: bitlen_eval bitlen.simps[of "Suc 0"] bitlen.simps[of 0])
  next
    case False
    with 1 have ih: "2 ^ (bitlen (n div 2) - 1) \<le> n div 2" "n div 2 < 2 ^ bitlen (n div 2)" "0 < bitlen (n div 2)"
      by auto
    have b: "bitlen n = Suc (bitlen (n div 2))" using 1(2) by (simp add: bitlen.simps[of n])
    define c :: nat where "c = 2 ^ (bitlen (n div 2) - 1)"
    have c: "2 ^ bitlen (n div 2) = 2 * c" using ih(3) unfolding c_def by (cases "bitlen (n div 2)") auto
    from ih(1,2) have "c \<le> n div 2" "n div 2 < 2 * c" unfolding c by (simp_all add: c_def)
    then have "2 * c \<le> n" "n < 4 * c" by arith+
    then show ?thesis by (simp add: b c)
  qed
qed

subsection \<open>Rounding to a precision\<close>

lemma scaled_quotient:
  assumes "0 < d" and "scaled n d e = (a, b)"
  shows "0 < b" and "of_nat a / of_nat b = (of_nat n / of_nat d) * two (- e)"
proof -
  show "0 < b" using assms by (auto simp: scaled_def)
  have ab: "a = n * 2 ^ nat (- e)" "b = d * 2 ^ nat e" using assms(2) by (auto simp: scaled_def)
  show "of_nat a / of_nat b = (of_nat n / of_nat d) * two (- e)"
  proof (cases "0 \<le> e")
    case True
    then have t: "two (- e) = inverse (2 ^ nat e)" by (simp add: two_def power_int_minus power_int_nonneg_exp)
    show ?thesis unfolding t ab using True by (simp add: divide_inverse mult_ac)
  next
    case False
    then have t: "two (- e) = 2 ^ nat (- e)" by (intro two_nonneg_nat) simp
    show ?thesis unfolding t ab using False by simp
  qed
qed

lemma rne_near:
  assumes "0 < den"
  shows "of_nat (rne num den) - 1 / 2 \<le> (of_nat num / of_nat den :: rat)"
    and "(of_nat num / of_nat den :: rat) \<le> of_nat (rne num den) + 1 / 2"
proof -
  define q where "q = num div den"
  define r where "r = num mod den"
  define f :: rat where "f = of_nat r / of_nat den"
  have "num = den * q + r" by (simp add: q_def r_def)
  then have "(of_nat num :: rat) = of_nat den * of_nat q + of_nat r" by (metis of_nat_add of_nat_mult)
  then have x: "(of_nat num / of_nat den :: rat) = of_nat q + f"
    using assms by (simp add: f_def field_simps)
  have "r < den" using assms by (simp add: r_def)
  then have bounds: "f < 1" "0 \<le> f" using assms by (simp_all add: f_def)
  have D: "(0 :: rat) < of_nat den" using assms by simp
  have fD: "2 * f * of_nat den = of_nat (2 * r)" using D by (simp add: f_def)
  have "2 * f \<le> 1" if "2 * r \<le> den"
  proof -
    have "of_nat (2 * r) \<le> (of_nat den :: rat)" using that by (simp only: of_nat_le_iff)
    then show ?thesis using mult_le_cancel_right_pos[OF D, of "2 * f" 1] by (simp only: fD mult_1)
  qed
  moreover have "1 \<le> 2 * f" if "den \<le> 2 * r"
  proof -
    have "(of_nat den :: rat) \<le> of_nat (2 * r)" using that by (simp only: of_nat_le_iff)
    then show ?thesis using mult_le_cancel_right_pos[OF D, of 1 "2 * f"] by (simp only: fD mult_1)
  qed
  ultimately have half: "2 * r \<le> den \<Longrightarrow> f \<le> 1 / 2" "den \<le> 2 * r \<Longrightarrow> 1 / 2 \<le> f" by auto
  have rne: "rne num den = (if 2 * r < den \<or> 2 * r = den \<and> even q then q else q + 1)"
    by (simp add: rne_def q_def r_def Let_def)
  show "of_nat (rne num den) - 1 / 2 \<le> (of_nat num / of_nat den :: rat)"
  proof (cases "2 * r < den \<or> 2 * r = den \<and> even q")
    case True
    then show ?thesis using bounds unfolding x rne by simp
  next
    case False
    then have "den \<le> 2 * r" by auto
    with False half(2) show ?thesis unfolding x rne by simp
  qed
  show "(of_nat num / of_nat den :: rat) \<le> of_nat (rne num den) + 1 / 2"
  proof (cases "2 * r < den \<or> 2 * r = den \<and> even q")
    case True
    then have "2 * r \<le> den" by auto
    with True half(1) show ?thesis unfolding x rne by simp
  next
    case False
    then have "rne num den = q + 1" by (simp only: rne if_False)
    with bounds show ?thesis unfolding x by simp
  qed
qed

lemma bitlen_two:
  assumes "0 < n"
  shows "two (int (bitlen n) - 1) \<le> of_nat n" and "of_nat n < two (int (bitlen n))"
proof -
  note b = bitlen_bounds[OF assms]
  then obtain k where k: "bitlen n = Suc k" by (cases "bitlen n") auto
  have "(of_nat (2 ^ k) :: rat) \<le> of_nat n" using b k by (subst of_nat_le_iff) simp
  then show "two (int (bitlen n) - 1) \<le> of_nat n" by (simp add: k two_nat)
  have "(of_nat n :: rat) < of_nat (2 ^ bitlen n)" using b by (subst of_nat_less_iff) simp
  then show "of_nat n < two (int (bitlen n))" by (simp add: two_nat)
qed

lemma fexp_bounds:
  assumes "0 < n" and "0 < d"
  shows "two (int prec - 1) \<le> (of_nat n / of_nat d) * two (- fexp prec n d)"
    and "(of_nat n / of_nat d) * two (- fexp prec n d) < two (int prec)"
proof -
  define x :: rat where "x = of_nat n / of_nat d"
  define e where "e = int (bitlen n) - int (bitlen d) - int prec"
  obtain a b where ab: "scaled n d e = (a, b)" by (cases "scaled n d e")
  note q = scaled_quotient[OF assms(2) ab]
  have f: "fexp prec n d = (if a < b * 2 ^ prec then e else e + 1)" by (simp add: fexp_def e_def[symmetric] ab Let_def)
  have d0: "(0 :: rat) < of_nat d" using assms(2) by simp
  have xd: "x * of_nat d = of_nat n" using d0 by (simp add: x_def)
  have x0: "0 < x" using assms by (simp add: x_def)
  have lo: "two (int (bitlen n) - 1 - int (bitlen d)) \<le> x"
  proof -
    have "two (int (bitlen n) - 1 - int (bitlen d)) * of_nat d \<le> two (int (bitlen n) - 1 - int (bitlen d)) * two (int (bitlen d))"
      using bitlen_two(2)[OF assms(2)] by (intro mult_left_mono) simp_all
    also have "\<dots> = two (int (bitlen n) - 1)" by (simp flip: two_add)
    also have "\<dots> \<le> x * of_nat d" using bitlen_two(1)[OF assms(1)] by (simp add: xd)
    finally show ?thesis using mult_le_cancel_right_pos[OF d0] by blast
  qed
  have hi: "x < two (int (bitlen n) - int (bitlen d) + 1)"
  proof -
    have "x * two (int (bitlen d) - 1) \<le> x * of_nat d" using bitlen_two(1)[OF assms(2)] x0 by (intro mult_left_mono) simp_all
    also have "\<dots> < two (int (bitlen n))" using bitlen_two(2)[OF assms(1)] by (simp add: xd)
    also have "\<dots> = two (int (bitlen n) - int (bitlen d) + 1) * two (int (bitlen d) - 1)" by (simp flip: two_add)
    finally show ?thesis using mult_less_cancel_right_pos[OF two_pos] by blast
  qed
  have lo': "two (int prec - 1) \<le> x * two (- e)"
  proof -
    have "two (int prec - 1) = two (int (bitlen n) - 1 - int (bitlen d)) * two (- e)"
      by (simp add: e_def flip: two_add)
    also have "\<dots> \<le> x * two (- e)" using lo by (intro mult_right_mono) simp_all
    finally show ?thesis .
  qed
  have hi': "x * two (- e) < two (int prec + 1)"
  proof -
    have "x * two (- e) < two (int (bitlen n) - int (bitlen d) + 1) * two (- e)"
      using hi by (intro mult_strict_right_mono) simp_all
    also have "\<dots> = two (int prec + 1)" by (simp add: e_def add.commute flip: two_add)
    finally show ?thesis .
  qed
  have less: "a < b * 2 ^ prec \<longleftrightarrow> x * two (- e) < two (int prec)"
  proof -
    have b0: "(0 :: rat) < of_nat b" using q(1) by simp
    have "a < b * 2 ^ prec \<longleftrightarrow> (of_nat a :: rat) < of_nat (b * 2 ^ prec)" by (simp only: of_nat_less_iff)
    also have "\<dots> \<longleftrightarrow> of_nat a < two (int prec) * of_nat b" by (simp add: two_nat mult.commute)
    also have "\<dots> \<longleftrightarrow> of_nat a / of_nat b < two (int prec)" using pos_divide_less_eq[OF b0] by blast
    finally show ?thesis by (simp only: q(2) x_def)
  qed
  have half: "x * two (- (e + 1)) = x * two (- e) / 2"
    using two_step[of "- e"] by simp
  have double: "two (int prec + 1) = 2 * two (int prec)" "two (int prec) = 2 * two (int prec - 1)"
    using two_step[of "int prec + 1"] two_step[of "int prec"] by simp_all
  have "two (int prec - 1) \<le> x * two (- fexp prec n d) \<and> x * two (- fexp prec n d) < two (int prec)"
  proof (cases "a < b * 2 ^ prec")
    case True
    with lo' less show ?thesis by (simp only: f if_True)
  next
    case False
    with less have "two (int prec) \<le> x * two (- e)" by simp
    with hi' double have "two (int prec - 1) \<le> x * two (- (e + 1)) \<and> x * two (- (e + 1)) < two (int prec)"
      unfolding half by linarith
    with False show ?thesis by (simp only: f if_False)
  qed
  then show "two (int prec - 1) \<le> (of_nat n / of_nat d) * two (- fexp prec n d)"
    "(of_nat n / of_nat d) * two (- fexp prec n d) < two (int prec)" by (simp_all only: x_def)
qed

text \<open>The float nearest to a quotient: a mantissa of the precision whose interval holds the quotient.\<close>

lemma round_float_near:
  assumes "0 < n" and "0 < d" and "1 < prec"
  obtains q e where "round_float s prec n d = FFin s prec q e" "2 ^ (prec - 1) \<le> q" "q < 2 ^ prec"
    "of_nat (2 * q - 1) * two (e - 1) \<le> of_nat n / of_nat d"
    "of_nat n / of_nat d \<le> of_nat (2 * q + 1) * two (e - 1)"
proof -
  define x :: rat where "x = of_nat n / of_nat d"
  define e where "e = fexp prec n d"
  obtain a b where ab: "scaled n d e = (a, b)" by (cases "scaled n d e")
  note quo = scaled_quotient[OF assms(2) ab, folded x_def]
  note fb = fexp_bounds[OF assms(1,2), of prec, folded x_def e_def]
  define m where "m = rne a b"
  note near = rne_near[OF quo(1), of a, folded m_def, unfolded quo(2)]
  have r: "round_float s prec n d = (if m = 2 ^ prec then FFin s prec (2 ^ (prec - 1)) (e + 1) else FFin s prec m e)"
    using assms(1) by (simp add: round_float_def e_def[symmetric] ab m_def Let_def)
  have low: "2 ^ (prec - 1) \<le> m"
  proof -
    have "of_nat (2 ^ (prec - 1)) = two (int prec - 1)" using assms(3) two_nat[of "prec - 1"] by (simp add: of_nat_diff)
    with fb(1) near(2) have "(of_nat (2 ^ (prec - 1)) :: rat) < of_nat (m + 1)" by simp
    then show ?thesis by (simp only: of_nat_less_iff)
  qed
  have high: "m \<le> 2 ^ prec"
  proof -
    from fb(2) near(1) have "(of_nat m :: rat) < of_nat (2 ^ prec + 1)" by (simp add: two_nat)
    then show ?thesis by (simp only: of_nat_less_iff)
  qed
  have unscale: "x * two (- e) * two e = x" using two_inverse[of e] by (simp add: mult.assoc)
  have te: "two e = 2 * two (e - 1)" by (rule two_step)
  have i1: "(2 * of_nat m - 1) * two (e - 1) \<le> x"
    using mult_right_mono[OF near(1), of "two e"] unfolding unscale by (simp add: te algebra_simps)
  have i2: "x \<le> (2 * of_nat m + 1) * two (e - 1)"
    using mult_right_mono[OF near(2), of "two e"] unfolding unscale by (simp add: te algebra_simps)
  have m0: "1 \<le> m" using low by (metis le_trans one_le_numeral one_le_power)
  show thesis
  proof (cases "m = 2 ^ prec")
    case False
    have "of_nat (2 * m - 1) = (2 * of_nat m - 1 :: rat)" using m0 by (simp add: of_nat_diff)
    with i1 i2 r low high False show thesis by (intro that[of m e]) (simp_all add: x_def[symmetric] add.commute)
  next
    case True
    obtain k where k: "prec = Suc k" "0 < k" using assms(3) by (cases prec) auto
    have M: "(of_nat m :: rat) = 2 * 2 ^ k" using True k by simp
    have q: "of_nat (2 * 2 ^ k - 1) = (2 * 2 ^ k - 1 :: rat)" by (simp add: of_nat_diff)
    have "(2 * 2 ^ k - 1) * two e \<le> x"
    proof -
      have "(2 * 2 ^ k - 1) * two e = (2 * of_nat m - 2) * two (e - 1)" by (simp add: M te algebra_simps)
      also have "\<dots> \<le> (2 * of_nat m - 1) * two (e - 1)" by (intro mult_right_mono) simp_all
      also note i1
      finally show ?thesis .
    qed
    moreover have "x \<le> (2 * 2 ^ k + 1) * two e"
    proof -
      note i2
      also have "(2 * of_nat m + 1) * two (e - 1) \<le> (2 * of_nat m + 2) * two (e - 1)" by (intro mult_right_mono) simp_all
      also have "\<dots> = (2 * 2 ^ k + 1) * two e" by (simp add: M te algebra_simps)
      finally show ?thesis .
    qed
    ultimately show thesis using r True k q by (intro that[of "2 ^ k" "e + 1"]) (simp_all add: x_def[symmetric] add.commute)
  qed
qed

text \<open>An integer that fits the precision is not rounded.\<close>

lemma round_float_exact:
  assumes "0 < n" and "n < 2 ^ prec"
  shows "round_float s prec n 1 = FFin s prec (n * 2 ^ (prec - bitlen n)) (int (bitlen n) - int prec)"
    and "of_nat (n * 2 ^ (prec - bitlen n)) * two (int (bitlen n) - int prec) = of_nat n"
    and "0 < n * 2 ^ (prec - bitlen n)"
proof -
  note b = bitlen_bounds[OF assms(1)]
  have le: "bitlen n \<le> prec"
  proof (rule ccontr)
    assume "\<not> ?thesis"
    then have "(2 :: nat) ^ prec \<le> 2 ^ (bitlen n - 1)" by (intro power_increasing) auto
    with b have "2 ^ prec \<le> n" by (meson order_trans)
    with assms(2) show False by linarith
  qed
  have "2 ^ prec = 2 ^ (bitlen n - 1) * (2 :: nat) ^ (prec + 1 - bitlen n)"
    using b le by (simp flip: power_add)
  also have "\<dots> \<le> n * 2 ^ (prec + 1 - bitlen n)" using b by (intro mult_right_mono) simp_all
  finally have big: "2 ^ prec \<le> n * 2 ^ (prec + 1 - bitlen n)" .
  have e: "nat (- (int (bitlen n) - 1 - int prec)) = prec + 1 - bitlen n" "nat (int (bitlen n) - 1 - int prec) = 0"
    using le by simp_all
  have "scaled n 1 (int (bitlen n) - 1 - int prec) = (n * 2 ^ (prec + 1 - bitlen n), 1)"
    by (simp only: scaled_def e) simp
  then have "fexp prec n 1 = int (bitlen n) - int prec"
    using big unfolding fexp_def bitlen_eval(2) by (simp add: Let_def)
  moreover have "scaled n 1 (int (bitlen n) - int prec) = (n * 2 ^ (prec - bitlen n), 1)"
  proof -
    have "nat (- (int (bitlen n) - int prec)) = prec - bitlen n" "nat (int (bitlen n) - int prec) = 0"
      using le by simp_all
    then show ?thesis by (simp only: scaled_def) simp
  qed
  moreover have "n * 2 ^ (prec - bitlen n) < 2 ^ prec"
  proof -
    have "n * 2 ^ (prec - bitlen n) < 2 ^ bitlen n * 2 ^ (prec - bitlen n)"
      using b by (intro mult_strict_right_mono) simp_all
    also have "\<dots> = 2 ^ prec" using le by (simp flip: power_add)
    finally show ?thesis .
  qed
  ultimately show "round_float s prec n 1 = FFin s prec (n * 2 ^ (prec - bitlen n)) (int (bitlen n) - int prec)"
    using assms(1) by (simp add: round_float_def rne_def Let_def)
  have "two (int (prec - bitlen n)) * two (int (bitlen n) - int prec) = 1"
    using le two_inverse[of "int (bitlen n) - int prec"] by (simp add: of_nat_diff)
  then show "of_nat (n * 2 ^ (prec - bitlen n)) * two (int (bitlen n) - int prec) = of_nat n"
    by (simp add: two_nat mult.assoc)
  show "0 < n * 2 ^ (prec - bitlen n)" using assms(1) by simp
qed

subsection \<open>No quotient of a small amount lies between two floats\<close>

lemma no_tie:
  assumes "odd M" and "0 < N" and "N < M"
  shows "of_nat M * two i \<noteq> of_nat N * ten (- int k)"
proof
  assume eq: "of_nat M * two i = of_nat N * ten (- int k)"
  have "ten (- int k) * ten (int k) = 1" using ten_add[of "- int k" "int k"] by simp
  then have eq2: "of_nat M * two i * 10 ^ k = of_nat N"
    using arg_cong[OF eq, of "\<lambda>x. x * ten (int k)"] by (simp add: ten_nat mult.assoc)
  have "M dvd N"
  proof (cases "0 \<le> i")
    case True
    then have "(of_nat (M * (2 ^ nat i * 10 ^ k)) :: rat) = of_nat N"
      using eq2 by (simp add: two_nonneg_nat mult.assoc)
    then have "M * (2 ^ nat i * 10 ^ k) = N" by (simp only: of_nat_eq_iff)
    then show ?thesis by (metis dvd_triv_left)
  next
    case False
    have "two i * two (- i) = 1" using two_inverse[of i] by (simp add: mult.commute)
    then have "of_nat M * 10 ^ k = of_nat M * 10 ^ k * (two i * two (- i))" by simp
    also have "\<dots> = of_nat M * two i * 10 ^ k * two (- i)" by (simp only: mult_ac)
    also have "\<dots> = of_nat N * two (- i)" by (simp only: eq2)
    also have "two (- i) = 2 ^ nat (- i)" using False by (intro two_nonneg_nat) simp
    finally have "(of_nat (M * 10 ^ k) :: rat) = of_nat (N * 2 ^ nat (- i))" by simp
    then have "M * 10 ^ k = N * 2 ^ nat (- i)" by (simp only: of_nat_eq_iff)
    then have "M dvd N * 2 ^ nat (- i)" by (metis dvd_triv_left)
    moreover have "coprime M (2 ^ nat (- i))" using assms(1) by simp
    ultimately show ?thesis by (simp add: coprime_dvd_mult_left_iff)
  qed
  with assms(2,3) show False using dvd_imp_le by fastforce
qed

lemma decimal_length:
  assumes "0 < (N :: nat)" and "N < 10 ^ 18"
  obtains L where "L \<le> 18" "0 < L" "10 ^ (L - 1) \<le> N" "N < 10 ^ L"
proof -
  define L where "L = (LEAST l. N < 10 ^ l)"
  have "N < 10 ^ L" "L \<le> 18" unfolding L_def using assms(2) by (auto intro: LeastI[of _ 18] Least_le)
  moreover from this assms(1) have "0 < L" by (cases L) auto
  moreover from this have "10 ^ (L - 1) \<le> N"
    using not_less_Least[of "L - 1" "\<lambda>l. N < 10 ^ l"] by (fastforce simp: L_def[symmetric] not_less)
  ultimately show thesis by (intro that)
qed

lemma decimal_range:
  assumes "10 ^ (L - 1) \<le> N" and "N < 10 ^ L" and "0 < L"
  shows "ten (int L - int k - 1) \<le> of_nat N * ten (- int k)" and "of_nat N * ten (- int k) < ten (int L - int k)"
proof -
  have "(of_nat (10 ^ (L - 1)) :: rat) \<le> of_nat N" using assms(1) by (simp only: of_nat_le_iff)
  then have "ten (int (L - 1)) * ten (- int k) \<le> of_nat N * ten (- int k)"
    by (intro mult_right_mono) (simp_all add: ten_nat)
  also have "ten (int (L - 1)) * ten (- int k) = ten (int L - int k - 1)"
    using assms(3) by (simp add: of_nat_diff algebra_simps flip: ten_add)
  finally show "ten (int L - int k - 1) \<le> of_nat N * ten (- int k)" .
  have "(of_nat N :: rat) < of_nat (10 ^ L)" using assms(2) by (simp only: of_nat_less_iff)
  then have "of_nat N * ten (- int k) < ten (int L) * ten (- int k)"
    by (intro mult_strict_right_mono) (simp_all add: ten_nat)
  then show "of_nat N * ten (- int k) < ten (int L - int k)" by (simp flip: ten_add)
qed

lemma multiples_apart:
  assumes "multiple y g" and "multiple x g" and "y < x" and "0 < g"
  shows "y + g \<le> x"
proof -
  obtain c c' :: nat where c: "y = of_nat c * g" "x = of_nat c' * g" using assms(1,2) by (auto simp: multiple_def)
  have "c < c'" using assms(3,4) unfolding c by simp
  then have "(of_nat (c + 1) :: rat) \<le> of_nat c'" by (subst of_nat_le_iff) simp
  from mult_right_mono[OF this, of g] assms(4) show ?thesis by (simp add: c algebra_simps)
qed

text \<open>The only number with at most eighteen digits in the interval of the float nearest to an amount.\<close>

lemma amount_only_one:
  assumes "0 < N" and "N < 10 ^ 18"
    and q: "2 ^ 63 \<le> q" and lo: "of_nat (2 * q - 1) * two (e - 1) \<le> of_nat N * ten (- int k)"
    and hi: "of_nat N * ten (- int k) \<le> of_nat (2 * q + 1) * two (e - 1)"
  shows "\<exists>h. only_one (dec_init q e) (dec_init (2 * q - 1) (e - 1)) (dec_init (2 * q + 1) (e - 1)) (of_nat N * ten (- int k)) h"
proof -
  define X :: rat where "X = of_nat N * ten (- int k)"
  define u where "u = two (e - 1)"
  obtain L where L: "L \<le> 18" "0 < L" "10 ^ (L - 1) \<le> N" "N < 10 ^ L" by (rule decimal_length[OF assms(1,2)])
  define pX where "pX = int L - int k"
  define h where "h = pX - 18"
  have q0: "0 < q" "0 < 2 * q - 1" using q by auto
  have q1: "(of_nat (2 * q - 1) :: rat) = 2 * of_nat q - 1" using q0 by (simp add: of_nat_diff)
  note d = dec_init_normal[OF q0(1), of e] and l = dec_init_normal[OF q0(2), of "e - 1"]
  have up: "normal (dec_init (2 * q + 1) (e - 1))" "dec_val (dec_init (2 * q + 1) (e - 1)) = of_nat (2 * q + 1) * two (e - 1)"
    by (rule dec_init_normal, simp)+
  define D where "D = 2 * of_nat q * u"
  have vals: "dec_val (dec_init q e) = D" "dec_val (dec_init (2 * q - 1) (e - 1)) = D - u"
    "dec_val (dec_init (2 * q + 1) (e - 1)) = D + u"
    unfolding d(2) l(2) up(2) D_def u_def q1 two_step[of e] by (simp_all add: algebra_simps)
  have u0: "0 < u" by (simp add: u_def)
  have small: "N < 2 * q - 1" using assms(2) q by simp
  have "of_nat (2 * q - 1) * two (e - 1) \<noteq> X" unfolding X_def
    by (rule no_tie[OF _ assms(1) small]) (use q0 in simp)
  with lo have lo': "D - u < X" unfolding l(2)[symmetric] vals X_def[symmetric] by simp
  have "of_nat (2 * q + 1) * two (e - 1) \<noteq> X" unfolding X_def
    by (rule no_tie[OF _ assms(1)]) (use small in simp_all)
  with hi have hi': "X < D + u" unfolding up(2)[symmetric] vals X_def[symmetric] by simp
  have X: "ten (pX - 1) \<le> X" "X < ten pX"
    using decimal_range[OF L(3,4,2), of k] unfolding X_def pX_def .
  have p18: "ten pX = 10 ^ 18 * ten h" "ten (pX - 1) = 10 ^ 17 * ten h" "ten (h + 1) = 10 * ten h"
    using ten_add[of 18 h] ten_nat[of 18] ten_add[of 17 h] ten_nat[of 17] ten_add[of h 1] ten_nat[of 1]
    by (simp_all add: h_def)
  have "(of_nat (10 ^ 18 + 1) :: rat) \<le> of_nat q" using q by (subst of_nat_le_iff) simp
  from mult_right_mono[OF this, of "2 * u"] u0 have "2 * 10 ^ 18 * u + 2 * u \<le> D" by (simp add: D_def algebra_simps)
  with lo' X(2) u0 have "10 ^ 18 * (2 * u) < 10 ^ 18 * ten h" unfolding p18 by linarith
  then have width: "2 * u < ten h" by simp
  have mult: "multiple X (ten h)"
    unfolding X_def by (rule multiple_coarser[OF multiple_nat]) (use L(1) in \<open>simp add: h_def pX_def\<close>)
  have unique: "y = X" if y: "multiple y (ten h)" "D - u \<le> y" "y \<le> D + u" for y
  proof (rule linorder_cases[of y X])
    assume "y < X"
    from multiples_apart[OF y(1) mult this ten_pos] y(2) hi' width show ?thesis by linarith
  next
    assume "X < y"
    from multiples_apart[OF mult y(1) this ten_pos] y(3) lo' width show ?thesis by linarith
  qed
  have "h \<le> snd (dec_init q e) - 2"
  proof (rule ccontr)
    assume "\<not> ?thesis"
    then have "ten (snd (dec_init q e)) \<le> ten (h + 1)" by (intro ten_le) simp
    with first_digit(3)[OF d(1)] vals(1) have "D < 10 * ten h" unfolding p18 by simp
    moreover have "100 * ten h \<le> 10 ^ 17 * ten h" by simp
    ultimately show False using hi' width X(1) ten_pos[of h] u0 unfolding p18 by linarith
  qed
  moreover have "D - u < D" "D < D + u" using u0 by simp_all
  ultimately have "only_one (dec_init q e) (dec_init (2 * q - 1) (e - 1)) (dec_init (2 * q + 1) (e - 1)) X h"
    unfolding only_one_def vals by (intro conjI allI impI d(1) l(1) up(1) lo' hi' mult unique)
  then show ?thesis by (auto simp: X_def)
qed

subsection \<open>The text of a decimal\<close>

text \<open>The text of \<open>N / 10 ^ k\<close>, by integer arithmetic: whole part, and the digits after the point without zeros at the end.\<close>

definition fraction_digits :: "nat \<Rightarrow> nat \<Rightarrow> nat list" where
  "fraction_digits k N = dec_trim (map (\<lambda>j. N div 10 ^ (k - 1 - j) mod 10) [0..<k])"

definition exact_text :: "nat \<Rightarrow> nat \<Rightarrow> string" where
  "exact_text k N = show_nat (N div 10 ^ k) @
     (if fraction_digits k N = [] then [] else ''.'' @ map digit_char (fraction_digits k N))"

lemma prefix_val_floor:
  assumes "normal r" and "dec_val r = of_nat N * ten (- int k)" and "int i = snd r + int j"
  shows "prefix_val r i = N * 10 ^ j div 10 ^ k"
proof -
  have t: "ten (snd r - int i) = ten (- int j)" using assms(3) by simp
  have scale: "ten (- int j) * (10 ^ j * 10 ^ k) = 10 ^ k" "ten (- int k) * (10 ^ j * 10 ^ k) = 10 ^ j"
    using ten_add[of "- int j" "int j"] ten_add[of "- int k" "int k"] by (simp_all add: ten_nat mult_ac)
  have pos: "(0 :: rat) \<le> 10 ^ j * 10 ^ k" "(0 :: rat) < 10 ^ j * 10 ^ k" by simp_all
  note b = part_bounds[OF assms(1), of i, unfolded part_def t assms(2)]
  have "of_nat (prefix_val r i) * ten (- int j) * (10 ^ j * 10 ^ k) \<le> of_nat N * ten (- int k) * (10 ^ j * 10 ^ k)"
    using b(1) pos(1) by (rule mult_right_mono)
  then have "of_nat (prefix_val r i * 10 ^ k) \<le> (of_nat (N * 10 ^ j) :: rat)"
    unfolding mult.assoc scale by simp
  then have 1: "prefix_val r i * 10 ^ k \<le> N * 10 ^ j" by (simp only: of_nat_le_iff)
  have "of_nat N * ten (- int k) * (10 ^ j * 10 ^ k) < of_nat (prefix_val r i + 1) * ten (- int j) * (10 ^ j * 10 ^ k)"
    using b(2) pos(2) by (intro mult_strict_right_mono) (simp_all add: algebra_simps)
  then have "(of_nat (N * 10 ^ j) :: rat) < of_nat ((prefix_val r i + 1) * 10 ^ k)"
    unfolding mult.assoc scale by (simp add: algebra_simps)
  then have 2: "N * 10 ^ j < (prefix_val r i + 1) * 10 ^ k" by (simp only: of_nat_less_iff)
  show ?thesis using 1 2 by (intro div_nat_eqI[symmetric]) (simp_all add: mult.commute)
qed

lemma show_nat_prefix:
  assumes "normal r"
  shows "show_nat (prefix_val r (Suc i)) = map (\<lambda>j. digit_char (dec_at r (int j))) [0..<Suc i]"
proof (induction i)
  case 0
  then show ?case using dec_at_less[OF assms, of 0] by (simp add: show_nat.simps)
next
  case (Suc i)
  have "0 < part r (Suc i)" using first_digit(1)[OF assms, of i] ten_pos[of "snd r - 1"] by linarith
  then have "0 < prefix_val r (Suc i)" by (simp add: part_def zero_less_mult_iff del: prefix_val.simps)
  moreover have step: "prefix_val r (Suc (Suc i)) = 10 * prefix_val r (Suc i) + dec_at r (int (Suc i))"
    by (rule prefix_val.simps(2))
  ultimately have "\<not> prefix_val r (Suc (Suc i)) < 10" by linarith
  moreover have "prefix_val r (Suc (Suc i)) div 10 = prefix_val r (Suc i)"
    "prefix_val r (Suc (Suc i)) mod 10 = dec_at r (int (Suc i))"
    using dec_at_less[OF assms, of "int (Suc i)"] unfolding step by (simp_all del: prefix_val.simps)
  ultimately have "show_nat (prefix_val r (Suc (Suc i))) =
      show_nat (prefix_val r (Suc i)) @ [digit_char (dec_at r (int (Suc i)))]"
    by (subst show_nat.simps) (simp only: if_False)
  then show ?case unfolding Suc by simp
qed

lemma whole_digits:
  assumes "normal r" and "dec_val r = of_nat N * ten (- int k)"
  shows "(if snd r > 0 then map (\<lambda>i. digit_char (dec_at r (int i))) [0..<nat (snd r)] else ''0'') = show_nat (N div 10 ^ k)"
proof (cases "snd r > 0")
  case True
  then obtain i where i: "nat (snd r) = Suc i" by (cases "nat (snd r)") auto
  then have "int (Suc i) = snd r + int 0" using True by simp
  from prefix_val_floor[OF assms this] show ?thesis using show_nat_prefix[OF assms(1), of i] True i by simp
next
  case False
  then have "of_nat N * ten (- int k) < 1"
    using first_digit(3)[OF assms(1)] ten_le[of "snd r" 0] assms(2) by simp
  then have "of_nat N * ten (- int k) * ten (int k) < 1 * ten (int k)" by (intro mult_strict_right_mono) simp_all
  moreover have "of_nat N * ten (- int k) * ten (int k) = of_nat N" by (simp add: mult.assoc flip: ten_add)
  ultimately have "of_nat N < ten (int k)" by simp
  then have "(of_nat N :: rat) < of_nat (10 ^ k)" by (simp add: ten_nat)
  then have "N < 10 ^ k" by (simp only: of_nat_less_iff)
  with False show ?thesis by (simp add: show_nat.simps digit_char_def)
qed

lemma fraction_digit:
  assumes "normal r" and "dec_val r = of_nat N * ten (- int k)"
  shows "dec_at r (snd r + int j) = N * 10 ^ Suc j div 10 ^ k mod 10"
proof (cases "0 \<le> snd r + int j")
  case True
  define i where "i = nat (snd r + int j)"
  have i: "int (Suc i) = snd r + int (Suc j)" using True by (simp add: i_def)
  have "prefix_val r (Suc i) mod 10 = dec_at r (int i)"
    using dec_at_less[OF assms(1), of "int i"] by simp
  then show ?thesis using True prefix_val_floor[OF assms i] by (simp add: i_def del: prefix_val.simps)
next
  case False
  have "of_nat N * ten (- int k) < ten (- int (Suc j))"
    using first_digit(3)[OF assms(1)] ten_le[of "snd r" "- int (Suc j)"] assms(2) False by simp
  then have "of_nat N * ten (- int k) * (ten (int (Suc j)) * ten (int k)) < ten (- int (Suc j)) * (ten (int (Suc j)) * ten (int k))"
    by (intro mult_strict_right_mono) simp_all
  also have "\<dots> = ten (int k)" by (simp flip: two_add ten_add)
  also have "of_nat N * ten (- int k) * (ten (int (Suc j)) * ten (int k)) = of_nat N * ten (int (Suc j))"
    by (simp add: mult.assoc flip: ten_add)
  finally have "of_nat (N * 10 ^ Suc j) < (of_nat (10 ^ k) :: rat)" by (simp only: ten_nat of_nat_mult of_nat_power of_nat_numeral)
  then have "N * 10 ^ Suc j < 10 ^ k" by (simp only: of_nat_less_iff)
  with False show ?thesis by (simp add: dec_at_def)
qed

lemma dec_trim_unique:
  "ys = [] \<or> last ys \<noteq> 0 \<Longrightarrow> dec_trim (ys @ replicate n 0) = ys"
proof (induction n)
  case 0
  then show ?case by (cases ys rule: rev_cases) (simp_all add: dec_trim_append)
next
  case (Suc n)
  have eq: "ys @ replicate (Suc n) 0 = (ys @ replicate n 0) @ [0]" by (simp add: replicate_append_same)
  show ?case unfolding eq using Suc by (simp add: dec_trim_append del: append_assoc)
qed

lemma shift_div:
  "j < k \<Longrightarrow> N * 10 ^ Suc j div 10 ^ k = N div (10 :: nat) ^ (k - 1 - j)"
  "k \<le> j \<Longrightarrow> N * 10 ^ Suc j div 10 ^ k mod 10 = (0 :: nat)"
proof -
  assume "j < k"
  define i where "i = k - 1 - j"
  have k: "k = i + Suc j" using \<open>j < k\<close> by (simp add: i_def)
  have "N * 10 ^ Suc j div 10 ^ (i + Suc j) = N div (10 :: nat) ^ i"
    by (simp only: power_add) (rule div_mult_mult2, simp)
  then have "N * 10 ^ Suc j div 10 ^ k = N div (10 :: nat) ^ i" by (subst k)
  then show "N * 10 ^ Suc j div 10 ^ k = N div (10 :: nat) ^ (k - 1 - j)" by (simp only: i_def)
next
  assume "k \<le> j"
  then obtain i where j: "j = k + i" by (metis le_iff_add)
  have "N * 10 ^ Suc (k + i) div 10 ^ k = N * 10 ^ i * (10 :: nat)" by (simp add: power_add)
  then show "N * 10 ^ Suc j div 10 ^ k mod 10 = (0 :: nat)" unfolding j by (simp only: mod_mult_self2_is_0)
qed

lemma map_cut:
  assumes "\<And>j. n \<le> j \<Longrightarrow> g j = (0 :: nat)" and "n \<le> k"
  shows "map g [0..<k] = map g [0..<n] @ replicate (k - n) 0"
  using assms(2)
proof (induction k)
  case (Suc k)
  show ?case
  proof (cases "n = Suc k")
    case False
    with Suc.prems have "n \<le> k" by simp
    with Suc.IH assms(1)[OF this] show ?thesis by (simp add: Suc_diff_le flip: replicate_append_same)
  qed simp
qed simp

lemma fraction_part:
  assumes "normal r" and "dec_val r = of_nat N * ten (- int k)"
  shows "map (\<lambda>j. dec_at r (snd r + int j)) [0..<frac_len r] = fraction_digits k N"
proof -
  let ?g = "\<lambda>j. dec_at r (snd r + int j)"
  have g: "?g j = N div 10 ^ (k - 1 - j) mod 10" if "j < k" for j
    by (simp only: fraction_digit[OF assms] shift_div(1)[OF that])
  have zero: "?g j = 0" if "k \<le> j" for j
    by (simp only: fraction_digit[OF assms] shift_div(2)[OF that])
  have ends: "?g (frac_len r - 1) \<noteq> 0" if "0 < frac_len r"
  proof -
    have l: "int (frac_len r) = int (length (fst r)) - snd r" using that by (simp add: frac_len_def)
    have ne: "fst r \<noteq> []" using assms(1) by (simp add: normal_def)
    have "snd r + int (frac_len r - 1) = int (length (fst r) - 1)"
      using l that ne by (simp add: of_nat_diff Suc_leI)
    moreover have "dec_at r (int (length (fst r) - 1)) = last (fst r)"
      using ne by (simp add: dec_at_def last_conv_nth)
    ultimately show ?thesis using assms(1) by (simp add: normal_def)
  qed
  have after: "?g j = 0" if "frac_len r \<le> j" for j
  proof -
    have "int (length (fst r)) - snd r \<le> int j" using that by (simp add: frac_len_def nat_le_iff)
    then show ?thesis by (simp add: dec_at_def)
  qed
  have le: "frac_len r \<le> k"
  proof (rule ccontr)
    assume "\<not> ?thesis"
    then have f: "0 < frac_len r" "k \<le> frac_len r - 1" by simp_all
    from ends[OF f(1)] zero[OF f(2)] show False by (rule notE)
  qed
  have "map (\<lambda>j. N div 10 ^ (k - 1 - j) mod 10) [0..<k] = map ?g [0..<k]"
    by (rule map_cong[OF refl]) (simp only: g set_upt atLeastLessThan_iff)
  also have "\<dots> = map ?g [0..<frac_len r] @ replicate (k - frac_len r) 0" by (rule map_cut[OF after le])
  finally have m: "map (\<lambda>j. N div 10 ^ (k - 1 - j) mod 10) [0..<k] = map ?g [0..<frac_len r] @ replicate (k - frac_len r) 0" .
  have "map ?g [0..<frac_len r] = [] \<or> last (map ?g [0..<frac_len r]) \<noteq> 0"
  proof (cases "frac_len r")
    case (Suc n)
    then have "last (map ?g [0..<frac_len r]) = ?g (frac_len r - 1)" by simp
    with ends Suc show ?thesis by (simp only: zero_less_Suc) blast
  qed simp
  from dec_trim_unique[OF this] show ?thesis unfolding fraction_digits_def m by (rule sym)
qed

lemma fmtF_exact:
  assumes "normal r" and "dec_val r = of_nat N * ten (- int k)"
  shows "fmtF r (frac_len r) = exact_text k N"
proof -
  note f = fraction_part[OF assms]
  have "map (\<lambda>i. digit_char (dec_at r (snd r + int i))) [0..<frac_len r] = map digit_char (fraction_digits k N)"
    unfolding f[symmetric] by simp
  moreover have "fraction_digits k N = [] \<longleftrightarrow> frac_len r = 0" unfolding f[symmetric] by simp
  ultimately show ?thesis unfolding fmtF_def exact_text_def whole_digits[OF assms] by simp
qed

subsection \<open>The text of an amount\<close>

lemma quotient_text:
  assumes "0 < N" and "N < 10 ^ 18" and "0 < num" and "0 < den"
    and "(of_nat num / of_nat den :: rat) = of_nat N * ten (- int k)"
  shows "Float_Text (round_float False 64 num den) = exact_text k N"
proof -
  have prec: "1 < (64 :: nat)" by simp
  obtain q e where q: "round_float False 64 num den = FFin False 64 q e" "2 ^ (64 - 1) \<le> q" "q < 2 ^ 64"
    "of_nat (2 * q - 1) * two (e - 1) \<le> of_nat N * ten (- int k)"
    "of_nat N * ten (- int k) \<le> of_nat (2 * q + 1) * two (e - 1)"
    by (rule round_float_near[OF assms(3,4) prec, of False, unfolded assms(5)])
  have big: "2 ^ 63 \<le> q" using q(2) by simp
  obtain h where o: "only_one (dec_init q e) (dec_init (2 * q - 1) (e - 1)) (dec_init (2 * q + 1) (e - 1)) (of_nat N * ten (- int k)) h"
    using amount_only_one[OF assms(1,2) big q(4,5)] by blast
  have "fst (dec_init q e) \<noteq> []" using only_oneD(1)[OF o] by (simp add: normal_def)
  then have "shortest_decimal q e = shortest_loop (dec_init q e) (dec_init (2 * q - 1) (e - 1)) (dec_init (2 * q + 1) (e - 1))
      (even q) 0 (fst (dec_init q e))"
    by (simp add: shortest_decimal_def roundShortest_def)
  with shortest_loop_only[OF o, of "even q"] have "dec_val (shortest_decimal q e) = of_nat N * ten (- int k)" "normal (shortest_decimal q e)"
    by simp_all
  from fmtF_exact[OF this(2,1)] show ?thesis by (simp add: q(1) Let_def)
qed

lemma initExpDivider_exact:
  assumes "k \<le> 18"
  shows "\<exists>m e. initExpDivider (int k) = FFin False 53 m e \<and> 0 < m \<and> of_nat m * two e = ten (int k)"
proof -
  have "(10 :: int) ^ k \<le> 10 ^ 18" using assms by (intro power_increasing) simp_all
  moreover have "0 \<le> (10 :: int) ^ k" "- (2 ^ 63) \<le> (0 :: int)" "(10 :: int) ^ 18 < 2 ^ 63" by simp_all
  ultimately have "- (2 ^ 63) \<le> (10 :: int) ^ k" "(10 :: int) ^ k < 2 ^ 63" by linarith+
  then have "signed_take_bit 63 ((10 :: int) ^ k) = 10 ^ k" by (rule signed_take_bit_int_eq_self)
  then have "sint (word_of_int ((10 :: int) ^ k) :: u64) = 10 ^ k" by (subst sint_sbintrunc') simp
  then have div: "initExpDivider (int k) = round_float False 53 (10 ^ k) 1"
    unfolding initExpDivider_def nat_int Float_of_int64_def by (simp add: nat_power_eq)
  show ?thesis
  proof (cases "k \<le> 15")
    case True
    have "(10 :: nat) ^ k \<le> 10 ^ 15" using True by (intro power_increasing) simp_all
    then have "(10 :: nat) ^ k < 2 ^ 53" by simp
    with round_float_exact(1)[of "10 ^ k" 53 False] round_float_exact(2,3)[of "10 ^ k" 53] div show ?thesis
      by (auto simp: ten_nat)
  next
    case False
    with assms have "k = 16 \<or> k = 17 \<or> k = 18" by auto
    then show ?thesis
    proof (elim disjE)
      assume k: "k = 16"
      have "initExpDivider (int k) = FFin False 53 5000000000000000 1" unfolding div unfolding k by (simp add: float_eval)
      then show ?thesis by (auto simp: k two_def ten_def)
    next
      assume k: "k = 17"
      have "initExpDivider (int k) = FFin False 53 6250000000000000 4" unfolding div unfolding k by (simp add: float_eval)
      then show ?thesis by (auto simp: k two_def ten_def)
    next
      assume k: "k = 18"
      have "initExpDivider (int k) = FFin False 53 7812500000000000 7" unfolding div unfolding k by (simp add: float_eval)
      then show ?thesis by (auto simp: k two_def ten_def)
    qed
  qed
qed

lemma show_nat_int: "show_int (int N) = show_nat N"
  by (simp add: show_int_def)

lemma parse_show_nat: "parse_int 10 (show_nat N) = Some (int N)"
  using parse_int_show_int[of "int N"] by (simp add: show_nat_int)

lemma amount_exact:
  assumes "N < 10 ^ 18" and "k \<le> 18"
  obtains q where "countCurrencyAmount pr (show_nat N) (initExpDivider (int k)) = Ret q" "Float_Text q = exact_text k N"
proof (cases "N = 0")
  case True
  obtain m e where d: "initExpDivider (int k) = FFin False 53 m e" using initExpDivider_exact[OF assms(2)] by blast
  have "show_nat N = ''0''" by (simp add: True show_nat.simps digit_char_def)
  then have "Float_SetString (show_nat N) = Some (FZero False)" by (simp add: Float_SetString_def parse_eval)
  then have c: "countCurrencyAmount pr (show_nat N) (initExpDivider (int k)) = Ret (FZero False)"
    by (simp add: countCurrencyAmount_def d)
  have z: "dec_trim (map (\<lambda>j. 0) [0..<k]) = []"
    using dec_trim_unique[of "[]" k] by (simp add: map_replicate_const)
  show thesis by (rule that[OF c]) (simp add: True exact_text_def fraction_digits_def z show_nat.simps digit_char_def)
next
  case False
  then have N: "0 < N" by simp
  have fit: "N < 2 ^ 64" using assms(1) by simp
  obtain m e where d: "initExpDivider (int k) = FFin False 53 m e" "0 < m" "of_nat m * two e = ten (int k)"
    using initExpDivider_exact[OF assms(2)] by blast
  note x = round_float_exact(1)[OF N fit, of False] round_float_exact(2,3)[OF N fit]
  obtain m' e' where a: "round_float False 64 N 1 = FFin False 64 m' e'" "of_nat m' * two e' = of_nat N" "0 < m'"
    using x by blast
  have "Float_SetString (show_nat N) = Some (FFin False 64 m' e')"
    using N by (simp add: Float_SetString_def parse_show_nat a(1)[simplified One_nat_def])
  then have c: "countCurrencyAmount pr (show_nat N) (initExpDivider (int k)) =
      Ret (round_float False 64 (m' * 2 ^ nat (e' - e)) (m * 2 ^ nat (- (e' - e))))"
    by (simp add: countCurrencyAmount_def d(1) Let_def)
  have "scaled m' m (- (e' - e)) = (m' * 2 ^ nat (e' - e), m * 2 ^ nat (- (e' - e)))" by (simp add: scaled_def)
  note s = scaled_quotient[OF d(2) this]
  have "(of_nat m' / of_nat m) * two (e' - e) = (of_nat m' * two e') / (of_nat m * two e)"
  proof -
    have "two e' = two (e' - e) * two e" "two e \<noteq> 0"
      using two_add[of "e' - e" e] less_imp_neq[OF two_pos[of e]] by (simp, metis)
    then show ?thesis by simp
  qed
  also have "\<dots> = of_nat N / ten (int k)" by (simp only: a(2) d(3))
  also have "\<dots> = of_nat N * ten (- int k)"
    using ten_add[of "- int k" "int k"] less_imp_neq[OF ten_pos[of "int k"]] by (simp add: field_simps)
  finally have v: "(of_nat (m' * 2 ^ nat (e' - e)) / of_nat (m * 2 ^ nat (- (e' - e))) :: rat) = of_nat N * ten (- int k)"
    using s(2) by (simp only: minus_minus)
  have pos: "0 < m' * 2 ^ nat (e' - e)" "0 < m * 2 ^ nat (- (e' - e))" using a(3) d(2) by simp_all
  show thesis by (rule that[OF c quotient_text[OF N assms(1) pos v]])
qed

text \<open>An amount as the mappers report it.\<close>

definition exact_amount :: "nat \<Rightarrow> string \<Rightarrow> nat \<Rightarrow> TransactionAmount" where
  "exact_amount k cur N = \<lparr>ta_Text = exact_text k N @ cur, ta_Currency = cur, ta_Numeric = Some (int N),
     ta_Exp = word_of_int (int k)\<rparr>"

lemma getAmount_exact:
  assumes "N < 10 ^ 18" and "k \<le> 18"
  shows "getAmount (show_nat N) (int k) cur (initExpDivider (int k)) = Ret (Some (exact_amount k cur N))"
proof -
  obtain q where "countCurrencyAmount (int k) (show_nat N) (initExpDivider (int k)) = Ret q" "Float_Text q = exact_text k N"
    by (rule amount_exact[OF assms])
  then show ?thesis by (simp add: getAmount_def BigInt_SetString_def parse_show_nat exact_amount_def)
qed

lemma getTransactionFee_exact:
  assumes "f + t < 10 ^ 18" and "k \<le> 18"
  shows "getTransactionFee (NewTransactionMapper (int k) chain cur) (show_nat f) (show_nat t) =
    Ret (if f + t = 0 then [] else [exact_amount k cur (f + t)])"
proof -
  obtain q where q: "countCurrencyAmount (int k) (show_nat (f + t)) (initExpDivider (int k)) = Ret q" "Float_Text q = exact_text k (f + t)"
    by (rule amount_exact[OF assms])
  have "fee_part (show_nat f) = Some (int f)" "fee_part (show_nat t) = Some (int t)"
    by (simp_all add: fee_part_def parse_show_nat)
  moreover obtain m e where "tm_div (NewTransactionMapper (int k) chain cur) = FFin False 53 m e"
    using initExpDivider_exact[OF assms(2)] by (auto simp: NewTransactionMapper_def)
  ultimately obtain q' where q': "countCurrencyAmount (int k) (show_int (int f + int t)) (initExpDivider (int k)) = Ret q'"
    and r: "getTransactionFee (NewTransactionMapper (int k) chain cur) (show_nat f) (show_nat t) =
      Ret (if int f + int t = 0 then [] else [\<lparr>ta_Text = Float_Text q' @ cur, ta_Currency = cur,
        ta_Numeric = Some (int f + int t), ta_Exp = word_of_int (int k)\<rparr>])"
    using getTransactionFee_cases[of "show_nat f" "int f" "show_nat t" "int t" "NewTransactionMapper (int k) chain cur"]
    by (fastforce simp: NewTransactionMapper_def)
  have "show_int (int f + int t) = show_nat (f + t)" using show_nat_int[of "f + t"] by simp
  with q q'(1) have "q' = q" by simp
  with r q(2) show ?thesis by (simp add: exact_amount_def)
qed

lemma map_balance_exact:
  assumes "N < 10 ^ 18" and "k \<le> 18" and "height \<noteq> 0"
  shows "map_balance (NewAccountBalanceMapper (int k) cur) (Some \<lparr>ar_Account = Some \<lparr>acc_Free = show_nat N\<rparr>\<rparr>) height =
    Ret \<lparr>gab_Height = height, gab_Balances = (if N = 0 then [] else [exact_amount k cur N])\<rparr>"
proof (cases "N = 0")
  case True
  have "show_nat 0 = ''0''" by (simp add: show_nat.simps digit_char_def)
  with True assms(3) show ?thesis by (simp add: map_balance_def)
next
  case False
  have "show_nat N \<noteq> ''0''"
  proof
    assume "show_nat N = ''0''"
    then have "show_nat N = show_nat 0" by (simp add: show_nat.simps[of 0] digit_char_def)
    with False show False using show_nat_inj by blast
  qed
  with False assms(3) getAmount_exact[OF assms(1,2)] show ?thesis
    by (simp add: map_balance_def NewAccountBalanceMapper_def Let_def)
qed

text \<open>
  C4: The text of an amount is exact: for a currency with at most eighteen decimals and an amount below
  \<open>10 ^ 18\<close> of its smallest unit, the text that the mappers compute by a 64-bit float and its shortest decimal
  is the amount with the decimal point moved, by integer arithmetic, without zeros at its end; in the
  amounts of events, in fees, and in balances.
\<close>

theorem amounts_exact:
  assumes "N < 10 ^ 18" and "k \<le> 18" and "f + t < 10 ^ 18" and "height \<noteq> 0"
    and "A = (\<lambda>N. \<lparr>ta_Text = exact_text k N @ cur, ta_Currency = cur, ta_Numeric = Some (int N), ta_Exp = word_of_int (int k)\<rparr>)"
  shows "getAmount (show_nat N) (int k) cur (initExpDivider (int k)) = Ret (Some (A N)) \<and>
    getTransactionFee (NewTransactionMapper (int k) chain cur) (show_nat f) (show_nat t) =
      Ret (if f + t = 0 then [] else [A (f + t)]) \<and>
    map_balance (NewAccountBalanceMapper (int k) cur) (Some \<lparr>ar_Account = Some \<lparr>acc_Free = show_nat N\<rparr>\<rparr>) height =
      Ret \<lparr>gab_Height = height, gab_Balances = (if N = 0 then [] else [A N])\<rparr>"
proof -
  have A: "A = exact_amount k cur" unfolding assms(5) exact_amount_def by (rule refl)
  show ?thesis unfolding A
    by (intro conjI getAmount_exact[OF assms(1,2)] getTransactionFee_exact[OF assms(3,2)] map_balance_exact[OF assms(1,2,4)])
qed

theorem amounts_exact_witness:
  "getAmount (show_nat 1234567890123) 10 ''DOT'' (initExpDivider 10) =
    Ret (Some \<lparr>ta_Text = ''123.4567890123DOT'', ta_Currency = ''DOT'', ta_Numeric = Some 1234567890123, ta_Exp = 10\<rparr>)"
proof -
  have "exact_text 10 1234567890123 = ''123.4567890123''"
    by (simp add: exact_text_def fraction_digits_def dec_trim_def upt_rec show_nat.simps digit_char_def)
  with amounts_exact[OF _ _ _ _ refl, of 1234567890123 10 0 0 1 "''DOT''"] show ?thesis by simp
qed

text \<open>
  Above the precision texts are rounded: amounts of \<open>10 ^ 20\<close> units and of one unit more have the same text,
  though the numbers beside them differ.
\<close>

theorem large_amounts_alike:
  "countCurrencyAmount 10 (show_nat 100000000000000000001) dv = countCurrencyAmount 10 (show_nat 100000000000000000000) dv \<and>
   exact_text 10 100000000000000000001 \<noteq> exact_text 10 100000000000000000000"
proof -
  have "parse_int 10 (show_nat 100000000000000000001) = Some 100000000000000000001"
    "parse_int 10 (show_nat 100000000000000000000) = Some 100000000000000000000"
    using parse_show_nat[of 100000000000000000001] parse_show_nat[of 100000000000000000000] by simp_all
  then have f: "Float_SetString (show_nat 100000000000000000001) = Some (round_float False 64 100000000000000000001 1)"
    "Float_SetString (show_nat 100000000000000000000) = Some (round_float False 64 100000000000000000000 1)"
    by (simp_all add: Float_SetString_def)
  have "round_float False 64 100000000000000000001 1 = round_float False 64 100000000000000000000 1"
    by (simp add: float_eval)
  moreover have "exact_text 10 100000000000000000001 \<noteq> exact_text 10 100000000000000000000"
    by (simp add: exact_text_def fraction_digits_def dec_trim_def upt_rec show_nat.simps digit_char_def)
  ultimately show ?thesis by (simp add: countCurrencyAmount_def f)
qed

end
