(* ===== verification/Ws_Reset.thy ===== *)
theory Ws_Reset
  imports Ws_Conn
begin

section \<open>Contexts of the connections and their reset (api/api.go)\<close>

text \<open>
  \<open>Run\<close> gives every attempt of \<open>run\<close> a context of its own and keeps its cancel function under
  the node's address in \<open>resetConnections\<close>; when an attempt has ended it cancels the context it
  finds there and puts a new one in its place. The health check calls every cancel function of
  the map after ten bad answers. Here the connection of \<open>Ws_Conn\<close> is put beside these contexts:
  a context is a number, cancelling is membership in a set, and \<open>rs_cctx\<close> is the variable \<open>cctx\<close>
  of the goroutine \<open>Run\<close> of an address, the context its current attempt runs under. One \<open>Run\<close> is
  started per address.
\<close>

record Conn_ctx =
  rs_conn :: Conn
  rs_resetConnections :: "string \<rightharpoonup> nat"
  rs_cctx :: "string \<rightharpoonup> nat"
  rs_made :: nat
  rs_cancelled :: "nat set"

definition NewConn_ctx :: Conn_ctx where
  "NewConn_ctx = \<lparr>rs_conn = NewConn, rs_resetConnections = Map.empty, rs_cctx = Map.empty,
     rs_made = 0, rs_cancelled = {}\<rparr>"

text \<open>\<open>cctx, close = context.WithCancel(ctx)\<close>, \<open>resetConnections[addr] = close\<close>.\<close>

definition with_cancel :: "string \<Rightarrow> Conn_ctx \<Rightarrow> Conn_ctx" where
  "with_cancel addr x =
     x\<lparr>rs_cctx := (rs_cctx x)(addr \<mapsto> rs_made x),
       rs_resetConnections := (rs_resetConnections x)(addr \<mapsto> rs_made x),
       rs_made := rs_made x + 1\<rparr>"

definition cancel :: "nat \<Rightarrow> Conn_ctx \<Rightarrow> Conn_ctx" where
  "cancel c x = x\<lparr>rs_cancelled := insert c (rs_cancelled x)\<rparr>"

text \<open>The start of \<open>Run\<close>, up to the first \<open>go conn.run\<close>.\<close>

definition Run_start :: "string \<Rightarrow> Conn_ctx \<Rightarrow> Conn_ctx" where
  "Run_start addr x =
     (let x = with_cancel addr x in x\<lparr>rs_conn := set_run addr new_run (rs_conn x)\<rparr>)"

text \<open>
  The case \<open><-f\<close> of \<open>Run\<close>: the status, the old context, a new one, and after the pause the next
  attempt. The pause (\<open>tryM\<close>) is part of the step: a reset in it is one at the start of the next
  attempt, before it has dialled.
\<close>

definition Run_reconnect :: "string \<Rightarrow> run \<Rightarrow> Conn_ctx \<Rightarrow> Conn_ctx" where
  "Run_reconnect addr rn x =
     (let x = x\<lparr>rs_conn := go_offline addr (rs_conn x)\<rparr>;
          x = (case rs_resetConnections x addr of Some reset \<Rightarrow> cancel reset x | None \<Rightarrow> x);
          x = with_cancel addr x
      in x\<lparr>rs_conn := set_run addr (rn\<lparr>rn_phase := Dialing, rn_retry := rn_retry rn + 1\<rparr>)
             (rs_conn x)\<rparr>)"

text \<open>
  The loop of the health check over \<open>resetConnections\<close>; \<open>addrs\<close> is the order in which Go visits
  the map.
\<close>

definition reset_all :: "string list \<Rightarrow> Conn_ctx \<Rightarrow> Conn_ctx" where
  "reset_all addrs x =
     fold (\<lambda>addr x. case rs_resetConnections x addr of Some canc \<Rightarrow> cancel canc x | None \<Rightarrow> x)
       addrs x"

text \<open>\<open>ctx.Done()\<close> of the current attempt of an address.\<close>

definition ctx_done :: "string \<Rightarrow> Conn_ctx \<Rightarrow> bool" where
  "ctx_done addr x = (case rs_cctx x addr of Some c \<Rightarrow> c \<in> rs_cancelled x | None \<Rightarrow> False)"

text \<open>
  The steps: those of \<open>ws_step\<close> that neither start nor restart an attempt leave the contexts
  alone.
\<close>

definition goes_on :: "Conn \<Rightarrow> Conn \<Rightarrow> bool" where
  "goes_on s s' \<longleftrightarrow> dom (cn_runs s') = dom (cn_runs s) \<and>
     (\<forall>addr rn rn'. cn_runs s addr = Some rn \<longrightarrow> cn_runs s' addr = Some rn' \<longrightarrow>
        rn_phase rn = Stopped \<longrightarrow> rn_phase rn' = Stopped)"

inductive rs_step :: "(JsonRPCRequest \<Rightarrow> goerror + string) \<Rightarrow> (string \<Rightarrow> goerror + JsonRPCResponse) \<Rightarrow>
    int \<Rightarrow> Conn_ctx \<Rightarrow> Conn_ctx \<Rightarrow> bool"
  for encode decode timeout where
  start: "cn_runs (rs_conn x) addr = None \<Longrightarrow> rs_step encode decode timeout x (Run_start addr x)"
| reconnect: "cn_runs (rs_conn x) addr = Some rn \<Longrightarrow> rn_phase rn = Stopped \<Longrightarrow>
    rs_step encode decode timeout x (Run_reconnect addr rn x)"
| reset: "set addrs = dom (rs_resetConnections x) \<Longrightarrow>
    rs_step encode decode timeout x (reset_all addrs x)"
| inside: "ws_step encode decode timeout (rs_conn x) s' \<Longrightarrow> goes_on (rs_conn x) s' \<Longrightarrow>
    rs_step encode decode timeout x (x\<lparr>rs_conn := s'\<rparr>)"

abbreviation rs_reach :: "(JsonRPCRequest \<Rightarrow> goerror + string) \<Rightarrow>
    (string \<Rightarrow> goerror + JsonRPCResponse) \<Rightarrow> int \<Rightarrow> Conn_ctx \<Rightarrow> bool" where
  "rs_reach encode decode timeout \<equiv> (rs_step encode decode timeout)\<^sup>*\<^sup>* NewConn_ctx"

subsection \<open>The contexts leave the connection as it is\<close>

lemma rs_conn_cancel: "rs_conn (cancel c x) = rs_conn x"
  by (simp add: cancel_def)

lemma rs_conn_with_cancel: "rs_conn (with_cancel addr x) = rs_conn x"
  by (simp add: with_cancel_def)

lemma offline_set_run: "go_offline addr (set_run addr rn s) = set_run addr rn (go_offline addr s)"
  by (simp add: go_offline_def set_run_def)

lemma reset_all_fields:
  "rs_conn (reset_all addrs x) = rs_conn x \<and>
   rs_resetConnections (reset_all addrs x) = rs_resetConnections x \<and>
   rs_cctx (reset_all addrs x) = rs_cctx x \<and> rs_made (reset_all addrs x) = rs_made x \<and>
   rs_cancelled (reset_all addrs x) =
     rs_cancelled x \<union> {c. \<exists>addr \<in> set addrs. rs_resetConnections x addr = Some c}"
  unfolding reset_all_def
  by (induction addrs arbitrary: x) (auto simp: cancel_def split: option.splits)

text \<open>Forgetting the contexts, every step is one of the connection, or leaves it unchanged.\<close>

lemma rs_step_refines: "rs_step encode decode timeout x y \<Longrightarrow>
    (ws_step encode decode timeout)\<^sup>=\<^sup>= (rs_conn x) (rs_conn y)"
proof (induction rule: rs_step.induct)
  case (start x addr)
  then have "ws_step encode decode timeout (rs_conn x) (set_run addr new_run (rs_conn x))"
    by (rule ws_step.start)
  then show ?case by (simp add: Run_start_def Let_def rs_conn_with_cancel)
next
  case (reconnect x addr rn)
  from ws_step.restart[OF reconnect, of encode decode timeout] show ?case
    by (simp add: Run_reconnect_def Let_def rs_conn_with_cancel rs_conn_cancel offline_set_run
        split: option.split)
qed (simp_all add: reset_all_fields)

lemma rs_reach_refines: "rs_reach encode decode timeout x \<Longrightarrow> ws_reach encode decode timeout (rs_conn x)"
proof (induction rule: rtranclp_induct)
  case base
  then show ?case by (simp add: NewConn_ctx_def ws_reach.init)
next
  case (step y z)
  from rs_step_refines[OF step.hyps(2)] step.IH show ?case by (auto intro: ws_reach.more)
qed

subsection \<open>What the map of cancel functions knows\<close>

text \<open>
  The context of every attempt is the one in the map, every address that was started has one, no
  two addresses share one, and every context made before and replaced is cancelled.
\<close>

definition rs_inv :: "Conn_ctx \<Rightarrow> bool" where
  "rs_inv x \<longleftrightarrow> rs_resetConnections x = rs_cctx x \<and> dom (rs_cctx x) = dom (cn_runs (rs_conn x)) \<and>
     (\<forall>a b c. rs_cctx x a = Some c \<longrightarrow> rs_cctx x b = Some c \<longrightarrow> a = b) \<and>
     ran (rs_cctx x) \<subseteq> {..<rs_made x} \<and>
     {..<rs_made x} - ran (rs_cctx x) \<subseteq> rs_cancelled x \<and> rs_cancelled x \<subseteq> {..<rs_made x}"

lemma Run_reconnect_eq: "rs_resetConnections x addr = Some c \<Longrightarrow>
    Run_reconnect addr rn x =
      (with_cancel addr (cancel c (x\<lparr>rs_conn := go_offline addr (rs_conn x)\<rparr>)))
        \<lparr>rs_conn := set_run addr (rn\<lparr>rn_phase := Dialing, rn_retry := rn_retry rn + 1\<rparr>)
           (go_offline addr (rs_conn x))\<rparr>"
  by (simp add: Run_reconnect_def Let_def rs_conn_with_cancel rs_conn_cancel)

text \<open>Giving an address a new context, once its old one, if any, is cancelled.\<close>

lemma fresh_context:
  assumes "rs_resetConnections x = rs_cctx x" and "\<And>a b c. rs_cctx x a = Some c \<Longrightarrow> rs_cctx x b = Some c \<Longrightarrow> a = b"
    and "ran (rs_cctx x) \<subseteq> {..<rs_made x}" and "{..<rs_made x} - ran (rs_cctx x) \<subseteq> rs_cancelled x"
    and "rs_cancelled x \<subseteq> {..<rs_made x}" and "\<And>c. rs_cctx x addr = Some c \<Longrightarrow> c \<in> rs_cancelled x"
    and "dom (cn_runs s) = insert addr (dom (rs_cctx x))"
  shows "rs_inv ((with_cancel addr x)\<lparr>rs_conn := s\<rparr>)"
proof -
  let ?m = "(rs_cctx x)(addr \<mapsto> rs_made x)"
  have new: "rs_cctx x a \<noteq> Some (rs_made x)" for a using assms(3) by (auto intro: ranI)
  have inj: "a = b" if "?m a = Some c" "?m b = Some c" for a b c
    using that new assms(2)[of a c b] by (auto split: if_splits)
  have ran: "ran ?m \<subseteq> {..<Suc (rs_made x)}"
    using assms(3) by (fastforce simp: ran_def split: if_splits)
  have "c \<in> rs_cancelled x" if "c < Suc (rs_made x)" "c \<notin> ran ?m" for c
  proof -
    from that(2) have "c \<noteq> rs_made x" and other: "\<And>a. rs_cctx x a = Some c \<Longrightarrow> a = addr"
      by (auto simp: ran_def split: if_splits)
    with that(1) have "c < rs_made x" by simp
    then show ?thesis
    proof (cases "c \<in> ran (rs_cctx x)")
      case True
      then obtain a where a: "rs_cctx x a = Some c" by (auto simp: ran_def)
      with other have "a = addr" by blast
      with a assms(6) show ?thesis by blast
    qed (use assms(4) in auto)
  qed
  then have old: "{..<Suc (rs_made x)} - ran ?m \<subseteq> rs_cancelled x" by blast
  have "rs_cancelled x \<subseteq> {..<Suc (rs_made x)}" using assms(5) by auto
  with assms(1,7) ran old inj show ?thesis unfolding rs_inv_def with_cancel_def
    by (intro conjI allI impI) (simp_all del: fun_upd_apply)
qed

lemma rs_inv_step: "rs_step encode decode timeout x y \<Longrightarrow> rs_inv x \<Longrightarrow> rs_inv y"
proof (induction rule: rs_step.induct)
  case (start x addr)
  then have "rs_inv ((with_cancel addr x)\<lparr>rs_conn := set_run addr new_run (rs_conn x)\<rparr>)"
    by (intro fresh_context) (auto simp: rs_inv_def set_run_def)
  then show ?case by (simp add: Run_start_def Let_def rs_conn_with_cancel)
next
  case (reconnect x addr rn)
  then obtain c where c: "rs_cctx x addr = Some c" unfolding rs_inv_def by blast
  with reconnect.prems have below: "c < rs_made x" by (auto simp: rs_inv_def dest: ranI)
  let ?s = "set_run addr (rn\<lparr>rn_phase := Dialing, rn_retry := rn_retry rn + 1\<rparr>)
    (go_offline addr (rs_conn x))"
  let ?x = "cancel c (x\<lparr>rs_conn := go_offline addr (rs_conn x)\<rparr>)"
  have "rs_inv ((with_cancel addr ?x)\<lparr>rs_conn := ?s\<rparr>)"
    using reconnect.prems c below
    by (intro fresh_context) (auto simp: rs_inv_def cancel_def set_run_def go_offline_def)
  moreover have "rs_resetConnections x addr = Some c"
    using c reconnect.prems by (simp add: rs_inv_def)
  ultimately show ?case by (simp only: Run_reconnect_eq)
next
  case (reset addrs x)
  then show ?case by (auto simp: rs_inv_def reset_all_fields intro: ranI)
next
  case (inside x s')
  then show ?case by (simp add: rs_inv_def goes_on_def)
qed

lemma rs_inv_init: "rs_inv NewConn_ctx"
  by (simp add: rs_inv_def NewConn_ctx_def NewConn_def)

lemma rs_inv_reach: "rs_reach encode decode timeout x \<Longrightarrow> rs_inv x"
  by (induction rule: rtranclp_induct) (auto intro: rs_inv_init rs_inv_step)

subsection \<open>Resetting the connections\<close>

lemma ctx_done_reconnect: "rs_inv x \<Longrightarrow> cn_runs (rs_conn x) addr = Some rn \<Longrightarrow>
    ctx_done other (Run_reconnect addr rn x) \<longleftrightarrow> other \<noteq> addr \<and> ctx_done other x"
proof -
  assume inv: "rs_inv x" and rn: "cn_runs (rs_conn x) addr = Some rn"
  then obtain c where c: "rs_cctx x addr = Some c" unfolding rs_inv_def by blast
  with inv have reset: "rs_resetConnections x addr = Some c" by (simp add: rs_inv_def)
  from inv have "rs_made x \<notin> rs_cancelled x" by (auto simp: rs_inv_def)
  moreover from inv c have "rs_made x \<noteq> c" by (auto simp: rs_inv_def dest: ranI)
  moreover from inv c have "other = addr" if "rs_cctx x other = Some c"
    using that by (auto simp: rs_inv_def)
  ultimately show ?thesis unfolding Run_reconnect_eq[of x addr c rn, OF reset]
    by (auto simp: ctx_done_def with_cancel_def cancel_def split: option.splits)
qed

lemma reset_reaches:
  assumes "rs_inv x" and "set addrs = dom (rs_resetConnections x)"
  shows "ctx_done a (reset_all addrs x) \<longleftrightarrow> a \<in> dom (cn_runs (rs_conn x))"
proof -
  from assms(1) have eq: "rs_resetConnections x = rs_cctx x"
    and dom: "dom (cn_runs (rs_conn x)) = dom (rs_cctx x)" by (simp_all add: rs_inv_def)
  show ?thesis
  proof (cases "rs_cctx x a")
    case None
    then show ?thesis unfolding dom by (simp add: ctx_done_def reset_all_fields domIff)
  next
    case (Some c)
    then have "a \<in> set addrs" using assms(2) eq by auto
    with Some eq show ?thesis unfolding dom by (auto simp: ctx_done_def reset_all_fields)
  qed
qed

text \<open>
  In every reachable state the loop of the health check over \<open>resetConnections\<close>, in whichever
  order, reaches every node: the current attempt of each started address finds its context done.
  What it cancels stays local to that attempt: the next attempt of an address runs under a fresh,
  live context, and starting it changes nothing for the attempts of the other addresses.
\<close>

theorem health_reset:
  assumes "rs_reach encode decode timeout x" and "set addrs = dom (rs_resetConnections x)"
    and "cn_runs (rs_conn x) addr = Some rn"
  shows "ctx_done addr (reset_all addrs x) \<and> rs_conn (reset_all addrs x) = rs_conn x \<and>
    (\<forall>other. ctx_done other (Run_reconnect addr rn (reset_all addrs x)) \<longleftrightarrow>
       other \<noteq> addr \<and> other \<in> dom (cn_runs (rs_conn x)))"
proof -
  from assms(1) have inv: "rs_inv x" by (rule rs_inv_reach)
  from rs_inv_step[OF rs_step.reset[OF assms(2)] this]
  have inv': "rs_inv (reset_all addrs x)" .
  have done': "ctx_done a (reset_all addrs x) \<longleftrightarrow> a \<in> dom (cn_runs (rs_conn x))" for a
    by (rule reset_reaches[OF inv assms(2)])
  have runs: "rs_conn (reset_all addrs x) = rs_conn x" by (simp add: reset_all_fields)
  with assms(3) have "cn_runs (rs_conn (reset_all addrs x)) addr = Some rn" by simp
  note later = ctx_done_reconnect[OF inv' this]
  from assms(3) have "ctx_done addr (reset_all addrs x)" unfolding done' by blast
  with runs show ?thesis unfolding later done' by simp
qed

text \<open>
  No context is left behind: in every reachable state a context that was made and is not
  cancelled is the one of the current attempt of a single address.
\<close>

theorem live_contexts:
  assumes "rs_reach encode decode timeout x" and "c < rs_made x" and "c \<notin> rs_cancelled x"
  shows "\<exists>!addr. rs_cctx x addr = Some c"
proof -
  from assms(1) have inv: "rs_inv x" by (rule rs_inv_reach)
  with assms(2,3) have "c \<in> ran (rs_cctx x)" by (auto simp: rs_inv_def)
  then obtain addr where "rs_cctx x addr = Some c" by (auto simp: ran_def)
  with inv show ?thesis by (auto simp: rs_inv_def)
qed

definition sample_two_nodes :: Conn_ctx where
  "sample_two_nodes = Run_start ''b'' (Run_start ''a'' NewConn_ctx)"

lemma sample_two_nodes_reach: "rs_reach sample_encode sample_decode 30 sample_two_nodes"
proof -
  have 1: "rs_step sample_encode sample_decode 30 NewConn_ctx (Run_start ''a'' NewConn_ctx)"
    by (rule rs_step.start) (simp add: NewConn_ctx_def NewConn_def)
  have 2: "rs_step sample_encode sample_decode 30 (Run_start ''a'' NewConn_ctx) sample_two_nodes"
    unfolding sample_two_nodes_def
    by (rule rs_step.start)
      (simp add: Run_start_def with_cancel_def set_run_def NewConn_ctx_def NewConn_def)
  from r_into_rtranclp[of "rs_step sample_encode sample_decode 30", OF 1] 2 show ?thesis
    by (rule rtranclp.rtrancl_into_rtrancl)
qed

lemma sample_two_nodes_fields:
  "rs_resetConnections sample_two_nodes = [''a'' \<mapsto> 0, ''b'' \<mapsto> 1]"
  "cn_runs (rs_conn sample_two_nodes) = [''a'' \<mapsto> new_run, ''b'' \<mapsto> new_run]"
  by (simp_all add: sample_two_nodes_def Run_start_def with_cancel_def set_run_def
      NewConn_ctx_def NewConn_def)

theorem health_reset_witness:
  "ctx_done ''a'' (reset_all [''b'', ''a''] sample_two_nodes) \<and>
   \<not> ctx_done ''a'' (Run_reconnect ''a'' new_run (reset_all [''b'', ''a''] sample_two_nodes)) \<and>
   ctx_done ''b'' (Run_reconnect ''a'' new_run (reset_all [''b'', ''a''] sample_two_nodes))"
proof -
  have "set [''b'', ''a''] = dom (rs_resetConnections sample_two_nodes)"
    and "cn_runs (rs_conn sample_two_nodes) ''a'' = Some new_run"
    by (auto simp: sample_two_nodes_fields)
  from health_reset[OF sample_two_nodes_reach this] show ?thesis
    by (simp add: sample_two_nodes_fields)
qed

end
