(* ===== verification/Spec2Isabelle.thy ===== *)
theory Spec2Isabelle
  imports Event_Mapper Transaction_Mapper Block_Balance_Mapper Chan_Pool Grpc_Conns Proxy_Client
    Ss58_Address Decode_Storage Ws_Conn Block_Data Block_Contents Block_And_Tx Account
    Indexer_Client Http_Transport Logging Migration Startup Metrics Ws_Replies Channel_Debt Stream_Loops Serving
    Pool_Traffic Amount_Text Ws_Reset
begin

text \<open>
  \<^bold>\<open>The polkadot worker.\<close> The repository holds a worker that answers requests of an indexer manager
  for the blocks, transactions and balances of a Polkadot chain, a live server that answers
  account requests over HTTP, and a migration of stored transactions. A request for a height
  asks a node over websockets for hashes, block, storage and metadata, lets the proxy decode
  them over gRPC, maps the answer to the indexer's structures, pairs transactions with
  extrinsics, and stores the result.

  \<^bold>\<open>Conventions.\<close> \<open>Go_Prelude\<close> has the outcomes of Go code: \<open>Ret\<close>, \<open>Fail\<close> (a returned error),
  \<open>Panic\<close>, and \<open>Blocked\<close> (a wait that nothing ends). Errors keep their format and arguments.
  Fixed-width integers are words, strings are their bytes. What is not in the repository is a
  parameter: JSON, SCALE decoding, the LRU cache, hashes, base58, gRPC calls, the rate limiter,
  the database, zap, dialling, the environment. \<open>Go_Strings\<close>, \<open>Go_Numbers\<close> and \<open>Go_BigFloat\<close>
  model the parts of the standard library the code computes with.

  \<^bold>\<open>Mappers (mapper/).\<close> \<open>Structs\<close>: the data read and written. \<open>Event_Mapper\<close>: \<open>getEvent\<close> and
  \<open>parseEvents\<close> with the two regular expressions written out; what an event maps to, when the
  mapper returns, fails or panics, and the ids of events. \<open>Transaction_Mapper\<close>: fees, times, the loop
  over extrinsics with duplicates dropped, and every field of a mapped transaction. \<open>Block_Balance_Mapper\<close>: blocks and balances.
  \<open>Shortest_Decimal\<close> says when the loop of the library that looks for the shortest decimal of a float stops,
  and \<open>Amount_Text\<close> that the texts of amounts below \<open>10^18\<close> are exact: it bounds the float's rounding, shows that
  no other number with at most eighteen digits is in its interval, and reads the digits printed as
  integer quotients.

  \<^bold>\<open>Node access (api/).\<close> \<open>Ws_Conn\<close>: \<open>Conn\<close> as a step relation over the runs of all nodes (sending,
  receiving, timing out, leaving and reconnecting), with the invariant that no request is
  answered twice or lost, and the health check. \<open>Ws_Reset\<close> puts the contexts of the attempts and
  \<open>resetConnections\<close> beside it: its steps refine \<open>ws_step\<close>, and the reset of the health check reaches
  every node and nothing that comes after. \<open>Ss58_Address\<close>: storage keys of accounts from
  addresses. \<open>Decode_Storage\<close>: the store of metadata decoders by version, its well-formedness
  and the locale \<open>version_store\<close>.

  \<^bold>\<open>Proxy (proxy/).\<close> \<open>Grpc_Conns\<close>: the connections and their shared cursor; the locale \<open>rotation\<close> is
  interpreted for the six services, and the whole refines a rotating list. \<open>Proxy_Client\<close>: one
  definition per call, the locale \<open>height_call\<close> for the five that take a height.

  \<^bold>\<open>Indexer (indexer/).\<close> \<open>Chan_Pool\<close>: pools of response channels over a heap of channels.
  \<open>Block_Data\<close> and \<open>Block_Contents\<close>: \<open>getBlock.go\<close> as actions on a state that holds the replies
  in the order they arrive; the result does not depend on that order. \<open>Block_And_Tx\<close>: the whole
  path of a height. \<open>Account\<close>: \<open>GetAccount\<close> and the fate of its channel. \<open>Indexer_Client\<close>: the
  stream loop, the handlers, height ranges with their wrap-around, and the operations on the store, whose
  order is shown in this theory. \<open>Stream_Loops\<close>: the forty
  copies of the loop on one stream as a step relation with arrivals, finishing and cancelling from
  outside; each request is taken once and answered with the responses due (one, and two for a request
  for the latest mark that does not parse), and the loops come to rest.

  \<^bold>\<open>Servers and commands.\<close> \<open>Http_Transport\<close>: the account handler. \<open>Logging\<close>: the loggers (both
  commands hold the same file). \<open>Serving\<close>: the mux of net/http with path cleaning, redirects and the
  longest pattern, the routes of both commands (the profiler's under its build tag), and the HTTP and
  gRPC servers up to their end. \<open>Startup\<close>: configuration and \<open>main\<close> of the three commands, so that what
  other theories assume (a first connection, a named network, the routes) is what a started command
  has. \<open>Migration\<close>: \<open>cmd/data-migration\<close>.

  \<^bold>\<open>Across components.\<close> \<open>Ws_Replies\<close> derives the replies on the channel of a block from the steps of
  the websockets: what comes in between two states answers only what was asked since, and the ten
  requests of a block give the data of one node, whatever else the runs serve; and no request stays
  open past its deadline. \<open>Channel_Debt\<close> shows
  that processing a height or an account takes as many replies as it sends requests whenever it
  returns, so that a pooled channel goes back with nothing outstanding; this is what makes constant
  request numbers safe. This theory follows a height from the replies of the node (\<open>node_answers\<close>), over
  the store of decoders, the proxy, the mappers and the pairing, to the operations on the search store;
  an HTTP request from the mux and the address in its path, over the storage key, the node's replies and
  SCALE decoding, to the response; and balance and latest-mark tasks from the stream over the proxy's
  connection or the node to the response. What other replies lead to is stated in \<open>Block_Data\<close>, \<open>Block_Contents\<close> and \<open>Account\<close>.

  \<^bold>\<open>Loops and bounds.\<close> Loops over lists are structural. A loop that waits for a fixed number of
  replies has that number as fuel (three hashes at most, seven data replies with the counter of
  the code, two in the migration), and is \<open>Blocked\<close> when the replies run out. The digit loops and
  the height loop of the migration terminate by measures; the latter is on 64 bits, where
  the bound \<open>to+1\<close> may wrap. Draining a channel is \<open>Blocked\<close> exactly on a closed one.

  \<^bold>\<open>Not modelled.\<close> The engine of the metrics library (\<open>Metrics\<close> has the declarations); log messages
  of the components; the flag parser, the environment reader and embedded files, whose results are
  parameters of \<open>main\<close>; the transport below HTTP handlers and gRPC calls; test helpers (\<open>utils\<close>).
  Concurrency is modelled where state is shared: each locked method is one step, a goroutine of
  the websocket code is a run, a copy of a stream's loop is a loop, and the order of replies is
  arbitrary. What a handler finds in its channel and in the cache is any state its environment
  offers. Durations are not measured: a timeout is a choice of the environment. The sort of the
  migration is the library's insertion sort for short slices.
\<close>

section \<open>A height from the node to the store\<close>

lemma map_extrinsic_single_event:
  "map_extrinsic tm blk t = Ret tx \<Longrightarrow> \<exists>ev. tx_Events tx = [ev]"
  using map_extrinsic_fields[of tm blk t tx] by auto

text \<open>The pairing of the transactions of a block, each of which has one event.\<close>

lemma paired_transactions:
  assumes "TransactionsMapper tm (Some \<lparr>br_Block = Some blk\<rparr>) = Ret trs"
    and "distinct (map sx_ExtrinsicHash txs)"
    and "\<forall>t \<in> set (blk_Extrinsics blk). \<exists>e \<in> set txs. ex_Hash t = ''0x'' @ sx_ExtrinsicHash e"
  shows "\<exists>ws. pair_loop network chainID height txs 0 trs = Ret ws \<and>
    map (tx_Hash \<circ> twm_Transaction) ws = map ex_Hash (firsts ex_Hash {} (blk_Extrinsics blk)) \<and>
    (\<forall>w \<in> set ws. \<exists>j < length txs. tx_Hash (twm_Transaction w) = ''0x'' @ sx_ExtrinsicHash (txs ! j) \<and>
       event_ids w = [dash_id height (int j)])"
proof -
  have m: "mapM_go (map_extrinsic tm blk) (firsts ex_Hash {} (blk_Extrinsics blk)) = Ret trs"
    using assms(1) by (simp add: TransactionsMapper_eq)
  have hash: "map tx_Hash trs = map ex_Hash (firsts ex_Hash {} (blk_Extrinsics blk))"
    by (rule mapM_go_map[OF m]) (simp add: map_extrinsic_fields)
  have one: "\<exists>ev. tx_Events tx = [ev]" if "tx \<in> set trs" for tx
  proof -
    from m have "list_all2 (\<lambda>t tx. map_extrinsic tm blk t = Ret tx) (firsts ex_Hash {} (blk_Extrinsics blk)) trs"
      by (simp add: mapM_go_eq_Ret)
    from that this obtain t where "t \<in> set (firsts ex_Hash {} (blk_Extrinsics blk))" "map_extrinsic tm blk t = Ret tx" by (rule list_all2_right)
    from this(2) show ?thesis by (rule map_extrinsic_single_event)
  qed
  have "\<exists>e \<in> set txs. tx_Hash tx = ''0x'' @ sx_ExtrinsicHash e" if "tx \<in> set trs" for tx
  proof -
    from that have "tx_Hash tx \<in> set (map tx_Hash trs)" by simp
    then obtain t where "t \<in> set (firsts ex_Hash {} (blk_Extrinsics blk))" "tx_Hash tx = ex_Hash t"
      unfolding hash by auto
    with firsts_subset[of ex_Hash "{}" "blk_Extrinsics blk"] assms(3) show ?thesis by auto
  qed
  then have "\<forall>t \<in> set trs. \<exists>e \<in> set txs. tx_Hash t = ''0x'' @ sx_ExtrinsicHash e" by blast
  from pair_loop_ids[OF assms(2) this] obtain ws where
    ws: "pair_loop network chainID height txs 0 trs = Ret ws"
    and all: "list_all2 (\<lambda>t w. \<exists>j < length txs. tx_Hash t = ''0x'' @ sx_ExtrinsicHash (txs ! j) \<and>
      w = with_meta network chainID (set_event_ids height j t)) trs ws" .
  have "map (tx_Hash \<circ> twm_Transaction) ws = map tx_Hash trs"
    using all by (induction rule: list_all2_induct) (auto simp: with_meta_def set_event_ids_def)
  moreover have "\<exists>j < length txs. tx_Hash (twm_Transaction w) = ''0x'' @ sx_ExtrinsicHash (txs ! j) \<and>
       event_ids w = [dash_id height (int j)]" if w: "w \<in> set ws" for w
  proof -
    from w all obtain t where t: "t \<in> set trs" and "\<exists>j < length txs. tx_Hash t = ''0x'' @ sx_ExtrinsicHash (txs ! j) \<and>
      w = with_meta network chainID (set_event_ids height j t)" by (rule list_all2_right)
    then obtain j where "j < length txs" "tx_Hash t = ''0x'' @ sx_ExtrinsicHash (txs ! j)"
      "w = with_meta network chainID (set_event_ids height j t)" by blast
    moreover from one[OF t] obtain ev where "tx_Events t = [ev]" ..
    ultimately show ?thesis
      by (intro exI[of _ j]) (simp add: event_ids_def with_meta_def set_event_ids_def)
  qed
  ultimately show ?thesis using ws hash by auto
qed

text \<open>
  C1: A height on its whole way. When the node answers the requests for it in any order, the
  runtime's decoder is known, and the proxy decodes what it is handed to a block whose extrinsics
  map and are among the raw ones, \<open>BlockAndTx\<close> stores the block and then its transactions,
  nothing else, and returns them: one transaction per hash, in the order of the block's
  extrinsics, each with one event whose id names the height and the position of its raw extrinsic.
\<close>

theorem height_stored:
  assumes "node_answers E height D c' rest s" and "known_runtime E D ds meta txs"
    and "en_proxy E (decode_request D (md_Bytes meta)) height =
      Ret \<lparr>dr_Block = Some \<lparr>br_Block = Some blk\<rparr>, dr_Epoch = epoch\<rparr>"
    and "blk_Header blk = Some h" and "blk_Extrinsics blk \<noteq> []"
    and "TransactionsMapper (en_mapper E) (Some \<lparr>br_Block = Some blk\<rparr>) = Ret trs"
    and "distinct (map sx_ExtrinsicHash txs)"
    and "\<forall>t \<in> set (blk_Extrinsics blk). \<exists>e \<in> set txs. ex_Hash t = ''0x'' @ sx_ExtrinsicHash e"
    and "ss_session S = None" and "\<forall>op. ss_run S op = None"
  shows "\<exists>b ws. BlockAndTx E S height ds s =
      (Ret (b, ws), [StoreBlocks [b], StoreTransactions ws], after_block E height D c' rest s) \<and>
    bwm_Block b = \<lparr>b_ChainID = en_chainID E, b_Epoch = epoch, b_Hash = blk_BlockHash blk,
      b_Height = hd_Height h, b_NumberOfTransactions = length (blk_Extrinsics blk), b_Time = hd_Time h\<rparr> \<and>
    map (tx_Hash \<circ> twm_Transaction) ws = map ex_Hash (firsts ex_Hash {} (blk_Extrinsics blk)) \<and>
    (\<forall>w \<in> set ws. \<exists>j < length txs. tx_Hash (twm_Transaction w) = ''0x'' @ sx_ExtrinsicHash (txs ! j) \<and>
       event_ids w = [dash_id (hd_Height h) (int j)])"
proof -
  obtain ws where ws: "pair_loop (en_network E) (en_chainID E) (hd_Height h) txs 0 trs = Ret ws"
    and hash: "map (tx_Hash \<circ> twm_Transaction) ws = map ex_Hash (firsts ex_Hash {} (blk_Extrinsics blk))"
    and ids: "\<forall>w \<in> set ws. \<exists>j < length txs. tx_Hash (twm_Transaction w) = ''0x'' @ sx_ExtrinsicHash (txs ! j) \<and>
       event_ids w = [dash_id (hd_Height h) (int j)]"
    using paired_transactions[OF assms(6-8)] by blast
  have "firsts ex_Hash {} (blk_Extrinsics blk) \<noteq> []"
    using assms(5) by (cases "blk_Extrinsics blk") simp_all
  with hash have ne: "ws \<noteq> []" by auto
  show ?thesis using assms(4,5,6,9,10) ws hash ids ne
    by (simp add: BlockAndTx_def blockAndTx_run[OF assms(1-3)] block_transactions_def BlockMapper_def
        store_fetched_def)
qed

text \<open>A height whose block has two transactions, once the runtime's decoder is known.\<close>

definition busy_env :: "(unit, unit, u64 \<rightharpoonup> string) env" where
  "busy_env = sample_env
     \<lparr>en_proxy := (\<lambda>ddr h. if ddr = decode_request sample_data ''m'' \<and> h = 9
        then Ret \<lparr>dr_Block = Some \<lparr>br_Block = Some set_block\<rparr>, dr_Epoch = ''370''\<rparr>
        else Fail (Errors_New ''x'')),
      en_codecs := \<lparr>cd_block = (\<lambda>s b. (None, block_of [''a1'', ''dc''])), cd_runtime = (\<lambda>s p. (None, p))\<rparr>,
      en_decode := (\<lambda>x d v. Returns (raw_decoder x))\<rparr>"

definition willing_store :: search_store where
  "willing_store = \<lparr>ss_session = None, ss_run = (\<lambda>op. None)\<rparr>"

definition failing_store :: search_store where
  "failing_store = \<lparr>ss_session = None,
     ss_run = (\<lambda>op. case op of StoreBlocks bs \<Rightarrow> Some (Errors_New ''full'') | _ \<Rightarrow> None)\<rparr>"

definition busy_io :: "(u64 \<rightharpoonup> string) io" where
  "busy_io = io_with Map.empty (rev (node_hashes sample_data) @ rev (node_others sample_data))"

lemma busy_answers: "node_answers busy_env 9 sample_data Map.empty [] busy_io"
  unfolding busy_io_def
  by (rule sample_answers) (simp_all add: busy_env_def sample_env_def word_less_def decodes_def)

lemma busy_runtime:
  "known_runtime busy_env sample_data sample_store \<lparr>md_Decoder = (), md_Spec = 0, md_Bytes = ''m''\<rparr>
    (map (\<lambda>raw. raw_extrinsic raw ''Timestamp'') [''a1'', ''dc''])"
  by (simp add: known_runtime_def busy_env_def sample_env_def sample_store_def node_runtime_def node_block_def
      decoder_of_def zero_runtime_def GetTransactionsForHeight_def raw_decoder_loop block_of_def
      del: list.map)

theorem height_stored_witness:
  "\<exists>b ws s'. BlockAndTx busy_env willing_store 9 sample_store busy_io =
      (Ret (b, ws), [StoreBlocks [b], StoreTransactions ws], s') \<and>
    map (tx_Hash \<circ> twm_Transaction) ws = [''0xdc'', ''0xa1'']"
proof -
  obtain trs where trs: "TransactionsMapper (en_mapper busy_env) (Some \<lparr>br_Block = Some set_block\<rparr>) = Ret trs"
    using set_block_maps by (auto simp: busy_env_def sample_env_def)
  show ?thesis
    using height_stored[OF busy_answers busy_runtime _ _ _ trs, of "''370''" "\<lparr>hd_Height = 5400570, hd_Time = (1623058068, 0)\<rparr>"
        willing_store]
    by (auto simp: set_block_hashes busy_env_def willing_store_def raw_extrinsic_def set_block_def
        simp del: ex_simps)
qed

text \<open>
  C20: When \<open>BlockAndTx\<close> returns a block and its transactions, exactly they were stored, the block
  first, and every store succeeded; and whatever happened, transactions were sent to the store only
  right after their own block was stored without an error.
\<close>

theorem block_stored_before_transactions:
  assumes "BlockAndTx E S height ds s = (r, ops, s')"
  shows "(\<forall>out. r = Ret out \<longrightarrow> (\<forall>op \<in> set ops. ss_run S op = None) \<and>
      ops = StoreBlocks [fst out] # (if snd out = [] then [] else [StoreTransactions (snd out)])) \<and>
    (\<forall>txs. StoreTransactions txs \<in> set ops \<longrightarrow>
      (\<exists>b. ops = [StoreBlocks [b], StoreTransactions txs] \<and> ss_run S (StoreBlocks [b]) = None))"
proof -
  obtain q where "store_fetched S height q = (r, ops)"
    using assms by (auto simp: BlockAndTx_def split: prod.splits)
  from store_fetched_spec[OF this] show ?thesis by blast
qed

lemma busy_run:
  "\<exists>b w ws ds s'. blockAndTx busy_env 9 sample_store busy_io = (Ret ((b, w # ws), ds), s')"
proof -
  let ?txs = "map (\<lambda>raw. raw_extrinsic raw ''Timestamp'') [''a1'', ''dc'']"
  obtain trs where trs: "TransactionsMapper (en_mapper busy_env) (Some \<lparr>br_Block = Some set_block\<rparr>) = Ret trs"
    using set_block_maps by (auto simp: busy_env_def sample_env_def)
  have raw: "distinct (map sx_ExtrinsicHash ?txs)"
    "\<forall>t \<in> set (blk_Extrinsics set_block). \<exists>e \<in> set ?txs. ex_Hash t = ''0x'' @ sx_ExtrinsicHash e"
    by (simp_all add: set_block_hashes raw_extrinsic_def)
  obtain ws where ws: "pair_loop (en_network busy_env) (en_chainID busy_env) 5400570 ?txs 0 trs = Ret ws"
    and hash: "map (tx_Hash \<circ> twm_Transaction) ws = map ex_Hash (firsts ex_Hash {} (blk_Extrinsics set_block))"
    using paired_transactions[OF trs raw] by blast
  obtain w ws' where "ws = w # ws'" using hash by (cases ws) (simp_all add: set_block_hashes)
  moreover have "en_proxy busy_env (decode_request sample_data ''m'') 9 =
      Ret \<lparr>dr_Block = Some \<lparr>br_Block = Some set_block\<rparr>, dr_Epoch = ''370''\<rparr>"
    by (simp add: busy_env_def)
  ultimately show ?thesis using ws trs blockAndTx_run[OF busy_answers busy_runtime]
    by (simp add: block_transactions_def BlockMapper_def set_block_def)
qed

theorem block_stored_before_transactions_witness:
  "(\<exists>err b s'. BlockAndTx busy_env failing_store 9 sample_store busy_io = (Fail err, [StoreBlocks [b]], s')) \<and>
   (\<exists>b w ws s'. BlockAndTx busy_env willing_store 9 sample_store busy_io =
      (Ret (b, w # ws), [StoreBlocks [b], StoreTransactions (w # ws)], s'))"
proof -
  obtain b w ws ds s' where run: "blockAndTx busy_env 9 sample_store busy_io = (Ret ((b, w # ws), ds), s')"
    using busy_run by blast
  obtain err more where f: "BlockAndTx busy_env failing_store 9 sample_store busy_io = (Fail err, StoreBlocks [b] # more, s')"
    and more: "set more \<subseteq> range StoreTransactions"
    by (simp add: BlockAndTx_def run store_fetched_def failing_store_def)
  have "StoreTransactions txs \<notin> set (StoreBlocks [b] # more)" for txs
    using block_stored_before_transactions[OF f] by (auto simp: failing_store_def)
  with more have "more = []" by (cases more) auto
  obtain ops' where g: "BlockAndTx busy_env willing_store 9 sample_store busy_io = (Ret (b, w # ws), ops', s')"
    by (simp add: BlockAndTx_def run store_fetched_def willing_store_def)
  have "ops' = [StoreBlocks [b], StoreTransactions (w # ws)]"
    using block_stored_before_transactions[OF g] by simp
  with f g \<open>more = []\<close> show ?thesis by simp
qed

section \<open>An account from the address in a path to the HTTP response\<close>

text \<open>A request to the mux of the live server, over \<open>GetAccount\<close> when no wait runs out.\<close>

definition live_handler :: "mux \<Rightarrow> ('d, 'c) acc_env \<Rightarrow> 'd DecodeStorage \<Rightarrow> 'c io \<Rightarrow> string \<Rightarrow> string \<Rightarrow> live_answer" where
  "live_handler m E ds s height path =
     live_request m (\<lambda>n a. fst (GetAccount E False False n a ds s)) None height path"

lemma live_handler_account:
  assumes "live_mux monitor = Ret m" and "monitor_apart monitor" and "segment a"
    and "ws = [a] \<or> ws = [a, []]"
  shows "live_handler m E ds s (show_u64 height) (account_path ws) =
    Answered (respond None (fst (GetAccount E False False height (last ws) ds s)))"
proof -
  have "show_u64 height \<noteq> []" by (simp add: show_u64_def)
  then have "height_param (show_u64 height) = Ret height" by (simp add: height_param_def)
  moreover have "asked_account (account_path ws) = Some (last ws)"
    using assms(3,4) by (intro asked_account_path) (auto simp: segment_def)
  moreover have "live_handler m E ds s (show_u64 height) (account_path ws) = Answered (http_GetAccount
      (\<lambda>n a. fst (GetAccount E False False n a ds s)) None (show_u64 height) (account_path ws))"
    unfolding live_handler_def
    by (rule live_request_account[OF assms(1,2), where ws = "[a]"]) (use assms(3,4) in auto)
  ultimately show ?thesis by (simp add: http_GetAccount_asked)
qed

text \<open>
  C13: A request to the live server for the address of a public key at an uncached height above 1, with a node that answers
  with the hashes in any order, the runtime version and the account's storage: the node is asked
  for exactly the storage key of that public key at the hash of that height, the response holds
  the fields of the decoded account, and the channel is back in the pool with only what came after
  these replies in it.
\<close>

theorem account_served:
  assumes "live_mux monitor = Ret m" and "monitor_apart monitor"
    and "address_of (ae_libs E) key a" and "segment a"
    and "bl_New (al_blake (ae_libs E)) = None" and "bl_Write (al_blake (ae_libs E)) key = None"
    and "runtime_answered E height b R meta c' ds (reply i ''state_getStorage'' (quoted t) # rest) s"
    and "ae_scale E t (md_Decoder meta) (sint (prv_SpecVersion R)) = Returns d" and "decode_account d = Ret pai"
  shows "live_handler m E ds s (show_u64 height) (account_path [a]) =
      Answered (Ret [Encode (View \<lparr>av_Nonce = uint (pai_Nonce pai), av_Free = pad_Free (pai_Data pai),
        av_Reserved = pad_Reserved (pai_Data pai), av_MiscFrozen = pad_MiscFrozen (pai_Data pai),
        av_FeeFrozen = pad_FeeFrozen (pai_Data pai)\<rparr>)]) \<and>
    (\<exists>s'. GetAccount E False False height a ds s = (Ret pai, [PutBack], s') \<and> io_inbox s' = rest \<and>
      io_log s' = io_log s @ hash_calls height @
        [(RequestParentRuntimeVersion, ''state_getRuntimeVersion'', Some [PStr b]),
         (RequestSystemAccount, ''state_getStorage'',
          Some [PStr (account_storage_key (ae_libs E) key), PStr b])])"
proof -
  have req: "AccountRequest (ae_libs E) a = Ret (account_storage_key (ae_libs E) key, None)"
    by (simp add: AccountRequest_address[OF assms(3,5)] assms(6))
  note run = GetAccount_run[OF assms(7) req assms(8,9)]
  have "live_handler m E ds s (show_u64 height) (account_path [a]) = Answered (respond None (Ret pai))"
    using live_handler_account[OF assms(1,2,4), of "[a]" E ds s height] by (simp add: run)
  then show ?thesis by (simp add: run respond_def account_view_def)
qed

text \<open>
  C37: The same request with a slash after the address panics in the handler once the node has
  answered with the runtime version: the address asked for is the empty string, whose base58 decoding
  is empty; the channel of the request is neither put back nor cleaned up.
\<close>

theorem trailing_slash_panics:
  assumes "live_mux monitor = Ret m" and "monitor_apart monitor" and "segment a"
    and "al_base58 (ae_libs E) [] = []" and "runtime_answered E height b R meta c' ds rest s"
  shows "live_handler m E ds s (show_u64 height) (account_path [a, []]) = Answered (Panic IndexOutOfRange) \<and>
    fst (snd (GetAccount E False False height [] ds s)) = []"
proof -
  have "AccountRequest (ae_libs E) [] = Panic IndexOutOfRange"
    by (simp add: AccountRequest_def assms(4) account_id_def CheckAddress_def go_index_def Let_def)
  then have "getAccountData E False meta v b [] s2 = (Panic IndexOutOfRange, [], s2)" for v s2
    by (simp add: getAccountData_def or_else_def lift_go_def)
  then have "GetAccount E False False height [] ds s =
      (Panic IndexOutOfRange, [], after_runtime E height b c' rest s)"
    by (simp add: GetAccount_reaches_data[OF assms(5)] put_unless_timeout_def)
  with live_handler_account[OF assms(1-3), of "[a, []]" E ds s height] show ?thesis
    by (simp add: respond_def)
qed

definition live_env :: "(unit, u64 \<rightharpoonup> string) acc_env" where
  "live_env = slow_env
     \<lparr>ae_libs := sample_libs\<lparr>al_base58 := (\<lambda>a. if a = [] then [] else al_base58 sample_libs a)\<rparr>,
      ae_scale := (\<lambda>s d v. Returns (DMap
       [(''nonce'', DUint32 3), (''consumers'', DUint32 0), (''providers'', DUint32 1),
        (''data'', DMap [(''free'', DDecimal ''10''), (''reserved'', DDecimal ''0''),
           (''miscFrozen'', DDecimal ''0''), (''feeFrozen'', DDecimal ''0'')])]))\<rparr>"

definition live_io :: "Response list \<Rightarrow> (u64 \<rightharpoonup> string) io" where
  "live_io rest = io_with Map.empty (rev (node_hashes sample_data) @
     reply RequestParentRuntimeVersion ''state_getRuntimeVersion'' ''{}'' # rest)"

lemma live_io_answers: "runtime_answered live_env 9 ''b'' zero_runtime
    \<lparr>md_Decoder = (), md_Spec = 0, md_Bytes = ''m''\<rparr> Map.empty sample_store rest (live_io rest)"
  unfolding runtime_answered_def
proof (intro conjI exI)
  show "mset (rev (node_hashes sample_data)) = {#hash_resp RequestBlockHash ''b'',
      hash_resp RequestParentBlockHash ''p'', hash_resp RequestGrandparentBlockHash ''g''#}"
    by (simp add: node_hashes_def sample_data_def)
  show "io_inbox (live_io rest) = rev (node_hashes sample_data) @
      reply RequestParentRuntimeVersion ''state_getRuntimeVersion'' ''{}'' # rest"
    by (simp add: live_io_def io_with_def)
qed (simp_all add: live_env_def slow_env_def live_io_def io_with_def map_cache_cold sample_store_def
    zero_runtime_def decoder_of_def word_less_def)

theorem account_served_witness:
  "live_handler sample_live_mux live_env sample_store (live_io [reply RequestSystemAccount ''state_getStorage'' (quoted ''0x'')])
      (show_u64 9) (account_path [''a'']) =
    Answered (Ret [Encode (View \<lparr>av_Nonce = 3, av_Free = ''10'', av_Reserved = ''0'', av_MiscFrozen = ''0'',
      av_FeeFrozen = ''0''\<rparr>)])"
proof -
  have "address_of (ae_libs live_env) (replicate 32 1) ''a''"
    unfolding address_of_def
    by (intro conjI exI[of _ "[42]"] exI[of _ "[0, 0]"])
      (simp_all add: live_env_def slow_env_def sample_libs_def)
  from account_served[OF sample_live this _ _ _ live_io_answers,
      where i = RequestSystemAccount and t = "''0x''" and rest = "[]" and pai = some_account]
  show ?thesis
    by (simp add: live_env_def slow_env_def sample_libs_def decode_account_def as_uint32_def as_map_def
        as_decimal_def some_account_def segment_def)
qed

theorem trailing_slash_panics_witness:
  "live_handler sample_live_mux live_env sample_store (live_io []) (show_u64 9) (account_path [''a'', []]) =
    Answered (Panic IndexOutOfRange)"
  using trailing_slash_panics[OF sample_live _ _ live_io_answers, where a = "''a''" and rest = "[]"]
  by (simp add: live_env_def segment_def)

section \<open>A balance task from the stream to the response\<close>

text \<open>
  C38: A task that asks for the balance of an account at a height below \<open>2^63\<close>, on a worker whose proxy
  client has a connection: the remote call goes to the connection at the cursor with that height
  and address, and when it answers with an amount below \<open>10^18\<close>, one final response goes out whose
  payload is the height and that amount (none when it is zero) in the worker's currency, with its exact
  text in whole units and decimals.
\<close>

theorem balance_task_served:
  assumes "tq_Type tr = ty_balance T" and "he_height_account H (tq_Payload tr) = (None, a, h)"
    and "a \<noteq> []" and "h \<noteq> 0" and "uint h < 2 ^ 63"
    and "he_balance H = (\<lambda>a h. fst (GetAccountBalance None rpc a h pc))" and "conns_ok mk (cl_conn pc)"
    and "rpc (mk AccountSvc (gc_Conn (cl_conn pc) ! cursor (cl_conn pc))) \<lparr>aq_Height = uint h, aq_Address = a\<rparr> =
      Inr (Some \<lparr>ar_Account = Some \<lparr>acc_Free = show_nat N\<rparr>\<rparr>)"
    and "c = NewIndexerClient (int k) most chain cur network" and "N < 10 ^ 18" and "k \<le> 18"
  shows "dispatch T H c latest tr s =
    ([\<lparr>tr_Id = tq_Id tr, tr_Type = ''AccountBalance'', tr_Order = 0, tr_Error = None, tr_Final = True,
       tr_Payload = he_marshal_balance H \<lparr>gab_Height = h, gab_Balances = (if N = 0 then [] else
         [\<lparr>ta_Text = exact_text k N @ cur, ta_Currency = cur, ta_Numeric = Some (int N),
           ta_Exp = word_of_int (int k)\<rparr>])\<rparr>\<rparr>], Ret (), s)"
proof -
  have "fst (GetAccountBalance None rpc a h pc) = Ret (Some \<lparr>ar_Account = Some \<lparr>acc_Free = show_nat N\<rparr>\<rparr>)"
    using GetAccountBalance_reply[OF assms(7,5), of rpc a] assms(8) by simp
  moreover have "ic_abMapper c = NewAccountBalanceMapper (int k) cur" by (simp add: assms(9) NewIndexerClient_def)
  ultimately have "getBalanceSummary H c a h =
      Ret \<lparr>gab_Height = h, gab_Balances = (if N = 0 then [] else [exact_amount k cur N])\<rparr>"
    using assms(6) map_balance_exact[OF assms(10,11,4)] by (simp add: getBalanceSummary_def)
  then show ?thesis using assms(1-4)
    by (simp add: dispatch_def handle_balance_def bad_payload_def exact_amount_def)
qed

definition balance_proxy :: "(string, service \<times> string) Client" where
  "balance_proxy = NewClient (add_all (\<lambda>s c. (s, c)) [''p''] NewGRPConnections)"

definition balance_handlers :: handler_env where
  "balance_handlers = sample_handlers
     \<lparr>he_height_account := (\<lambda>p. (None, p, 9)),
      he_balance := (\<lambda>a h. fst (GetAccountBalance None
        (\<lambda>k q. if k = (AccountSvc, ''p'') \<and> aq_Height q = 9 then Inr (Some \<lparr>ar_Account = Some \<lparr>acc_Free = ''1234''\<rparr>\<rparr>)
               else Inl (Errors_New ''x'')) a h balance_proxy))\<rparr>"

theorem balance_task_served_witness:
  "fst (dispatch sample_types (balance_handlers\<lparr>he_marshal_balance := (\<lambda>b. concat (map ta_Text (gab_Balances b)))\<rparr>)
      sample_client (ret 7) \<lparr>tq_Id = ''i'', tq_Type = ''b'', tq_Payload = ''a''\<rparr> (io_with Map.empty [])) =
    [\<lparr>tr_Id = ''i'', tr_Type = ''AccountBalance'', tr_Order = 0, tr_Error = None, tr_Final = True,
      tr_Payload = ''0.0000001234DOT''\<rparr>]"
proof -
  have i: "conns_inv (\<lambda>s c. (s, c)) (cl_conn balance_proxy)" "gc_Conn (cl_conn balance_proxy) = [''p'']"
    "cursor (cl_conn balance_proxy) = 0"
    using add_all_inv[OF conns_inv_new, of "\<lambda>s c. (s, c)" "[''p'']"]
    by (simp_all add: balance_proxy_def NewClient_def cursor_def NewGRPConnections_def)
  then have ok: "conns_ok (\<lambda>s c. (s, c)) (cl_conn balance_proxy)" by (simp add: conns_ok_def)
  have c: "sample_client = NewIndexerClient (int 10) 100 ''mainnet'' ''DOT'' ''polkadot''" by (simp add: sample_client_def)
  have n: "''1234'' = show_nat 1234" "exact_text 10 1234 = ''0.0000001234''"
    by (simp_all add: exact_text_def fraction_digits_def dec_trim_def upt_rec show_nat.simps digit_char_def)
  show ?thesis
    using balance_task_served[OF _ _ _ _ _ _ ok _ c, of "\<lparr>tq_Id = ''i'', tq_Type = ''b'', tq_Payload = ''a''\<rparr>"
      sample_types "balance_handlers\<lparr>he_marshal_balance := (\<lambda>b. concat (map ta_Text (gab_Balances b)))\<rparr>" "''a''" 9
      "\<lambda>k q. if k = (AccountSvc, ''p'') \<and> aq_Height q = 9
        then Inr (Some \<lparr>ar_Account = Some \<lparr>acc_Free = ''1234''\<rparr>\<rparr>) else Inl (Errors_New ''x'')" 1234 "ret 7" "io_with Map.empty []"]
    by (simp add: balance_handlers_def sample_types_def i(2,3) n)
qed

section \<open>The latest mark from the node to the response\<close>

text \<open>
  C39: A task that asks for the latest mark, when the node answers the finalized head with a JSON string and the
  header with a hexadecimal number: the node is asked for the header of exactly that head, one final
  response goes out whose payload is the low 64 bits of the number, and the hash is cached under it.
\<close>

theorem latest_task_served:
  assumes "tq_Type tr = ty_latest T" and "ty_latest T \<noteq> ty_balance T" and "ty_latest T \<noteq> ty_transactions T"
    and "he_latest_request H (tq_Payload tr) = None"
    and "io_sends s = []" and "io_inbox s = head # header # rest"
    and "rp_Error head = None" and "rp_Result head = quoted hash" and "rp_Error header = None"
    and "unmarshal (rp_Result header) = (None, \<lparr>bh_Number = num\<rparr>)" and "num \<noteq> []"
    and "BigInt_SetString (Replace num ''0x'' [] None) 16 = Some n" and "0 \<le> n"
  shows "dispatch T H c (getLatestHeight unmarshal undef L) tr s =
    ([\<lparr>tr_Id = tq_Id tr, tr_Type = ''LatestMark'', tr_Order = 0, tr_Error = None, tr_Final = True,
       tr_Payload = he_marshal_latest H (of_nat (nat n))\<rparr>], Ret (),
     s\<lparr>io_inbox := rest,
       io_log := io_log s @ [(RequestFinalizedHead, ''chain_getFinalizedHead'', None),
                             (RequestTopHeader, ''chain_getHeader'', Some [PRaw (quoted hash)])],
       io_cache := lru_Add L (of_nat (nat n)) hash (io_cache s)\<rparr>)"
  using getLatestHeight_result[where unmarshal = unmarshal and s = s, OF assms(5-13)] assms(1-4) by (simp add: dispatch_def handle_latest_def)

theorem latest_task_served_witness:
  "fst (dispatch sample_types (sample_handlers\<lparr>he_marshal_latest := (\<lambda>h. show_u64 h)\<rparr>) sample_client
      (getLatestHeight (\<lambda>s. (None, \<lparr>bh_Number = s\<rparr>)) (\<lambda>s. 0) map_cache)
      \<lparr>tq_Id = ''i'', tq_Type = ''l'', tq_Payload = ''{}''\<rparr> (io_with Map.empty
        [reply RequestFinalizedHead ''chain_getFinalizedHead'' (quoted ''h''),
         reply RequestTopHeader ''chain_getHeader'' ''0xff''])) =
    [\<lparr>tr_Id = ''i'', tr_Type = ''LatestMark'', tr_Order = 0, tr_Error = None, tr_Final = True, tr_Payload = ''255''\<rparr>]"
  by (subst latest_task_served[where hash = "''h''" and num = "''0xff''" and n = 255 and rest = "[]"
      and head = "reply RequestFinalizedHead ''chain_getFinalizedHead'' (quoted ''h'')"
      and header = "reply RequestTopHeader ''chain_getHeader'' ''0xff''"])
    (simp_all add: sample_types_def sample_handlers_def io_with_def reply_def Replace.simps HasPrefix_def
      BigInt_SetString_def parse_int_def parse_nat_def digit_val_def digit_table_def show_u64_def
      show_nat.simps digit_char_def)

end
